(* ===== verification/Prelude.thy ===== *)
theory Prelude
  imports Main "HOL-Library.Word" "HOL-Library.Char_ord" "HOL-Library.List_Lexorder"
begin

text \<open>
  The vocabulary every component of the runtime shares: Go strings and byte slices, error
  values, panics, 64-bit integers, buffered channels, and the iteration order of Go maps.

  \<^item> A Go \<^verbatim>\<open>string\<close> and a Go \<^verbatim>\<open>[]byte\<close> are both byte sequences, and the conversions between
    them copy the bytes; both are a list of 8-bit characters here, ordered bytewise
    (\<^verbatim>\<open>Char_ord\<close> and \<^verbatim>\<open>List_Lexorder\<close>) as \<^verbatim>\<open>sort.Strings\<close> orders them. A nil slice and an
    empty one have the same length and content and are not told apart.
  \<^item> An error value is its message: \<open>NewError\<close> for \<^verbatim>\<open>errors.New\<close> and a \<^verbatim>\<open>fmt.Errorf\<close> that wraps
    nothing, \<open>WrapError\<close> for \<^verbatim>\<open>fmt.Errorf("prefix%w", err)\<close>.
  \<^item> Go's \<^verbatim>\<open>int\<close> and \<^verbatim>\<open>int64\<close> are \<open>int\<close> with every arithmetic result taken through \<open>wrap64\<close>.
  \<^item> A \<^verbatim>\<open>range\<close> over a map visits its keys in an order the language leaves open: an operation
    that ranges over a map takes that order as an argument, and \<open>iter_order\<close> says which
    orders are legal.
\<close>

section \<open>Bytes, errors, results\<close>

type_synonym bytes = string

datatype go_error = NewError string | WrapError string go_error

fun error_text :: "go_error \<Rightarrow> string" where
  "error_text (NewError s) = s"
| "error_text (WrapError s e) = s @ error_text e"

type_synonym 'a result = "go_error + 'a"

fun succeeded :: "'a result \<Rightarrow> bool" where
  "succeeded (Inl _) = False"
| "succeeded (Inr _) = True"

text \<open>A call that may index out of range: \<open>Panic\<close> is Go's run-time panic.\<close>

datatype 'a go_call = Panic | Return 'a

named_theorems frame "which part of a state an operation leaves alone"

lemma Pair_eq_iff_fst_snd: "p = (a, b) \<longleftrightarrow> fst p = a \<and> snd p = b"
  by (cases p) simp

section \<open>64-bit signed integers\<close>

definition int64_min :: int where "int64_min = - (2 ^ 63)"

definition int64_max :: int where "int64_max = 2 ^ 63 - 1"

definition in_int64 :: "int \<Rightarrow> bool" where
  "in_int64 x \<longleftrightarrow> int64_min \<le> x \<and> x \<le> int64_max"

definition wrap64 :: "int \<Rightarrow> int" where
  "wrap64 x = (x + 2 ^ 63) mod 2 ^ 64 - 2 ^ 63"

lemma in_int64_wrap64 [simp]: "in_int64 (wrap64 x)"
proof -
  have "0 \<le> (x + 2 ^ 63) mod 2 ^ 64" "(x + 2 ^ 63) mod 2 ^ 64 < (2 ^ 64 :: int)"
    by (rule pos_mod_sign pos_mod_bound, simp)+
  then show ?thesis by (simp add: wrap64_def in_int64_def int64_min_def int64_max_def)
qed

lemma wrap64_id [simp]: "in_int64 x \<Longrightarrow> wrap64 x = x"
  by (simp add: wrap64_def in_int64_def int64_min_def int64_max_def)

lemma wrap64_signed_word: "wrap64 x = sint (word_of_int x :: 64 word)"
  by (simp add: wrap64_def sint_sbintrunc' signed_take_bit_eq_take_bit_shift take_bit_eq_mod)

lemma wrap64_Suc: "x < int64_max \<Longrightarrow> in_int64 x \<Longrightarrow> wrap64 (x + 1) = x + 1"
  by (rule wrap64_id) (simp add: in_int64_def int64_min_def int64_max_def)

lemma int64_numerals: "in_int64 x \<longleftrightarrow> - 9223372036854775808 \<le> x \<and> x \<le> 9223372036854775807"
  by (simp add: in_int64_def int64_min_def int64_max_def)

lemma wrap64_max_overflows: "wrap64 (int64_max + 1) = int64_min"
  by (simp add: wrap64_def int64_max_def int64_min_def)

lemma in_int64_diff_nonneg:
  "in_int64 x \<Longrightarrow> in_int64 y \<Longrightarrow> 0 \<le> y \<Longrightarrow> 0 \<le> x \<Longrightarrow> wrap64 (x - y) = x - y"
  by (rule wrap64_id) (simp add: in_int64_def int64_min_def int64_max_def)

section \<open>Formatting: decimal and hexadecimal\<close>

definition digit_char :: "nat \<Rightarrow> char" where
  "digit_char d = char_of (48 + d)"

fun fmt_nat :: "nat \<Rightarrow> string" where
  "fmt_nat n = (if n < 10 then [digit_char n] else fmt_nat (n div 10) @ [digit_char (n mod 10)])"

declare fmt_nat.simps [simp del]

text \<open>\<^verbatim>\<open>%d\<close> of an \<^verbatim>\<open>int\<close>.\<close>

definition fmt_d :: "int \<Rightarrow> string" where
  "fmt_d i = (if i < 0 then ''-'' @ fmt_nat (nat (- i)) else fmt_nat (nat i))"

fun read_nat :: "nat \<Rightarrow> string \<Rightarrow> nat" where
  "read_nat acc [] = acc"
| "read_nat acc (c # cs) = read_nat (10 * acc + (of_char c - 48)) cs"

lemma read_nat_snoc: "read_nat acc (s @ [c]) = 10 * read_nat acc s + (of_char c - 48)"
  by (induction s arbitrary: acc) auto

lemma of_char_digit: "d < 10 \<Longrightarrow> of_char (digit_char d) = 48 + d"
  by (simp add: digit_char_def)

lemma read_fmt_nat: "read_nat 0 (fmt_nat n) = n"
proof (induction n rule: fmt_nat.induct)
  case (1 n)
  show ?case
  proof (cases "n < 10")
    case True
    then show ?thesis by (subst fmt_nat.simps) (simp add: of_char_digit)
  next
    case False
    with "1.IH" have "read_nat 0 (fmt_nat (n div 10)) = n div 10" by simp
    with False show ?thesis
      by (subst fmt_nat.simps) (simp add: read_nat_snoc of_char_digit)
  qed
qed

lemma fmt_nat_inject [simp]: "fmt_nat m = fmt_nat n \<longleftrightarrow> m = n"
  by (metis read_fmt_nat)

lemma fmt_nat_no_sign: "c \<in> set (fmt_nat n) \<Longrightarrow> c \<noteq> CHR ''-''"
proof (induction n rule: fmt_nat.induct)
  case (1 n)
  have digit: "digit_char d \<noteq> CHR ''-''" if "d < 10" for d
  proof
    assume "digit_char d = CHR ''-''"
    then have "48 + d = of_char (CHR ''-'')" using of_char_digit [OF that] by simp
    then show False by simp
  qed
  show ?case
  proof (cases "n < 10")
    case True
    with "1.prems" digit show ?thesis by (subst (asm) fmt_nat.simps) simp
  next
    case False
    with "1.prems" have "c \<in> set (fmt_nat (n div 10)) \<or> c = digit_char (n mod 10)"
      by (subst (asm) fmt_nat.simps) auto
    with False "1.IH" digit [of "n mod 10"] show ?thesis by auto
  qed
qed

lemma fmt_nat_nonempty [simp]: "fmt_nat n \<noteq> []"
  by (subst fmt_nat.simps) simp

lemma fmt_d_inject [simp]: "fmt_d i = fmt_d j \<longleftrightarrow> i = j"
proof
  assume eq: "fmt_d i = fmt_d j"
  have sign: "CHR ''-'' # s \<noteq> fmt_nat n" for s n
    using fmt_nat_no_sign by (metis list.set_intros(1))
  show "i = j"
    using eq sign sign [symmetric]
    by (auto simp: fmt_d_def split: if_splits)
qed simp

definition hex_digit :: "nat \<Rightarrow> char" where
  "hex_digit n = ''0123456789abcdef'' ! n"

text \<open>\<^verbatim>\<open>%x\<close> of a byte slice, and \<^verbatim>\<open>hex.EncodeToString\<close>.\<close>

definition fmt_x :: "bytes \<Rightarrow> string" where
  "fmt_x bs = concat (map (\<lambda>c. [hex_digit (of_char c div 16), hex_digit (of_char c mod 16)]) bs)"

lemma length_fmt_x [simp]: "length (fmt_x bs) = 2 * length bs"
  by (induction bs) (simp_all add: fmt_x_def)

lemma hex_digit_inj: "m < 16 \<Longrightarrow> n < 16 \<Longrightarrow> hex_digit m = hex_digit n \<longleftrightarrow> m = n"
proof -
  have "distinct ''0123456789abcdef''" by simp
  moreover have "length ''0123456789abcdef'' = 16" by simp
  ultimately show "m < 16 \<Longrightarrow> n < 16 \<Longrightarrow> hex_digit m = hex_digit n \<longleftrightarrow> m = n"
    unfolding hex_digit_def by (metis nth_eq_iff_index_eq)
qed

lemma fmt_x_inject [simp]: "fmt_x a = fmt_x b \<longleftrightarrow> a = b"
proof (induction a arbitrary: b)
  case Nil
  show ?case by (cases b) (simp_all add: fmt_x_def)
next
  case (Cons c a)
  show ?case
  proof (cases b)
    case Nil
    then show ?thesis by (simp add: fmt_x_def)
  next
    case (Cons d b')
    have lt: "of_char x < (256 :: nat)" for x :: char
      by (rule nat_of_char_less_256)
    have "(of_char c :: nat) = of_char d"
      if "hex_digit (of_char c div 16) = hex_digit (of_char d div 16)"
        and "hex_digit (of_char c mod 16) = hex_digit (of_char d mod 16)"
    proof -
      have "(of_char c :: nat) div 16 = of_char d div 16" "(of_char c :: nat) mod 16 = of_char d mod 16"
        using that lt [of c] lt [of d] hex_digit_inj by (simp_all add: div_less_iff_less_mult)
      then show ?thesis by (metis div_mult_mod_eq)
    qed
    then show ?thesis
      using Cons.IH [of b'] Cons by (auto simp: fmt_x_def)
  qed
qed

section \<open>Substrings\<close>

definition has_prefix :: "string \<Rightarrow> string \<Rightarrow> bool" where
  "has_prefix s p \<longleftrightarrow> take (length p) s = p"

fun contains :: "string \<Rightarrow> string \<Rightarrow> bool" where
  "contains [] p = (p = [])"
| "contains (c # s) p = (has_prefix (c # s) p \<or> contains s p)"

declare contains.simps [simp del]

section \<open>Buffered channels\<close>

record 'a chan =
  chan_cap :: nat
  chan_buf :: "'a list"

definition make_chan :: "nat \<Rightarrow> 'a chan" where
  "make_chan n = \<lparr>chan_cap = n, chan_buf = []\<rparr>"

text \<open>\<^verbatim>\<open>select { case ch <- x: default: }\<close>: the value is dropped when the buffer is full.\<close>

definition try_send :: "'a chan \<Rightarrow> 'a \<Rightarrow> 'a chan" where
  "try_send ch x = (if length (chan_buf ch) < chan_cap ch then ch\<lparr>chan_buf := chan_buf ch @ [x]\<rparr> else ch)"

text \<open>\<^verbatim>\<open>ch <- x\<close> waits for room: \<open>None\<close> is waiting.\<close>

definition send :: "'a chan \<Rightarrow> 'a \<Rightarrow> 'a chan option" where
  "send ch x = (if length (chan_buf ch) < chan_cap ch then Some (ch\<lparr>chan_buf := chan_buf ch @ [x]\<rparr>) else None)"

lemma send_Some: "send ch x = Some ch' \<Longrightarrow> chan_buf ch' = chan_buf ch @ [x] \<and> chan_cap ch' = chan_cap ch"
  by (auto simp: send_def split: if_splits)

definition recv :: "'a chan \<Rightarrow> ('a \<times> 'a chan) option" where
  "recv ch = (case chan_buf ch of [] \<Rightarrow> None | x # xs \<Rightarrow> Some (x, ch\<lparr>chan_buf := xs\<rparr>))"

definition chan_ok :: "'a chan \<Rightarrow> bool" where
  "chan_ok ch \<longleftrightarrow> length (chan_buf ch) \<le> chan_cap ch"

lemma chan_cap_make_chan [simp]: "chan_cap (make_chan n) = n"
  and chan_buf_make_chan [simp]: "chan_buf (make_chan n) = []"
  by (simp_all add: make_chan_def)

lemma chan_ok_make_chan [simp]: "chan_ok (make_chan n)"
  by (simp add: chan_ok_def make_chan_def)

lemma chan_ok_try_send [simp]: "chan_ok ch \<Longrightarrow> chan_ok (try_send ch x)"
  by (simp add: chan_ok_def try_send_def)

lemma chan_cap_try_send [simp]: "chan_cap (try_send ch x) = chan_cap ch"
  by (simp add: try_send_def)

lemma chan_ok_recv: "chan_ok ch \<Longrightarrow> recv ch = Some (x, ch') \<Longrightarrow> chan_ok ch'"
  by (auto simp: chan_ok_def recv_def split: list.splits)

lemma chan_cap_recv: "recv ch = Some (x, ch') \<Longrightarrow> chan_cap ch' = chan_cap ch"
  by (auto simp: recv_def split: list.splits)

section \<open>Iterating over maps\<close>

definition iter_order :: "(string \<rightharpoonup> 'v) \<Rightarrow> string list \<Rightarrow> bool" where
  "iter_order m ord \<longleftrightarrow> distinct ord \<and> set ord = dom m"

text \<open>A read \<^verbatim>\<open>m[k]\<close> of a missing key yields the zero value of the element type.\<close>

definition index_or :: "'v \<Rightarrow> ('k \<rightharpoonup> 'v) \<Rightarrow> 'k \<Rightarrow> 'v" where
  "index_or z m k = (case m k of None \<Rightarrow> z | Some v \<Rightarrow> v)"

lemma index_or_Some [simp]: "m k = Some v \<Longrightarrow> index_or z m k = v"
  and index_or_None [simp]: "m k = None \<Longrightarrow> index_or z m k = z"
  by (simp_all add: index_or_def)

lemma sort_iter_order_unique:
  "iter_order m xs \<Longrightarrow> iter_order m' ys \<Longrightarrow> dom m = dom m' \<Longrightarrow> sort xs = sort ys"
  unfolding iter_order_def by (metis distinct_sort set_sort sorted_distinct_set_unique sorted_sort)

text \<open>Sorting removes the freedom: the result is a function of the key set.\<close>

lemma sort_iter_order: "iter_order m ord \<Longrightarrow> sort ord = sorted_list_of_set (dom m)"
  unfolding iter_order_def
  by (metis distinct_remdups_id sorted_list_of_set_sort_remdups)

lemma iter_order_sort: "iter_order m ord \<Longrightarrow> iter_order m (sort ord)"
  by (simp add: iter_order_def)

lemma iter_order_exists: "finite (dom m) \<Longrightarrow> \<exists>ord. iter_order m ord"
  unfolding iter_order_def by (metis finite_distinct_list)

section \<open>Nested maps\<close>

text \<open>
  A map of maps is hashed the same way by two applications: for each outer key the key itself,
  then each inner key followed by its value.
\<close>

type_synonym nested_map = "string \<rightharpoonup> (string \<rightharpoonup> string)"

type_synonym nested_order = "string list \<times> (string \<Rightarrow> string list)"

definition nested_pieces :: "nested_map \<Rightarrow> string list \<Rightarrow> (string \<Rightarrow> string list) \<Rightarrow> bytes list" where
  "nested_pieces m outer inner =
     concat (map (\<lambda>n. n # concat (map (\<lambda>k. [k, index_or [] (index_or Map.empty m n) k]) (inner n))) outer)"

definition nested_iter_order :: "nested_map \<Rightarrow> nested_order \<Rightarrow> bool" where
  "nested_iter_order m ord \<longleftrightarrow>
     iter_order m (fst ord) \<and> (\<forall>n sub. m n = Some sub \<longrightarrow> iter_order sub (snd ord n))"

definition nested_keys :: "nested_map \<Rightarrow> string \<Rightarrow> string list" where
  "nested_keys m n = sorted_list_of_set (dom (index_or Map.empty m n))"

lemma nested_pieces_cong:
  assumes "\<And>n. n \<in> set outer \<Longrightarrow> inner n = inner' n"
  shows "nested_pieces m outer inner = nested_pieces m outer inner'"
  unfolding nested_pieces_def
  by (rule arg_cong [where f = concat], rule map_cong) (simp_all only: assms)

lemma nested_pieces_sorted:
  assumes "nested_iter_order m ord"
  shows "nested_pieces m (sort (fst ord)) (\<lambda>n. sort (snd ord n))
       = nested_pieces m (sorted_list_of_set (dom m)) (nested_keys m)"
proof -
  have outer: "sort (fst ord) = sorted_list_of_set (dom m)" and keys: "set (fst ord) = dom m"
    using assms by (auto simp: nested_iter_order_def sort_iter_order iter_order_def)
  have "sort (snd ord n) = nested_keys m n" if "n \<in> set (sort (fst ord))" for n
  proof -
    from that keys obtain sub where sub: "m n = Some sub" by auto
    with assms have "iter_order sub (snd ord n)" by (simp add: nested_iter_order_def)
    with sub show ?thesis by (simp add: nested_keys_def sort_iter_order)
  qed
  then show ?thesis unfolding outer by (rule nested_pieces_cong) (simp only: outer)
qed

text \<open>The flat view of a nested map: what a lookup with both keys finds.\<close>

definition flat :: "nested_map \<Rightarrow> (string \<times> string \<rightharpoonup> string)" where
  "flat m = (\<lambda>(n, k). case m n of None \<Rightarrow> None | Some sub \<Rightarrow> sub k)"

lemma flat_inner_put: "flat (m(n \<mapsto> (index_or Map.empty m n)(k \<mapsto> v))) = (flat m)((n, k) \<mapsto> v)"
  by (auto simp: flat_def fun_eq_iff index_or_def split: option.splits)

lemma flat_inner_del: "flat (m(n \<mapsto> (index_or Map.empty m n)(k := None))) = (flat m)((n, k) := None)"
  by (auto simp: flat_def fun_eq_iff index_or_def split: option.splits)

lemma flat_new_outer: "m n = None \<Longrightarrow> flat (m(n \<mapsto> Map.empty)) = flat m"
  by (auto simp: flat_def fun_eq_iff split: option.splits)

end
