(* ===== verification/Sha256.thy ===== *)
theory Sha256
  imports Prelude
begin

text \<open>
  The standard library's \<^verbatim>\<open>crypto/sha256\<close>, as FIPS 180-4 specifies it: every state root,
  block hash, Merkle node, payload anchor and Kademlia distance of the runtime is computed
  with it. It is a concrete function on bytes, so no property rests on an abstract hash;
  where a property would need the absence of collisions it says so in its statement.
  A hasher that is written to in pieces (\<^verbatim>\<open>h.Write\<close>) digests the concatenation of the pieces.
\<close>

unbundle bit_operations_syntax

type_synonym w32 = "32 word"

section \<open>Round functions and constants\<close>

definition rotr32 :: "nat \<Rightarrow> w32 \<Rightarrow> w32" where
  "rotr32 n x = drop_bit n x OR push_bit (32 - n) x"

definition big_sigma0 :: "w32 \<Rightarrow> w32" where
  "big_sigma0 x = rotr32 2 x XOR rotr32 13 x XOR rotr32 22 x"

definition big_sigma1 :: "w32 \<Rightarrow> w32" where
  "big_sigma1 x = rotr32 6 x XOR rotr32 11 x XOR rotr32 25 x"

definition small_sigma0 :: "w32 \<Rightarrow> w32" where
  "small_sigma0 x = rotr32 7 x XOR rotr32 18 x XOR drop_bit 3 x"

definition small_sigma1 :: "w32 \<Rightarrow> w32" where
  "small_sigma1 x = rotr32 17 x XOR rotr32 19 x XOR drop_bit 10 x"

definition choose32 :: "w32 \<Rightarrow> w32 \<Rightarrow> w32 \<Rightarrow> w32" where
  "choose32 x y z = (x AND y) XOR (NOT x AND z)"

definition majority32 :: "w32 \<Rightarrow> w32 \<Rightarrow> w32 \<Rightarrow> w32" where
  "majority32 x y z = (x AND y) XOR (x AND z) XOR (y AND z)"

text \<open>
  The constants are the first 32 bits of the fractional parts of the cube roots (round constants)
  and the square roots (initial hash) of the first primes. The integer \<open>e\<close>-th root is found bit
  by bit; the root of \<open>p * 2 ^ (32 * e)\<close>, cut to 32 bits, is the fractional part.
\<close>

fun root_bits :: "nat \<Rightarrow> int \<Rightarrow> nat \<Rightarrow> int \<Rightarrow> int" where
  "root_bits e n 0 r = r"
| "root_bits e n (Suc k) r = root_bits e n k (if (r + 2 ^ k) ^ e \<le> n then r + 2 ^ k else r)"

definition root_fraction :: "nat \<Rightarrow> int \<Rightarrow> w32" where
  "root_fraction e p = of_int (root_bits e (p * 2 ^ (32 * e)) 36 0)"

definition round_constants :: "w32 list" where
  "round_constants = map (root_fraction 3)
     (filter (\<lambda>n. list_all (\<lambda>d. n mod d \<noteq> 0) [2..n - 1]) [2..311])"

definition initial_hash :: "w32 list" where
  "initial_hash = map (root_fraction 2) [2, 3, 5, 7, 11, 13, 17, 19]"

section \<open>Compression\<close>

text \<open>
  One round consumes the first word of a sixteen-word window of the message schedule and
  appends the word the schedule derives from the window.
\<close>

fun sha_round :: "w32 \<Rightarrow> w32 list \<times> w32 list \<Rightarrow> w32 list \<times> w32 list" where
  "sha_round k ([w0, w1, w2, w3, w4, w5, w6, w7, w8, w9, w10, w11, w12, w13, w14, w15],
                [a, b, c, d, e, f, g, h]) =
    (let t1 = h + big_sigma1 e + choose32 e f g + k + w0;
         t2 = big_sigma0 a + majority32 a b c
     in ([w1, w2, w3, w4, w5, w6, w7, w8, w9, w10, w11, w12, w13, w14, w15,
          small_sigma1 w14 + w9 + small_sigma0 w1 + w0],
         [t1 + t2, a, b, c, d + t1, e, f, g]))"
| "sha_round k (ws, vs) = (ws, vs)"

definition sha_block :: "w32 list \<Rightarrow> w32 list \<Rightarrow> w32 list" where
  "sha_block hs ws = map2 (+) hs (snd (fold sha_round round_constants (ws, hs)))"

fun sha_blocks :: "nat \<Rightarrow> w32 list \<Rightarrow> w32 list \<Rightarrow> w32 list" where
  "sha_blocks 0 hs ws = hs"
| "sha_blocks (Suc n) hs ws = sha_blocks n (sha_block hs (take 16 ws)) (drop 16 ws)"

section \<open>Padding and the digest\<close>

fun be_words :: "bytes \<Rightarrow> w32 list" where
  "be_words (a # b # c # d # r) =
     (((of_char a * 256 + of_char b) * 256 + of_char c) * 256 + of_char d) # be_words r"
| "be_words _ = []"

fun be_bytes :: "nat \<Rightarrow> int \<Rightarrow> bytes" where
  "be_bytes 0 n = []"
| "be_bytes (Suc k) n = be_bytes k (n div 256) @ [char_of (n mod 256)]"

definition sha_pad :: "bytes \<Rightarrow> bytes" where
  "sha_pad m = m @ [char_of (128 :: nat)]
     @ replicate ((119 - length m mod 64) mod 64) (char_of (0 :: nat))
     @ be_bytes 8 (8 * int (length m))"

definition sha256 :: "bytes \<Rightarrow> bytes" where
  "sha256 m = (let ws = be_words (sha_pad m)
     in concat (map (\<lambda>w. be_bytes 4 (uint w)) (sha_blocks (length ws div 16) initial_hash ws)))"

section \<open>Lengths\<close>

lemma length_be_bytes [simp]: "length (be_bytes k n) = k"
  by (induction k arbitrary: n) simp_all

lemma length_sha_round [simp]: "length (snd (sha_round k p)) = length (snd p)"
  by (cases "(k, p)" rule: sha_round.cases) (simp_all add: Let_def)

lemma length_sha_rounds [simp]: "length (snd (fold sha_round ks p)) = length (snd p)"
  by (induction ks arbitrary: p) simp_all

lemma length_sha_blocks: "length (sha_blocks n hs ws) = length hs"
  by (induction n arbitrary: hs ws) (simp_all add: sha_block_def)

lemma length_concat_const: "(\<And>x. length (f x) = n) \<Longrightarrow> length (concat (map f xs)) = n * length xs"
  by (induction xs) auto

lemma length_sha256 [simp]: "length (sha256 m) = 32"
proof -
  have "length (sha_blocks n initial_hash ws) = 8" for n ws
    by (simp add: length_sha_blocks initial_hash_def)
  then show ?thesis
    by (simp add: sha256_def Let_def length_concat_const [where n = 4])
qed

lemma sha256_nonempty [simp]: "sha256 m \<noteq> []"
  using length_sha256 [of m] by force

text \<open>The padded message is a whole number of 64-byte blocks, so no byte is left out.\<close>

lemma sha_pad_blocks: "length (sha_pad m) mod 64 = 0"
proof -
  have "(n + 9 + (119 - n mod 64) mod 64) mod 64 = 0" for n :: nat
  proof -
    have "(n + 9 + (119 - n mod 64) mod 64) mod 64 = (n mod 64 + 9 + (119 - n mod 64)) mod 64"
      by (metis add.assoc mod_add_left_eq mod_add_right_eq)
    also have "n mod 64 + 9 + (119 - n mod 64) = 128"
      using mod_less_divisor [of 64 n] by linarith
    finally show ?thesis by simp
  qed
  from this [of "length m"] show ?thesis by (simp add: sha_pad_def add.assoc add.commute add.left_commute)
qed

text \<open>\<^verbatim>\<open>fmt.Sprintf("%x", h.Sum(nil))\<close> after writing the given pieces.\<close>

definition sha_hex :: "bytes list \<Rightarrow> string" where
  "sha_hex pieces = fmt_x (sha256 (concat pieces))"

lemma length_sha_hex [simp]: "length (sha_hex ps) = 64"
  by (simp add: sha_hex_def)

text \<open>What a state root looks like: the 64 lower-case digits of a digest.\<close>

definition hex_chars :: "char set" where
  "hex_chars = set ''0123456789abcdef''"

definition hex_root :: "string \<Rightarrow> bool" where
  "hex_root s \<longleftrightarrow> length s = 64 \<and> set s \<subseteq> hex_chars"

lemma hex_digit_in: "n < 16 \<Longrightarrow> hex_digit n \<in> hex_chars"
  unfolding hex_digit_def hex_chars_def by (rule nth_mem) simp

lemma fmt_x_chars: "set (fmt_x bs) \<subseteq> hex_chars"
proof -
  have "hex_digit (of_char c div 16) \<in> hex_chars" "hex_digit (of_char c mod 16) \<in> hex_chars" for c :: char
    using nat_of_char_less_256 [of c] by (intro hex_digit_in; simp add: div_less_iff_less_mult)+
  then show ?thesis by (auto simp: fmt_x_def)
qed

lemma hex_root_sha_hex [simp]: "hex_root (sha_hex ps)"
  using fmt_x_chars by (simp add: hex_root_def sha_hex_def)

lemma sha_hex_nonempty [simp]: "sha_hex ps \<noteq> []"
  using length_sha_hex [of ps] by force

lemma sha_hex_eq_iff: "sha_hex ps = sha_hex qs \<longleftrightarrow> sha256 (concat ps) = sha256 (concat qs)"
  by (simp add: sha_hex_def)

lemma sha_hex_concat_cong: "concat ps = concat qs \<Longrightarrow> sha_hex ps = sha_hex qs"
  by (simp add: sha_hex_def)

end
