(* ===== verification/Storage.thy ===== *)
theory Storage
  imports Prelude
begin

text \<open>
  The \<^verbatim>\<open>Storage\<close> interface of \<^verbatim>\<open>core/interfaces\<close>, its in-memory implementation
  \<^verbatim>\<open>modules/storage/memory.go\<close> and the adapter \<^verbatim>\<open>modules/storage/pebble.go\<close> around the
  third-party Pebble database. The locale \<open>key_value_store\<close> is the contract the applications
  and the consensus engine rely on; the in-memory store interprets it, and the adapter meets it
  for every database whose own operations behave as Pebble documents.
\<close>

section \<open>The interface\<close>

text \<open>An interface value is the record of its methods; mutation returns the new state.\<close>

record 'st storage_api =
  api_put :: "'st \<Rightarrow> bytes \<Rightarrow> bytes \<Rightarrow> 'st \<times> go_error option"
  api_get :: "'st \<Rightarrow> bytes \<Rightarrow> bytes result"
  api_delete :: "'st \<Rightarrow> bytes \<Rightarrow> 'st \<times> go_error option"
  api_close :: "'st \<Rightarrow> 'st \<times> go_error option"

text \<open>What a client can observe: the partial map that \<^verbatim>\<open>Get\<close> computes.\<close>

definition stored :: "'st storage_api \<Rightarrow> 'st \<Rightarrow> (bytes \<rightharpoonup> bytes)" where
  "stored api s = (\<lambda>k. case api_get api s k of Inl _ \<Rightarrow> None | Inr v \<Rightarrow> Some v)"

lemma stored_eq_Some: "stored api s k = Some v \<longleftrightarrow> api_get api s k = Inr v"
  by (simp add: stored_def split: sum.splits)

lemma stored_eq_None: "stored api s k = None \<longleftrightarrow> (\<exists>e. api_get api s k = Inl e)"
  by (simp add: stored_def split: sum.splits)

locale key_value_store =
  fixes api :: "'st storage_api"
  assumes put_ok: "api_put api s k v = (s', None) \<Longrightarrow> stored api s' = (stored api s)(k \<mapsto> v)"
    and delete_ok: "api_delete api s k = (s', None) \<Longrightarrow> stored api s' = (stored api s)(k := None)"
begin

lemma get_after_put: "api_put api s k v = (s', None) \<Longrightarrow> api_get api s' k = Inr v"
  by (drule put_ok) (simp flip: stored_eq_Some)

lemma get_other_after_put:
  "api_put api s k v = (s', None) \<Longrightarrow> k' \<noteq> k \<Longrightarrow> stored api s' k' = stored api s k'"
  by (drule put_ok) simp

lemma overwrite:
  assumes "api_put api s k v = (s1, None)" and "api_put api s1 k w = (s2, None)"
  shows "stored api s2 = (stored api s)(k \<mapsto> w)"
  using put_ok [OF assms(1)] put_ok [OF assms(2)] by simp

end

section \<open>MemoryStorage\<close>

record memory_storage =
  mem_data :: "bytes \<rightharpoonup> bytes"

definition new_memory_storage :: memory_storage where
  "new_memory_storage = \<lparr>mem_data = Map.empty\<rparr>"

definition memory_put :: "memory_storage \<Rightarrow> bytes \<Rightarrow> bytes \<Rightarrow> memory_storage \<times> go_error option" where
  "memory_put m key val = (m\<lparr>mem_data := (mem_data m)(key \<mapsto> val)\<rparr>, None)"

definition memory_get :: "memory_storage \<Rightarrow> bytes \<Rightarrow> bytes result" where
  "memory_get m key = (case mem_data m key of
      None \<Rightarrow> Inl (NewError ''key not found in memory storage'')
    | Some val \<Rightarrow> Inr val)"

definition memory_delete :: "memory_storage \<Rightarrow> bytes \<Rightarrow> memory_storage \<times> go_error option" where
  "memory_delete m key = (m\<lparr>mem_data := (mem_data m)(key := None)\<rparr>, None)"

definition memory_close :: "memory_storage \<Rightarrow> memory_storage \<times> go_error option" where
  "memory_close m = (m\<lparr>mem_data := Map.empty\<rparr>, None)"

definition memory_api :: "memory_storage storage_api" where
  "memory_api = \<lparr>api_put = memory_put, api_get = memory_get,
                 api_delete = memory_delete, api_close = memory_close\<rparr>"

lemma memory_api_sel [simp]:
  "api_put memory_api = memory_put" "api_get memory_api = memory_get"
  "api_delete memory_api = memory_delete" "api_close memory_api = memory_close"
  by (simp_all add: memory_api_def)

lemma stored_memory [simp]: "stored memory_api m = mem_data m"
  by (rule ext) (simp add: stored_def memory_get_def split: option.splits)

interpretation mem: key_value_store memory_api
  by unfold_locales (auto simp: memory_put_def memory_delete_def)

lemma memory_put_never_fails [simp]: "snd (memory_put m k v) = None"
  and memory_delete_never_fails [simp]: "snd (memory_delete m k) = None"
  by (simp_all add: memory_put_def memory_delete_def)

lemma mem_data_put [simp]: "mem_data (fst (memory_put m k v)) = (mem_data m)(k \<mapsto> v)"
  and mem_data_delete [simp]: "mem_data (fst (memory_delete m k)) = (mem_data m)(k := None)"
  by (simp_all add: memory_put_def memory_delete_def)

section \<open>PebbleStorage\<close>

text \<open>
  The Pebble database is third-party code: its methods are the record \<open>pebble_db\<close>, and
  \<open>pebble_laws\<close> states what Pebble documents of them (a synced \<^verbatim>\<open>Set\<close> that returns nil is
  visible to \<^verbatim>\<open>Get\<close>, a synced \<^verbatim>\<open>Delete\<close> that returns nil makes \<^verbatim>\<open>Get\<close> return \<^verbatim>\<open>ErrNotFound\<close>, and
  other keys keep their values).
\<close>

record 'db pebble_db =
  db_set :: "'db \<Rightarrow> bytes \<Rightarrow> bytes \<Rightarrow> 'db \<times> go_error option"
  db_get :: "'db \<Rightarrow> bytes \<Rightarrow> bytes result"
  db_delete :: "'db \<Rightarrow> bytes \<Rightarrow> 'db \<times> go_error option"
  db_close :: "'db \<Rightarrow> 'db \<times> go_error option"

text \<open>Opening: \<open>mkdir_all\<close> and \<open>open_db\<close> are what the operating system and the database answer for a directory.\<close>

definition new_pebble_storage :: "(string \<Rightarrow> go_error option) \<Rightarrow> (string \<Rightarrow> 'db result) \<Rightarrow> string \<Rightarrow> 'db result" where
  "new_pebble_storage mkdir_all open_db dir_path = (case mkdir_all dir_path of
      Some err \<Rightarrow> Inl (WrapError ''failed to create storage directory: '' err)
    | None \<Rightarrow> (case open_db dir_path of
          Inl err \<Rightarrow> Inl (WrapError ''failed to open pebble db: '' err)
        | Inr db \<Rightarrow> Inr db))"

definition pebble_put :: "'db pebble_db \<Rightarrow> 'db \<Rightarrow> bytes \<Rightarrow> bytes \<Rightarrow> 'db \<times> go_error option" where
  "pebble_put db p key val = db_set db p key val"

text \<open>\<^verbatim>\<open>copy(buf, val)\<close> into a buffer of \<^verbatim>\<open>len(val)\<close> bytes.\<close>

definition go_copy :: "bytes \<Rightarrow> bytes \<Rightarrow> bytes" where
  "go_copy dst src = take (length dst) src @ drop (length src) dst"

definition pebble_get :: "'db pebble_db \<Rightarrow> 'db \<Rightarrow> bytes \<Rightarrow> bytes result" where
  "pebble_get db p key = (case db_get db p key of
      Inl err \<Rightarrow> Inl err
    | Inr val \<Rightarrow> Inr (go_copy (replicate (length val) (char_of (0 :: nat))) val))"

definition pebble_delete :: "'db pebble_db \<Rightarrow> 'db \<Rightarrow> bytes \<Rightarrow> 'db \<times> go_error option" where
  "pebble_delete db p key = db_delete db p key"

definition pebble_close :: "'db pebble_db \<Rightarrow> 'db \<Rightarrow> 'db \<times> go_error option" where
  "pebble_close db p = db_close db p"

definition pebble_api :: "'db pebble_db \<Rightarrow> 'db storage_api" where
  "pebble_api db = \<lparr>api_put = pebble_put db, api_get = pebble_get db,
                    api_delete = pebble_delete db, api_close = pebble_close db\<rparr>"

definition pebble_laws :: "'db pebble_db \<Rightarrow> bool" where
  "pebble_laws db \<longleftrightarrow>
     (\<forall>p k v p'. db_set db p k v = (p', None) \<longrightarrow>
        db_get db p' k = Inr v \<and> (\<forall>k'. k' \<noteq> k \<longrightarrow> db_get db p' k' = db_get db p k')) \<and>
     (\<forall>p k p'. db_delete db p k = (p', None) \<longrightarrow>
        db_get db p' k = Inl (NewError ''pebble: not found'') \<and>
        (\<forall>k'. k' \<noteq> k \<longrightarrow> db_get db p' k' = db_get db p k'))"

lemma pebble_get_copies [simp]: "pebble_get db p k = db_get db p k"
  by (simp add: pebble_get_def go_copy_def split: sum.splits)

lemma stored_pebble: "stored (pebble_api db) p k = (case db_get db p k of Inl _ \<Rightarrow> None | Inr v \<Rightarrow> Some v)"
  by (simp add: stored_def pebble_api_def)

text \<open>
  the Pebble adapter is a key-value store: with a database that behaves as Pebble
  documents, what \<^verbatim>\<open>Put\<close> stored is what \<^verbatim>\<open>Get\<close> returns, \<^verbatim>\<open>Delete\<close> removes exactly its key, and
  the copy \<^verbatim>\<open>Get\<close> makes of the value has the value's bytes.
\<close>

theorem pebble_adapter_is_store:
  assumes "pebble_laws db"
  shows "key_value_store (pebble_api db)"
proof
  fix s k v s'
  assume "api_put (pebble_api db) s k v = (s', None)"
  then have "db_set db s k v = (s', None)" by (simp add: pebble_api_def pebble_put_def)
  with assms show "stored (pebble_api db) s' = (stored (pebble_api db) s)(k \<mapsto> v)"
    by (auto simp: pebble_laws_def stored_pebble fun_eq_iff)
next
  fix s k s'
  assume "api_delete (pebble_api db) s k = (s', None)"
  then have "db_delete db s k = (s', None)" by (simp add: pebble_api_def pebble_delete_def)
  with assms show "stored (pebble_api db) s' = (stored (pebble_api db) s)(k := None)"
    by (auto simp: pebble_laws_def stored_pebble fun_eq_iff)
qed

text \<open>A concrete database with the documented behaviour: a map with Pebble's not-found error.\<close>

definition map_db :: "(bytes \<rightharpoonup> bytes) pebble_db" where
  "map_db = \<lparr>db_set = (\<lambda>m k v. (m(k \<mapsto> v), None)),
             db_get = (\<lambda>m k. case m k of None \<Rightarrow> Inl (NewError ''pebble: not found'') | Some v \<Rightarrow> Inr v),
             db_delete = (\<lambda>m k. (m(k := None), None)), db_close = (\<lambda>m. (m, None))\<rparr>"

theorem pebble_adapter_is_store_witness: "key_value_store (pebble_api map_db)"
  by (rule pebble_adapter_is_store) (simp add: pebble_laws_def map_db_def)

end
