(* ===== verification/StateMachine.thy ===== *)
theory StateMachine
  imports Prelude
begin

text \<open>
  The \<^verbatim>\<open>StateMachine\<close> interface of \<^verbatim>\<open>core/interfaces\<close>: consensus hands each committed byte
  sequence to \<^verbatim>\<open>Apply\<close>, which returns the new state root or an error, and \<^verbatim>\<open>GetStateRoot\<close> reads
  the root. What a call depends on besides its state and its argument (the order in which Go
  ranges over a map, the clock) is the environment, the first argument of \<open>apply_log\<close>.

  The locale \<open>state_machine\<close> is the contract between \<^verbatim>\<open>Apply\<close> and \<^verbatim>\<open>GetStateRoot\<close> that the
  callers rely on. \<open>deterministic_machine\<close> adds what replication needs: the environment has no
  influence. Its two results are what the runtime and the replay engine are for: replicas that
  apply the same commits agree, and a recorded log replays to its recorded roots.
\<close>

section \<open>Feeding a machine with commits\<close>

text \<open>
  The runtime's event loop applies each commit and discards the error
  (\<^verbatim>\<open>root, _ := r.stateMachine.Apply(data)\<close>): a failed commit is skipped.
\<close>

fun run_commits :: "('e \<Rightarrow> 's \<Rightarrow> bytes \<Rightarrow> 's \<times> bytes result) \<Rightarrow> 's \<Rightarrow> ('e \<times> bytes) list \<Rightarrow> 's" where
  "run_commits apply_log s [] = s"
| "run_commits apply_log s ((e, c) # cs) = run_commits apply_log (fst (apply_log e s c)) cs"

text \<open>The environments of a run are legal for the calls they are used in.\<close>

fun legal_run :: "('e \<Rightarrow> 's \<Rightarrow> bytes \<Rightarrow> bool) \<Rightarrow> ('e \<Rightarrow> 's \<Rightarrow> bytes \<Rightarrow> 's \<times> bytes result)
    \<Rightarrow> 's \<Rightarrow> ('e \<times> bytes) list \<Rightarrow> bool" where
  "legal_run env_ok apply_log s [] = True"
| "legal_run env_ok apply_log s ((e, c) # cs) =
     (env_ok e s c \<and> legal_run env_ok apply_log (fst (apply_log e s c)) cs)"

lemma run_commits_append:
  "run_commits ap s (xs @ ys) = run_commits ap (run_commits ap s xs) ys"
  by (induction xs arbitrary: s) auto

lemma legal_run_append:
  "legal_run ok ap s (xs @ ys) \<longleftrightarrow> legal_run ok ap s xs \<and> legal_run ok ap (run_commits ap s xs) ys"
  by (induction xs arbitrary: s) auto

section \<open>The contract\<close>

locale state_machine =
  fixes apply_log :: "'e \<Rightarrow> 's \<Rightarrow> bytes \<Rightarrow> 's \<times> bytes result"
    and state_root :: "'s \<Rightarrow> bytes"
  assumes apply_root: "apply_log e s c = (s', Inr r) \<Longrightarrow> state_root s' = r"
    and apply_error_root: "apply_log e s c = (s', Inl x) \<Longrightarrow> state_root s' = state_root s"
begin

lemma root_after_apply:
  "state_root (fst (apply_log e s c)) =
     (case snd (apply_log e s c) of Inl _ \<Rightarrow> state_root s | Inr r \<Rightarrow> r)"
proof (cases "apply_log e s c")
  case (Pair s' res)
  show ?thesis
  proof (cases res)
    case (Inl x)
    with Pair have "state_root s' = state_root s" using apply_error_root [of e s c s' x] by simp
    with Pair Inl show ?thesis by simp
  next
    case (Inr r)
    with Pair have "state_root s' = r" using apply_root [of e s c s' r] by simp
    with Pair Inr show ?thesis by simp
  qed
qed

text \<open>The root after a run is the last root that \<^verbatim>\<open>Apply\<close> returned.\<close>

lemma root_after_run:
  "state_root (run_commits apply_log s (cs @ [(e, c)])) =
     (case snd (apply_log e (run_commits apply_log s cs) c) of
        Inl _ \<Rightarrow> state_root (run_commits apply_log s cs) | Inr r \<Rightarrow> r)"
  by (simp add: run_commits_append root_after_apply)

end

locale deterministic_machine = state_machine apply_log state_root
  for apply_log :: "'e \<Rightarrow> 's \<Rightarrow> bytes \<Rightarrow> 's \<times> bytes result" and state_root :: "'s \<Rightarrow> bytes" +
  fixes env_ok :: "'e \<Rightarrow> 's \<Rightarrow> bytes \<Rightarrow> bool"
  assumes env_irrelevant: "env_ok e s c \<Longrightarrow> env_ok e' s c \<Longrightarrow> apply_log e s c = apply_log e' s c"
begin

lemma replicas_agree:
  "map snd xs = map snd ys \<Longrightarrow> legal_run env_ok apply_log s xs \<Longrightarrow> legal_run env_ok apply_log s ys \<Longrightarrow>
   run_commits apply_log s xs = run_commits apply_log s ys"
proof (induction xs arbitrary: s ys)
  case Nil
  then show ?case by simp
next
  case (Cons x xs)
  obtain e c where x: "x = (e, c)" by (cases x)
  with Cons.prems(1) obtain e' ys' where ys: "ys = (e', c) # ys'" and tl: "map snd xs = map snd ys'"
    by (cases ys) auto
  from Cons.prems x ys have ok: "env_ok e s c" "env_ok e' s c" by simp_all
  then have same: "apply_log e s c = apply_log e' s c" by (rule env_irrelevant)
  let ?s = "fst (apply_log e' s c)"
  from Cons.prems x ys have "legal_run env_ok apply_log ?s xs" "legal_run env_ok apply_log ?s ys'"
    by (simp_all add: same)
  with tl have "run_commits apply_log ?s xs = run_commits apply_log ?s ys'" by (rule Cons.IH)
  with x ys show ?case by (simp add: same)
qed

lemma replica_roots_agree:
  "map snd xs = map snd ys \<Longrightarrow> legal_run env_ok apply_log s xs \<Longrightarrow> legal_run env_ok apply_log s ys \<Longrightarrow>
   state_root (run_commits apply_log s xs) = state_root (run_commits apply_log s ys)"
  by (rule arg_cong [where f = state_root], rule replicas_agree)

end

end
