(* ===== verification/KvStore.thy ===== *)
theory KvStore
  imports Sha256 Storage StateMachine
begin

text \<open>
  \<^verbatim>\<open>applications/kv-store/kvstate.go\<close>: the replicated key-value store. Its state is the backing
  storage, the in-memory map and the state root; \<open>kv_apply\<close> is \<^verbatim>\<open>Apply\<close>, with the JSON decoder of
  its payload type and the order in which \<^verbatim>\<open>recalculateRoot\<close> ranges over the map as arguments.
  The lemmas show the refinement to an abstract map, that the root is a function of the map
  alone (so the iteration order is harmless), that memory and storage stay in step, and what
  happens to both when the storage fails.
\<close>

section \<open>Data\<close>

record kv_payload =
  kvp_op :: string
  kvp_key :: string
  kvp_value :: bytes

definition op_put :: string where "op_put = ''PUT''"

definition op_delete :: string where "op_delete = ''DELETE''"

record 'st kv_state =
  kv_storage :: 'st
  in_memory :: "string \<rightharpoonup> bytes"
  kv_root :: string

definition new_kv_state :: "'st \<Rightarrow> 'st kv_state" where
  "new_kv_state store = \<lparr>kv_storage = store, in_memory = Map.empty, kv_root = ''kv_genesis_root''\<rparr>"

section \<open>Operations\<close>

definition kv_recalculate_root :: "string list \<Rightarrow> 'st kv_state \<Rightarrow> 'st kv_state" where
  "kv_recalculate_root ord kv =
     (let keys = sort ord
      in kv\<lparr>kv_root := sha_hex (concat (map (\<lambda>k. [k, index_or [] (in_memory kv) k]) keys))\<rparr>)"

definition kv_apply :: "'st storage_api \<Rightarrow> (bytes \<Rightarrow> kv_payload result) \<Rightarrow> string list
    \<Rightarrow> 'st kv_state \<Rightarrow> bytes \<Rightarrow> 'st kv_state \<times> bytes result" where
  "kv_apply api unmarshal ord kv commit_log =
    (case unmarshal commit_log of
       Inl err \<Rightarrow> (kv, Inl (WrapError ''kv-store failed to unmarshal commit payload: '' err))
     | Inr payload \<Rightarrow>
         if kvp_op payload = op_put then
           (let kv1 = kv\<lparr>in_memory := (in_memory kv)(kvp_key payload \<mapsto> kvp_value payload)\<rparr>;
                (st, err) = api_put api (kv_storage kv1) (kvp_key payload) (kvp_value payload);
                kv2 = kv1\<lparr>kv_storage := st\<rparr>
            in case err of
                 Some e \<Rightarrow> (kv2, Inl (WrapError ''kv-store storage put error: '' e))
               | None \<Rightarrow> (let kv3 = kv_recalculate_root ord kv2 in (kv3, Inr (kv_root kv3))))
         else if kvp_op payload = op_delete then
           (let kv1 = kv\<lparr>in_memory := (in_memory kv)(kvp_key payload := None)\<rparr>;
                (st, err) = api_delete api (kv_storage kv1) (kvp_key payload);
                kv2 = kv1\<lparr>kv_storage := st\<rparr>
            in case err of
                 Some e \<Rightarrow> (kv2, Inl (WrapError ''kv-store storage delete error: '' e))
               | None \<Rightarrow> (let kv3 = kv_recalculate_root ord kv2 in (kv3, Inr (kv_root kv3))))
         else (kv, Inl (NewError (''unsupported kv operation: '' @ kvp_op payload))))"

definition kv_get_state_root :: "'st kv_state \<Rightarrow> bytes" where
  "kv_get_state_root kv = kv_root kv"

definition kv_get :: "'st kv_state \<Rightarrow> string \<Rightarrow> bytes option" where
  "kv_get kv key = in_memory kv key"

section \<open>Specification\<close>

text \<open>What a payload asks of an abstract map; \<open>None\<close> for an operation the store rejects.\<close>

definition kv_spec :: "kv_payload \<Rightarrow> (string \<rightharpoonup> bytes) \<Rightarrow> (string \<rightharpoonup> bytes) option" where
  "kv_spec p m =
     (if kvp_op p = op_put then Some (m(kvp_key p \<mapsto> kvp_value p))
      else if kvp_op p = op_delete then Some (m(kvp_key p := None))
      else None)"

text \<open>The digest of a map: keys in ascending order, each followed by its value.\<close>

definition kv_digest :: "(string \<rightharpoonup> bytes) \<Rightarrow> string" where
  "kv_digest m = sha_hex (concat (map (\<lambda>k. [k, index_or [] m k]) (sorted_list_of_set (dom m))))"

text \<open>An iteration order is legal for a call when it enumerates the map that is ranged over.\<close>

definition kv_env_ok :: "'st storage_api \<Rightarrow> (bytes \<Rightarrow> kv_payload result) \<Rightarrow> string list
    \<Rightarrow> 'st kv_state \<Rightarrow> bytes \<Rightarrow> bool" where
  "kv_env_ok api unmarshal ord kv c \<longleftrightarrow> iter_order (in_memory (fst (kv_apply api unmarshal ord kv c))) ord"

lemmas kv_defs = kv_apply_def kv_recalculate_root_def Let_def op_put_def op_delete_def

section \<open>Lemmas\<close>

lemma op_put_neq_delete [simp]: "op_put \<noteq> op_delete" "op_delete \<noteq> op_put"
  by (simp_all add: op_put_def op_delete_def)

lemma in_memory_recalc [simp]: "in_memory (kv_recalculate_root ord kv) = in_memory kv"
  and kv_storage_recalc [simp]: "kv_storage (kv_recalculate_root ord kv) = kv_storage kv"
  by (simp_all add: kv_recalculate_root_def Let_def)

lemma kv_root_recalc: "iter_order (in_memory kv) ord \<Longrightarrow>
    kv_root (kv_recalculate_root ord kv) = kv_digest (in_memory kv)"
  by (simp add: kv_recalculate_root_def kv_digest_def sort_iter_order Let_def)

text \<open>One lemma per outcome of \<^verbatim>\<open>Apply\<close>.\<close>

lemma kv_apply_bad_payload:
  "unmarshal c = Inl e \<Longrightarrow> kv_apply api unmarshal ord kv c =
     (kv, Inl (WrapError ''kv-store failed to unmarshal commit payload: '' e))"
  by (simp add: kv_apply_def)

lemma kv_apply_unsupported:
  "unmarshal c = Inr p \<Longrightarrow> kv_spec p (in_memory kv) = None \<Longrightarrow> kv_apply api unmarshal ord kv c =
     (kv, Inl (NewError (''unsupported kv operation: '' @ kvp_op p)))"
  by (simp add: kv_apply_def kv_spec_def split: if_splits)

lemma in_memory_kv_apply:
  "unmarshal c = Inr p \<Longrightarrow> kv_spec p (in_memory kv) = Some m \<Longrightarrow>
     in_memory (fst (kv_apply api unmarshal ord kv c)) = m"
  by (auto simp: kv_apply_def kv_spec_def Let_def split: if_splits prod.splits option.splits)

lemma in_memory_kv_apply_cases:
  "in_memory (fst (kv_apply api unmarshal ord kv c)) =
     (case unmarshal c of Inl _ \<Rightarrow> in_memory kv
      | Inr p \<Rightarrow> (case kv_spec p (in_memory kv) of None \<Rightarrow> in_memory kv | Some m \<Rightarrow> m))"
  by (simp add: kv_apply_bad_payload kv_apply_unsupported in_memory_kv_apply
      split: sum.splits option.splits)

lemma kv_apply_success_root:
  "kv_apply api unmarshal ord kv c = (kv', Inr r) \<Longrightarrow>
     kv' = kv_recalculate_root ord kv' \<and> r = kv_root kv'"
  by (auto simp: kv_apply_def kv_recalculate_root_def Let_def
      split: sum.splits if_splits prod.splits option.splits)

lemma kv_apply_error_root:
  "kv_apply api unmarshal ord kv c = (kv', Inl e) \<Longrightarrow> kv_root kv' = kv_root kv"
  by (auto simp: kv_apply_def Let_def split: sum.splits if_splits prod.splits option.splits)

text \<open>The iteration order only reaches the root, and only through \<open>sort\<close>.\<close>

lemma kv_recalculate_root_sort_cong:
  "sort ord = sort ord' \<Longrightarrow> kv_recalculate_root ord = kv_recalculate_root ord'"
  by (simp add: kv_recalculate_root_def fun_eq_iff)

lemma kv_apply_sort_cong:
  fixes kv :: "'st kv_state"
  assumes "sort ord = sort ord'"
  shows "kv_apply api unmarshal ord kv c = kv_apply api unmarshal ord' kv c"
proof -
  have "kv_recalculate_root ord = (kv_recalculate_root ord' :: 'st kv_state \<Rightarrow> 'st kv_state)"
    using assms by (rule kv_recalculate_root_sort_cong)
  then show ?thesis by (simp only: kv_apply_def)
qed

interpretation kv: deterministic_machine "kv_apply api unmarshal" kv_get_state_root
  "kv_env_ok api unmarshal" for api unmarshal
proof
  fix e s c s' r
  assume "kv_apply api unmarshal e s c = (s', Inr r)"
  then show "kv_get_state_root s' = r" by (auto simp: kv_get_state_root_def dest: kv_apply_success_root)
next
  fix e s c s' x
  assume "kv_apply api unmarshal e s c = (s', Inl x)"
  then show "kv_get_state_root s' = kv_get_state_root s"
    by (simp add: kv_get_state_root_def kv_apply_error_root)
next
  fix e s c e'
  assume "kv_env_ok api unmarshal e s c" and "kv_env_ok api unmarshal e' s c"
  then have "sort e = sort e'"
    unfolding kv_env_ok_def in_memory_kv_apply_cases by (rule sort_iter_order_unique) simp
  then show "kv_apply api unmarshal e s c = kv_apply api unmarshal e' s c"
    by (rule kv_apply_sort_cong)
qed

section \<open>Storage behind the store\<close>

context key_value_store
begin

text \<open>A call that reports success moves memory and storage alike.\<close>

lemma kv_success_in_step:
  assumes "kv_apply api unmarshal ord kv c = (kv', Inr r)"
    and "stored api (kv_storage kv) = in_memory kv"
  shows "stored api (kv_storage kv') = in_memory kv'"
  using assms
  by (auto simp: kv_apply_def Let_def put_ok delete_ok
      split: sum.splits if_splits prod.splits option.splits)

lemma kv_run_in_step:
  assumes "\<And>s k v. snd (api_put api s k v) = None" and "\<And>s k. snd (api_delete api s k) = None"
    and "stored api (kv_storage kv) = in_memory kv"
  shows "stored api (kv_storage (run_commits (kv_apply api unmarshal) kv cs))
       = in_memory (run_commits (kv_apply api unmarshal) kv cs)"
  using assms(3)
proof (induction cs arbitrary: kv)
  case Nil
  then show ?case by simp
next
  case (Cons x cs)
  obtain ord c where x: "x = (ord, c)" by (cases x)
  obtain kv' res where step: "kv_apply api unmarshal ord kv c = (kv', res)"
    by (cases "kv_apply api unmarshal ord kv c")
  have "stored api (kv_storage kv') = in_memory kv'"
  proof (cases res)
    case (Inl e)
    with step assms(1,2) Cons.prems show ?thesis
      by (auto simp: kv_apply_def Let_def Pair_eq_iff_fst_snd
          split: sum.splits if_splits prod.splits option.splits)
  next
    case (Inr r)
    with step Cons.prems show ?thesis by (auto intro: kv_success_in_step)
  qed
  then show ?case using Cons.IH [of kv'] x step by simp
qed

end

section \<open>Properties\<close>

fun kv_spec_run :: "(bytes \<Rightarrow> kv_payload result) \<Rightarrow> bytes list \<Rightarrow> (string \<rightharpoonup> bytes) \<Rightarrow> (string \<rightharpoonup> bytes)" where
  "kv_spec_run unmarshal [] m = m"
| "kv_spec_run unmarshal (c # cs) m = kv_spec_run unmarshal cs
     (case unmarshal c of Inl _ \<Rightarrow> m
      | Inr p \<Rightarrow> (case kv_spec p m of None \<Rightarrow> m | Some m' \<Rightarrow> m'))"

lemma in_memory_run:
  "in_memory (run_commits (kv_apply api unmarshal) kv cs) = kv_spec_run unmarshal (map snd cs) (in_memory kv)"
  by (induction "kv_apply api unmarshal" kv cs rule: run_commits.induct)
     (simp_all add: in_memory_kv_apply_cases)

text \<open>
  the key-value store refines an abstract map. Whatever the storage does and in whatever
  order Go ranges over the map, the pairs a reader sees after a run of commits are those of the
  map that the decoded, supported operations of the run build; commits that do not decode or
  name another operation leave no trace.
\<close>

theorem kv_store_refines_map:
  "kv_get (run_commits (kv_apply api unmarshal) (new_kv_state store) cs) =
     kv_spec_run unmarshal (map snd cs) Map.empty"
  by (simp add: kv_get_def in_memory_run new_kv_state_def fun_eq_iff)

lemma kv_apply_failure_root:
  "kv_apply api unmarshal ord kv c = (kv', Inl e) \<Longrightarrow> kv_root kv' = kv_root kv"
  by (auto simp: kv_apply_def Let_def split: sum.splits if_splits prod.splits option.splits)

text \<open>
  C10: The state root of the key-value store is a function of its contents. A successful
  \<^verbatim>\<open>Apply\<close> returns, and leaves as the store's root, the digest of the map it leaves behind, for every
  legal iteration order; hence two replicas with the same contents report the same root, whatever
  their histories. An \<^verbatim>\<open>Apply\<close> that returns an error leaves the root as it was, also where the
  storage failed after the map had changed.
\<close>

theorem kv_root_is_digest_of_contents:
  assumes "kv_apply api unmarshal ord kv c = (kv', res)" and "kv_env_ok api unmarshal ord kv c"
  shows "case res of Inr r \<Rightarrow> r = kv_digest (in_memory kv') \<and> kv_get_state_root kv' = r
     | Inl e \<Rightarrow> kv_get_state_root kv' = kv_get_state_root kv"
proof (cases res)
  case (Inr r)
  from assms have "iter_order (in_memory kv') ord" by (simp add: kv_env_ok_def)
  then have "kv_root (kv_recalculate_root ord kv') = kv_digest (in_memory kv')" by (rule kv_root_recalc)
  with kv_apply_success_root [OF assms(1) [unfolded Inr]] show ?thesis by (simp add: Inr kv_get_state_root_def)
next
  case (Inl e)
  with kv_apply_failure_root assms(1) show ?thesis by (simp add: kv_get_state_root_def)
qed

text \<open>A decoder for the witnesses: one fixed payload whatever the bytes.\<close>

theorem kv_root_is_digest_of_contents_witness:
  "snd (kv_apply memory_api (\<lambda>c. Inr \<lparr>kvp_op = ''PUT'', kvp_key = ''b'', kvp_value = c\<rparr>) [''b'', ''a'']
         ((new_kv_state new_memory_storage)\<lparr>in_memory := [''a'' \<mapsto> ''1'']\<rparr>) ''2'')
   = Inr (kv_digest [''a'' \<mapsto> ''1'', ''b'' \<mapsto> ''2''])"
proof -
  let ?u = "\<lambda>c. Inr \<lparr>kvp_op = ''PUT'', kvp_key = ''b'', kvp_value = c\<rparr> :: kv_payload result"
  let ?kv = "(new_kv_state new_memory_storage)\<lparr>in_memory := [''a'' \<mapsto> ''1'']\<rparr>"
  obtain kv' r where ap: "kv_apply memory_api ?u [''b'', ''a''] ?kv ''2'' = (kv', Inr r)"
    by (simp add: kv_defs memory_put_def)
  have mem: "in_memory (fst (kv_apply memory_api ?u [''b'', ''a''] ?kv ''2'')) = [''a'' \<mapsto> ''1'', ''b'' \<mapsto> ''2'']"
    by (simp add: kv_defs memory_put_def)
  then have "kv_env_ok memory_api ?u [''b'', ''a''] ?kv ''2''"
    by (auto simp: kv_env_ok_def iter_order_def)
  from kv_root_is_digest_of_contents [OF ap this] ap mem show ?thesis by simp
qed

text \<open>
  C11: replicas of the key-value store agree: two nodes that start from the same state and
  apply the same commits end in the same state with the same root, each under its own legal
  iteration orders.
\<close>

theorem kv_replicas_agree:
  assumes "map snd xs = map snd ys"
    and "legal_run (kv_env_ok api unmarshal) (kv_apply api unmarshal) kv xs"
    and "legal_run (kv_env_ok api unmarshal) (kv_apply api unmarshal) kv ys"
  shows "run_commits (kv_apply api unmarshal) kv xs = run_commits (kv_apply api unmarshal) kv ys"
  using assms by (rule kv.replicas_agree)

theorem kv_replicas_agree_witness:
  "run_commits (kv_apply memory_api (\<lambda>c. Inr \<lparr>kvp_op = ''PUT'', kvp_key = c, kvp_value = ''v''\<rparr>))
     (new_kv_state new_memory_storage) [([''x''], ''x''), ([''x'', ''y''], ''y'')]
   = run_commits (kv_apply memory_api (\<lambda>c. Inr \<lparr>kvp_op = ''PUT'', kvp_key = c, kvp_value = ''v''\<rparr>))
     (new_kv_state new_memory_storage) [([''x''], ''x''), ([''y'', ''x''], ''y'')]"
  by (rule kv_replicas_agree)
     (auto simp: kv_env_ok_def in_memory_kv_apply_cases kv_spec_def op_put_def iter_order_def new_kv_state_def)

text \<open>
  on the in-memory storage the store is durable: after any run of commits, failed ones
  included, the storage holds exactly the pairs of the in-memory map.
\<close>

theorem kv_memory_storage_in_step:
  "mem_data (kv_storage (run_commits (kv_apply memory_api unmarshal) (new_kv_state new_memory_storage) cs))
     = in_memory (run_commits (kv_apply memory_api unmarshal) (new_kv_state new_memory_storage) cs)"
  using mem.kv_run_in_step [of "new_kv_state new_memory_storage" unmarshal cs]
  by (simp add: new_kv_state_def new_memory_storage_def)

text \<open>
  a storage failure is not rolled back. When the storage refuses a \<^verbatim>\<open>PUT\<close>, \<^verbatim>\<open>Apply\<close> reports
  the error and keeps the old root, but the in-memory map already holds the new value.
\<close>

theorem kv_storage_failure_keeps_write:
  assumes "unmarshal c = Inr p" and "kvp_op p = op_put"
    and "api_put api (kv_storage kv) (kvp_key p) (kvp_value p) = (st, Some e)"
  shows "kv_apply api unmarshal ord kv c =
     (kv\<lparr>in_memory := (in_memory kv)(kvp_key p \<mapsto> kvp_value p), kv_storage := st\<rparr>,
      Inl (WrapError ''kv-store storage put error: '' e))"
  using assms by (simp add: kv_apply_def)

text \<open>A storage that is full: every \<^verbatim>\<open>Put\<close> fails.\<close>

definition full_api :: "memory_storage storage_api" where
  "full_api = memory_api\<lparr>api_put := (\<lambda>s k v. (s, Some (NewError ''disk full'')))\<rparr>"

theorem kv_storage_failure_keeps_write_witness:
  "kv_get (fst (kv_apply full_api (\<lambda>c. Inr \<lparr>kvp_op = ''PUT'', kvp_key = ''k'', kvp_value = c\<rparr>) []
      (new_kv_state new_memory_storage) ''v'')) ''k'' = Some ''v'' \<and>
   kv_get_state_root (fst (kv_apply full_api (\<lambda>c. Inr \<lparr>kvp_op = ''PUT'', kvp_key = ''k'', kvp_value = c\<rparr>) []
      (new_kv_state new_memory_storage) ''v'')) = ''kv_genesis_root''"
  by (subst kv_storage_failure_keeps_write
        [where p = "\<lparr>kvp_op = ''PUT'', kvp_key = ''k'', kvp_value = ''v''\<rparr>" and e = "NewError ''disk full''"
           and st = new_memory_storage],
      simp_all add: op_put_def full_api_def new_kv_state_def kv_get_def kv_get_state_root_def)+

text \<open>
  the root does not determine the contents. Keys and values are hashed without separators,
  so a value that starts with \<open>x\<close> under the key \<open>k\<close> and the rest of it under the key \<open>k @ x\<close>
  give the same root: two nodes that applied different operations report equal roots.
\<close>

theorem kv_root_ambiguous:
  assumes "x \<noteq> []"
    and "unmarshal c = Inr \<lparr>kvp_op = op_put, kvp_key = k, kvp_value = x @ v\<rparr>"
    and "unmarshal c' = Inr \<lparr>kvp_op = op_put, kvp_key = k @ x, kvp_value = v\<rparr>"
  shows "snd (kv_apply memory_api unmarshal [k] (new_kv_state new_memory_storage) c)
       = snd (kv_apply memory_api unmarshal [k @ x] (new_kv_state new_memory_storage) c')
     \<and> kv_get (fst (kv_apply memory_api unmarshal [k] (new_kv_state new_memory_storage) c))
       \<noteq> kv_get (fst (kv_apply memory_api unmarshal [k @ x] (new_kv_state new_memory_storage) c'))"
proof
  show "snd (kv_apply memory_api unmarshal [k] (new_kv_state new_memory_storage) c)
      = snd (kv_apply memory_api unmarshal [k @ x] (new_kv_state new_memory_storage) c')"
    using assms(2,3)
    by (simp add: kv_apply_def kv_recalculate_root_def memory_put_def new_kv_state_def sha_hex_def)
next
  have "[k \<mapsto> x @ v] \<noteq> [k @ x \<mapsto> v]"
    using assms(1) by (auto simp: fun_eq_iff dest: spec [of _ k])
  then show "kv_get (fst (kv_apply memory_api unmarshal [k] (new_kv_state new_memory_storage) c))
      \<noteq> kv_get (fst (kv_apply memory_api unmarshal [k @ x] (new_kv_state new_memory_storage) c'))"
    using assms(2,3)
    by (simp add: kv_get_def in_memory_kv_apply_cases kv_spec_def new_kv_state_def fun_eq_iff)
qed

theorem kv_root_ambiguous_witness:
  "snd (kv_apply memory_api (\<lambda>c. Inr \<lparr>kvp_op = ''PUT'', kvp_key = ''a'' @ (if c = [] then [] else ''b''),
          kvp_value = (if c = [] then ''bc'' else ''c'')\<rparr>) [''a''] (new_kv_state new_memory_storage) [])
   = snd (kv_apply memory_api (\<lambda>c. Inr \<lparr>kvp_op = ''PUT'', kvp_key = ''a'' @ (if c = [] then [] else ''b''),
          kvp_value = (if c = [] then ''bc'' else ''c'')\<rparr>) [''ab''] (new_kv_state new_memory_storage) ''1'')"
  using kv_root_ambiguous [of "''b''" "\<lambda>c. Inr \<lparr>kvp_op = ''PUT'', kvp_key = ''a'' @ (if c = [] then [] else ''b''),
          kvp_value = (if c = [] then ''bc'' else ''c'')\<rparr>" "[]" "''a''" "''c''" "''1''"]
  by (simp add: op_put_def)

end
