(* ===== verification/DistConfig.thy ===== *)
theory DistConfig
  imports Sha256 StateMachine
begin

text \<open>
  \<^verbatim>\<open>applications/dist-config/configstate.go\<close>: the distributed configuration service, a map from
  namespaces to maps from keys to values. \<open>config_apply\<close> is \<^verbatim>\<open>Apply\<close>; the namespace order and
  the key order of each namespace that \<^verbatim>\<open>recalculateRoot\<close> ranges in are its environment. The
  service is a deterministic state machine and refines the flat map from namespace and key to
  value; a commit it rejects still creates the namespace the commit names.
\<close>

section \<open>Data\<close>

record config_payload =
  cfp_action :: string
  cfp_namespace :: string
  cfp_key :: string
  cfp_value :: string

definition action_set_config :: string where "action_set_config = ''SET''"

definition action_del_config :: string where "action_del_config = ''DEL''"

record 'st config_state =
  config_storage :: 'st
  configs :: nested_map
  config_root :: string

definition new_config_state :: "'st \<Rightarrow> 'st config_state" where
  "new_config_state store =
     \<lparr>config_storage = store, configs = Map.empty, config_root = ''config_genesis_root''\<rparr>"

section \<open>Operations\<close>

definition config_recalculate_root :: "nested_order \<Rightarrow> 'st config_state \<Rightarrow> 'st config_state" where
  "config_recalculate_root ord cs =
     (let ns_keys = sort (fst ord)
      in cs\<lparr>config_root := sha_hex (nested_pieces (configs cs) ns_keys (\<lambda>ns. sort (snd ord ns)))\<rparr>)"

definition config_apply :: "(bytes \<Rightarrow> config_payload result) \<Rightarrow> nested_order
    \<Rightarrow> 'st config_state \<Rightarrow> bytes \<Rightarrow> 'st config_state \<times> bytes result" where
  "config_apply unmarshal ord cs commit_log =
    (case unmarshal commit_log of
       Inl err \<Rightarrow> (cs, Inl (WrapError ''dist-config failed to unmarshal payload: '' err))
     | Inr payload \<Rightarrow>
        (let ns = cfp_namespace payload;
             cs1 = (case configs cs ns of
                      None \<Rightarrow> cs\<lparr>configs := (configs cs)(ns \<mapsto> Map.empty)\<rparr>
                    | Some _ \<Rightarrow> cs)
         in if cfp_action payload = action_set_config then
              (let cs2 = cs1\<lparr>configs := (configs cs1)(ns \<mapsto>
                     (index_or Map.empty (configs cs1) ns)(cfp_key payload \<mapsto> cfp_value payload))\<rparr>;
                   cs3 = config_recalculate_root ord cs2
               in (cs3, Inr (config_root cs3)))
            else if cfp_action payload = action_del_config then
              (let cs2 = cs1\<lparr>configs := (configs cs1)(ns \<mapsto>
                     (index_or Map.empty (configs cs1) ns)(cfp_key payload := None))\<rparr>;
                   cs3 = config_recalculate_root ord cs2
               in (cs3, Inr (config_root cs3)))
            else (cs1, Inl (NewError (''unsupported config action: '' @ cfp_action payload)))))"

definition config_get_state_root :: "'st config_state \<Rightarrow> bytes" where
  "config_get_state_root cs = config_root cs"

definition get_config :: "'st config_state \<Rightarrow> string \<Rightarrow> string \<Rightarrow> string option" where
  "get_config cs ns key = (case configs cs ns of Some sub \<Rightarrow> sub key | None \<Rightarrow> None)"

section \<open>Specification\<close>

definition config_spec :: "config_payload \<Rightarrow> (string \<times> string \<rightharpoonup> string) \<Rightarrow> (string \<times> string \<rightharpoonup> string)" where
  "config_spec p m =
     (if cfp_action p = action_set_config then m((cfp_namespace p, cfp_key p) \<mapsto> cfp_value p)
      else if cfp_action p = action_del_config then m((cfp_namespace p, cfp_key p) := None)
      else m)"

fun config_spec_run :: "(bytes \<Rightarrow> config_payload result) \<Rightarrow> bytes list
    \<Rightarrow> (string \<times> string \<rightharpoonup> string) \<Rightarrow> (string \<times> string \<rightharpoonup> string)" where
  "config_spec_run unmarshal [] m = m"
| "config_spec_run unmarshal (c # cs) m = config_spec_run unmarshal cs
     (case unmarshal c of Inl _ \<Rightarrow> m | Inr p \<Rightarrow> config_spec p m)"

definition config_digest :: "nested_map \<Rightarrow> string" where
  "config_digest m = sha_hex (nested_pieces m (sorted_list_of_set (dom m)) (nested_keys m))"

definition config_env_ok :: "(bytes \<Rightarrow> config_payload result) \<Rightarrow> nested_order
    \<Rightarrow> 'st config_state \<Rightarrow> bytes \<Rightarrow> bool" where
  "config_env_ok unmarshal ord cs c \<longleftrightarrow> nested_iter_order (configs (fst (config_apply unmarshal ord cs c))) ord"

section \<open>Lemmas\<close>

lemma action_set_neq_del [simp]:
  "action_set_config \<noteq> action_del_config" "action_del_config \<noteq> action_set_config"
  by (simp_all add: action_set_config_def action_del_config_def)

lemma configs_recalc [simp]: "configs (config_recalculate_root ord cs) = configs cs"
  by (simp add: config_recalculate_root_def Let_def)

lemma config_root_recalc:
  "nested_iter_order (configs cs) ord \<Longrightarrow>
     config_root (config_recalculate_root ord cs) = config_digest (configs cs)"
  by (simp add: config_recalculate_root_def config_digest_def nested_pieces_sorted Let_def)

lemma config_recalc_absorb:
  "config_recalculate_root ord (config_recalculate_root ord cs) = config_recalculate_root ord cs"
  by (simp add: config_recalculate_root_def Let_def)

lemma flat_config_apply:
  "flat (configs (fst (config_apply unmarshal ord cs c))) =
     (case unmarshal c of Inl _ \<Rightarrow> flat (configs cs) | Inr p \<Rightarrow> config_spec p (flat (configs cs)))"
  by (auto simp: config_apply_def config_spec_def Let_def flat_inner_put flat_inner_del flat_new_outer
      simp del: fun_upd_apply split: sum.splits option.splits)

lemma configs_apply_order_irrelevant:
  "configs (fst (config_apply unmarshal ord cs c)) = configs (fst (config_apply unmarshal ord' cs c))"
  by (simp add: config_apply_def Let_def split: sum.splits)

lemma config_apply_success_root:
  "config_apply unmarshal ord cs c = (cs', Inr r) \<Longrightarrow>
     cs' = config_recalculate_root ord cs' \<and> r = config_root cs'"
  by (auto simp: config_apply_def Let_def config_recalc_absorb split: sum.splits if_splits)

lemma config_apply_error_root:
  "config_apply unmarshal ord cs c = (cs', Inl e) \<Longrightarrow> config_root cs' = config_root cs"
  by (auto simp: config_apply_def Let_def split: sum.splits if_splits option.splits)

lemma config_recalculate_root_cong:
  "nested_iter_order (configs cs) ord \<Longrightarrow> nested_iter_order (configs cs) ord' \<Longrightarrow>
     config_recalculate_root ord cs = config_recalculate_root ord' cs"
  by (simp add: config_recalculate_root_def Let_def nested_pieces_sorted)

lemma config_apply_order_irrelevant:
  assumes "config_env_ok unmarshal ord cs c" and "config_env_ok unmarshal ord' cs c"
  shows "config_apply unmarshal ord cs c = config_apply unmarshal ord' cs c"
proof -
  have root: "nested_iter_order (configs x) ord \<Longrightarrow> nested_iter_order (configs x) ord' \<Longrightarrow>
      (config_recalculate_root ord x, Inr (config_root (config_recalculate_root ord x))) =
      (config_recalculate_root ord' x, Inr (config_root (config_recalculate_root ord' x)) :: bytes result)"
    for x :: "'a config_state"
    by (drule (1) config_recalculate_root_cong) (simp only:)
  show ?thesis
    using assms unfolding config_env_ok_def config_apply_def Let_def
    by (cases "unmarshal c") (simp_all only: sum.case prod.sel configs_recalc root split: if_splits, simp_all)
qed

interpretation config: deterministic_machine "config_apply unmarshal" config_get_state_root
  "config_env_ok unmarshal" for unmarshal
proof
  fix e s c s' r
  assume "config_apply unmarshal e s c = (s', Inr r)"
  then show "config_get_state_root s' = r"
    by (auto simp: config_get_state_root_def dest: config_apply_success_root)
next
  fix e s c s' x
  assume "config_apply unmarshal e s c = (s', Inl x)"
  then show "config_get_state_root s' = config_get_state_root s"
    by (simp add: config_get_state_root_def config_apply_error_root)
next
  fix e s c e'
  assume "config_env_ok unmarshal e s c" and "config_env_ok unmarshal e' s c"
  then show "config_apply unmarshal e s c = config_apply unmarshal e' s c"
    by (rule config_apply_order_irrelevant)
qed

section \<open>Properties\<close>

lemma flat_configs_run:
  "flat (configs (run_commits (config_apply unmarshal) cs cls))
     = config_spec_run unmarshal (map snd cls) (flat (configs cs))"
  by (induction cls arbitrary: cs) (auto simp: flat_config_apply)

text \<open>
  C14: the configuration service refines the flat map from namespace and key to value: after any
  run of commits \<^verbatim>\<open>GetConfig\<close> finds the value the last \<^verbatim>\<open>SET\<close> of that namespace and key gave it
  unless a later \<^verbatim>\<open>DEL\<close> removed it, and nothing for a key that was never set.
\<close>

theorem config_refines_flat_map:
  "get_config (run_commits (config_apply unmarshal) (new_config_state store) cls) ns key =
     config_spec_run unmarshal (map snd cls) Map.empty (ns, key)"
proof -
  have "get_config cs ns key = flat (configs cs) (ns, key)" for cs :: "'a config_state"
    by (simp add: get_config_def flat_def)
  moreover have "flat Map.empty = Map.empty" by (simp add: flat_def fun_eq_iff)
  ultimately show ?thesis by (simp add: flat_configs_run new_config_state_def)
qed

text \<open>
  the root of the configuration service is a function of its contents: a successful \<^verbatim>\<open>Apply\<close>
  returns the digest of the nested map it leaves behind under every legal pair of iteration
  orders.
\<close>

theorem config_root_is_digest_of_contents:
  assumes "config_apply unmarshal ord cs c = (cs', Inr r)" and "config_env_ok unmarshal ord cs c"
  shows "r = config_digest (configs cs') \<and> config_get_state_root cs' = r"
proof -
  from assms have "nested_iter_order (configs cs') ord" by (simp add: config_env_ok_def)
  then have "config_root (config_recalculate_root ord cs') = config_digest (configs cs')"
    by (rule config_root_recalc)
  with config_apply_success_root [OF assms(1)] show ?thesis by (simp add: config_get_state_root_def)
qed

theorem config_root_is_digest_of_contents_witness:
  "snd (config_apply (\<lambda>c. Inr \<lparr>cfp_action = ''SET'', cfp_namespace = ''db'', cfp_key = ''port'', cfp_value = c\<rparr>)
      ([''db''], \<lambda>_. [''port'']) (new_config_state ()) ''1'') = Inr (config_digest [''db'' \<mapsto> [''port'' \<mapsto> ''1'']])"
proof -
  let ?u = "\<lambda>c. Inr \<lparr>cfp_action = ''SET'', cfp_namespace = ''db'', cfp_key = ''port'', cfp_value = c\<rparr>
    :: config_payload result"
  let ?o = "([''db''], \<lambda>_. [''port'']) :: nested_order"
  have mem: "configs (fst (config_apply ?u ?o (new_config_state ()) ''1'')) = [''db'' \<mapsto> [''port'' \<mapsto> ''1'']]"
    by (simp add: config_apply_def Let_def action_set_config_def new_config_state_def)
  obtain cs' r where ap: "config_apply ?u ?o (new_config_state ()) ''1'' = (cs', Inr r)"
    by (simp add: config_apply_def Let_def action_set_config_def)
  from mem have "config_env_ok ?u ?o (new_config_state ()) ''1''"
    by (simp add: config_env_ok_def nested_iter_order_def iter_order_def)
  from config_root_is_digest_of_contents [OF ap this] ap mem show ?thesis by simp
qed

text \<open>
  a rejected commit changes the configuration service. An action other than \<^verbatim>\<open>SET\<close> and
  \<^verbatim>\<open>DEL\<close> on an unknown namespace is an error and leaves the root as it was, yet the namespace now
  exists, and with it the contents that the next root is computed from.
\<close>

theorem config_rejected_commit_creates_namespace:
  assumes "unmarshal c = Inr p" and "cfp_action p \<notin> {action_set_config, action_del_config}"
    and "configs cs (cfp_namespace p) = None"
  shows "snd (config_apply unmarshal ord cs c) = Inl (NewError (''unsupported config action: '' @ cfp_action p))
     \<and> config_get_state_root (fst (config_apply unmarshal ord cs c)) = config_get_state_root cs
     \<and> configs (fst (config_apply unmarshal ord cs c)) = (configs cs)(cfp_namespace p \<mapsto> Map.empty)"
  using assms by (simp add: config_apply_def config_get_state_root_def)

theorem config_rejected_commit_creates_namespace_witness:
  "configs (fst (config_apply (\<lambda>c. Inr \<lparr>cfp_action = ''PURGE'', cfp_namespace = ''ghost'', cfp_key = [], cfp_value = []\<rparr>)
      ([], \<lambda>_. []) (new_config_state ()) [])) = [''ghost'' \<mapsto> Map.empty]"
  using config_rejected_commit_creates_namespace
    [of "\<lambda>c. Inr \<lparr>cfp_action = ''PURGE'', cfp_namespace = ''ghost'', cfp_key = [], cfp_value = []\<rparr>" "[]"
       "\<lparr>cfp_action = ''PURGE'', cfp_namespace = ''ghost'', cfp_key = [], cfp_value = []\<rparr>"
       "new_config_state ()" "([], \<lambda>_. [])"]
  by (simp add: new_config_state_def action_set_config_def action_del_config_def)

end
