(* ===== verification/MetadataService.thy ===== *)
theory MetadataService
  imports Sha256 StateMachine
begin

text \<open>
  \<^verbatim>\<open>applications/metadata-service/metastate.go\<close>: the metadata service stores one string map per
  object. \<open>meta_apply\<close> is \<^verbatim>\<open>Apply\<close>; the orders in which \<^verbatim>\<open>recalculateRoot\<close> ranges over the
  objects and over the keys of each object are its environment. A nil metadata map in a payload
  reads like an empty one and is not told apart from it.
\<close>

section \<open>Data\<close>

record metadata_payload =
  mdp_action :: string
  mdp_object_id :: string
  mdp_metadata :: "string \<rightharpoonup> string"

definition action_put_meta :: string where "action_put_meta = ''PUT_META''"

definition action_del_meta :: string where "action_del_meta = ''DEL_META''"

record 'st metadata_state =
  meta_storage :: 'st
  objects :: nested_map
  meta_root :: string

definition new_metadata_state :: "'st \<Rightarrow> 'st metadata_state" where
  "new_metadata_state store =
     \<lparr>meta_storage = store, objects = Map.empty, meta_root = ''meta_genesis_root''\<rparr>"

section \<open>Operations\<close>

definition meta_recalculate_root :: "nested_order \<Rightarrow> 'st metadata_state \<Rightarrow> 'st metadata_state" where
  "meta_recalculate_root ord ms =
     (let obj_ids = sort (fst ord)
      in ms\<lparr>meta_root := sha_hex (nested_pieces (objects ms) obj_ids (\<lambda>id. sort (snd ord id)))\<rparr>)"

definition meta_apply :: "(bytes \<Rightarrow> metadata_payload result) \<Rightarrow> nested_order
    \<Rightarrow> 'st metadata_state \<Rightarrow> bytes \<Rightarrow> 'st metadata_state \<times> bytes result" where
  "meta_apply unmarshal ord ms commit_log =
    (case unmarshal commit_log of
       Inl err \<Rightarrow> (ms, Inl (WrapError ''metadata-service failed to unmarshal payload: '' err))
     | Inr payload \<Rightarrow>
         if mdp_action payload = action_put_meta then
           (let ms1 = meta_recalculate_root ord
                  (ms\<lparr>objects := (objects ms)(mdp_object_id payload \<mapsto> mdp_metadata payload)\<rparr>)
            in (ms1, Inr (meta_root ms1)))
         else if mdp_action payload = action_del_meta then
           (let ms1 = meta_recalculate_root ord
                  (ms\<lparr>objects := (objects ms)(mdp_object_id payload := None)\<rparr>)
            in (ms1, Inr (meta_root ms1)))
         else (ms, Inl (NewError (''unsupported meta action: '' @ mdp_action payload))))"

definition meta_get_state_root :: "'st metadata_state \<Rightarrow> bytes" where
  "meta_get_state_root ms = meta_root ms"

definition get_metadata :: "'st metadata_state \<Rightarrow> string \<Rightarrow> (string \<rightharpoonup> string) option" where
  "get_metadata ms object_id = objects ms object_id"

section \<open>Specification\<close>

definition meta_spec :: "metadata_payload \<Rightarrow> nested_map \<Rightarrow> nested_map option" where
  "meta_spec p m =
     (if mdp_action p = action_put_meta then Some (m(mdp_object_id p \<mapsto> mdp_metadata p))
      else if mdp_action p = action_del_meta then Some (m(mdp_object_id p := None))
      else None)"

definition meta_digest :: "nested_map \<Rightarrow> string" where
  "meta_digest m = sha_hex (nested_pieces m (sorted_list_of_set (dom m)) (nested_keys m))"

definition meta_env_ok :: "(bytes \<Rightarrow> metadata_payload result) \<Rightarrow> nested_order
    \<Rightarrow> 'st metadata_state \<Rightarrow> bytes \<Rightarrow> bool" where
  "meta_env_ok unmarshal ord ms c \<longleftrightarrow> nested_iter_order (objects (fst (meta_apply unmarshal ord ms c))) ord"

section \<open>Lemmas\<close>

lemma action_put_neq_del_meta [simp]:
  "action_put_meta \<noteq> action_del_meta" "action_del_meta \<noteq> action_put_meta"
  by (simp_all add: action_put_meta_def action_del_meta_def)

lemma objects_recalc [simp]: "objects (meta_recalculate_root ord ms) = objects ms"
  by (simp add: meta_recalculate_root_def Let_def)

lemma get_metadata_objects: "get_metadata ms = objects ms"
  by (rule ext) (simp add: get_metadata_def)

text \<open>\<^verbatim>\<open>Apply\<close> in terms of the specification: reject, or store and recompute the root.\<close>

lemma meta_apply_spec:
  "meta_apply unmarshal ord ms c =
     (case unmarshal c of
        Inl err \<Rightarrow> (ms, Inl (WrapError ''metadata-service failed to unmarshal payload: '' err))
      | Inr p \<Rightarrow> (case meta_spec p (objects ms) of
           None \<Rightarrow> (ms, Inl (NewError (''unsupported meta action: '' @ mdp_action p)))
         | Some m \<Rightarrow> (let ms1 = meta_recalculate_root ord (ms\<lparr>objects := m\<rparr>) in (ms1, Inr (meta_root ms1)))))"
  by (simp add: meta_apply_def meta_spec_def split: sum.splits)

lemma objects_meta_apply:
  "objects (fst (meta_apply unmarshal ord ms c)) =
     (case unmarshal c of Inl _ \<Rightarrow> objects ms
      | Inr p \<Rightarrow> (case meta_spec p (objects ms) of None \<Rightarrow> objects ms | Some m \<Rightarrow> m))"
  by (simp add: meta_apply_spec Let_def split: sum.splits option.splits)

lemma meta_root_recalc:
  "nested_iter_order (objects ms) ord \<Longrightarrow> meta_root (meta_recalculate_root ord ms) = meta_digest (objects ms)"
  by (simp add: meta_recalculate_root_def meta_digest_def nested_pieces_sorted Let_def)

lemma meta_recalculate_root_cong:
  "nested_iter_order (objects ms) ord \<Longrightarrow> nested_iter_order (objects ms) ord' \<Longrightarrow>
     meta_recalculate_root ord ms = meta_recalculate_root ord' ms"
  by (simp add: meta_recalculate_root_def Let_def nested_pieces_sorted)

interpretation meta: deterministic_machine "meta_apply unmarshal" meta_get_state_root
  "meta_env_ok unmarshal" for unmarshal
proof
  fix e s c s' r
  assume "meta_apply unmarshal e s c = (s', Inr r)"
  then show "meta_get_state_root s' = r"
    by (auto simp: meta_apply_spec meta_get_state_root_def Let_def split: sum.splits option.splits)
next
  fix e s c s' x
  assume "meta_apply unmarshal e s c = (s', Inl x)"
  then show "meta_get_state_root s' = meta_get_state_root s"
    by (auto simp: meta_apply_spec meta_get_state_root_def Let_def split: sum.splits option.splits)
next
  fix e s c e'
  assume ok: "meta_env_ok unmarshal e s c" "meta_env_ok unmarshal e' s c"
  show "meta_apply unmarshal e s c = meta_apply unmarshal e' s c"
  proof (cases "\<exists>p m. unmarshal c = Inr p \<and> meta_spec p (objects s) = Some m")
    case True
    then obtain p m where p: "unmarshal c = Inr p" "meta_spec p (objects s) = Some m" by auto
    with ok have "nested_iter_order m e" "nested_iter_order m e'"
      by (simp_all add: meta_env_ok_def objects_meta_apply)
    then have "meta_recalculate_root e (s\<lparr>objects := m\<rparr>) = meta_recalculate_root e' (s\<lparr>objects := m\<rparr>)"
      by (intro meta_recalculate_root_cong) simp_all
    with p show ?thesis by (simp add: meta_apply_spec)
  next
    case False
    then show ?thesis by (auto simp: meta_apply_spec split: sum.splits option.splits)
  qed
qed

section \<open>Properties\<close>

text \<open>
  the metadata service answers a query with the metadata of the last \<^verbatim>\<open>PUT_META\<close> of the
  object. A commit that decodes and is supported has exactly its effect on the objects, returns
  the digest of the objects it leaves behind, and is otherwise an error that changes nothing.
\<close>

theorem meta_apply_correct:
  assumes "meta_env_ok unmarshal ord ms c"
  shows "case unmarshal c of
      Inl err \<Rightarrow> meta_apply unmarshal ord ms c =
        (ms, Inl (WrapError ''metadata-service failed to unmarshal payload: '' err))
    | Inr p \<Rightarrow> (case meta_spec p (objects ms) of
        None \<Rightarrow> meta_apply unmarshal ord ms c =
          (ms, Inl (NewError (''unsupported meta action: '' @ mdp_action p)))
      | Some m \<Rightarrow> get_metadata (fst (meta_apply unmarshal ord ms c)) = m
          \<and> snd (meta_apply unmarshal ord ms c) = Inr (meta_digest m)
          \<and> meta_get_state_root (fst (meta_apply unmarshal ord ms c)) = meta_digest m)"
  using assms
  by (auto simp: meta_env_ok_def meta_apply_spec Let_def get_metadata_objects meta_get_state_root_def
      meta_root_recalc split: sum.splits option.splits)

theorem meta_apply_correct_witness:
  "get_metadata (fst (meta_apply
      (\<lambda>c. Inr \<lparr>mdp_action = ''PUT_META'', mdp_object_id = ''obj'', mdp_metadata = [''owner'' \<mapsto> c]\<rparr>)
      ([''obj''], \<lambda>_. [''owner'']) (new_metadata_state ()) ''sys'')) ''obj'' = Some [''owner'' \<mapsto> ''sys'']"
proof -
  let ?u = "\<lambda>c. Inr \<lparr>mdp_action = ''PUT_META'', mdp_object_id = ''obj'', mdp_metadata = [''owner'' \<mapsto> c]\<rparr>
    :: metadata_payload result"
  have "meta_env_ok ?u ([''obj''], \<lambda>_. [''owner'']) (new_metadata_state ()) ''sys''"
    by (simp add: meta_env_ok_def objects_meta_apply meta_spec_def action_put_meta_def
        new_metadata_state_def nested_iter_order_def iter_order_def)
  from meta_apply_correct [OF this] show ?thesis
    by (simp add: meta_spec_def action_put_meta_def new_metadata_state_def)
qed

end
