(* ===== verification/DistQueue.thy ===== *)
theory DistQueue
  imports Sha256 StateMachine
begin

text \<open>
  \<^verbatim>\<open>applications/dist-queue/queuestate.go\<close>: one FIFO queue of byte slices per topic.
  \<open>queue_apply\<close> is \<^verbatim>\<open>Apply\<close>; its environment is the order in which \<^verbatim>\<open>recalculateRoot\<close> ranges
  over the topics, which this application does not sort. The lemmas show that each topic is a
  FIFO queue, and that the root of two or more topics depends on the iteration order.
\<close>

section \<open>Data\<close>

record queue_payload =
  qp_action :: string
  qp_topic :: string
  qp_data :: bytes

definition action_enqueue :: string where "action_enqueue = ''ENQUEUE''"

definition action_dequeue :: string where "action_dequeue = ''DEQUEUE''"

record 'st queue_state =
  queue_storage :: 'st
  queues :: "string \<rightharpoonup> bytes list"
  queue_root :: string

definition new_queue_state :: "'st \<Rightarrow> 'st queue_state" where
  "new_queue_state store =
     \<lparr>queue_storage = store, queues = Map.empty, queue_root = ''queue_genesis_root''\<rparr>"

section \<open>Operations\<close>

definition queue_recalculate_root :: "string list \<Rightarrow> 'st queue_state \<Rightarrow> 'st queue_state" where
  "queue_recalculate_root ord qs =
     qs\<lparr>queue_root := sha_hex (concat (map (\<lambda>topic. topic # index_or [] (queues qs) topic) ord))\<rparr>"

definition queue_apply :: "(bytes \<Rightarrow> queue_payload result) \<Rightarrow> string list
    \<Rightarrow> 'st queue_state \<Rightarrow> bytes \<Rightarrow> 'st queue_state \<times> bytes result" where
  "queue_apply unmarshal ord qs commit_log =
    (case unmarshal commit_log of
       Inl err \<Rightarrow> (qs, Inl (WrapError ''dist-queue failed to unmarshal payload: '' err))
     | Inr payload \<Rightarrow>
        (let topic = qp_topic payload in
         if qp_action payload = action_enqueue then
           (let qs1 = queue_recalculate_root ord
                  (qs\<lparr>queues := (queues qs)(topic \<mapsto> index_or [] (queues qs) topic @ [qp_data payload])\<rparr>)
            in (qs1, Inr (queue_root qs1)))
         else if qp_action payload = action_dequeue then
           (case queues qs topic of
              None \<Rightarrow> (qs, Inl (NewError (''queue for topic '' @ topic @ '' is empty'')))
            | Some q \<Rightarrow>
                if length q = 0 then (qs, Inl (NewError (''queue for topic '' @ topic @ '' is empty'')))
                else (let qs1 = queue_recalculate_root ord
                            (qs\<lparr>queues := (queues qs)(topic \<mapsto> drop 1 q)\<rparr>)
                      in (qs1, Inr (queue_root qs1))))
         else (qs, Inl (NewError (''unsupported queue action: '' @ qp_action payload)))))"

definition queue_get_state_root :: "'st queue_state \<Rightarrow> bytes" where
  "queue_get_state_root qs = queue_root qs"

definition depth :: "'st queue_state \<Rightarrow> string \<Rightarrow> nat" where
  "depth qs topic = length (index_or [] (queues qs) topic)"

section \<open>Specification\<close>

text \<open>The contents of one topic, and what a payload does to it: append, drop the head, nothing.\<close>

definition topic_items :: "'st queue_state \<Rightarrow> string \<Rightarrow> bytes list" where
  "topic_items qs t = index_or [] (queues qs) t"

definition queue_spec :: "queue_payload \<Rightarrow> (string \<Rightarrow> bytes list) \<Rightarrow> (string \<Rightarrow> bytes list)" where
  "queue_spec p f =
     (if qp_action p = action_enqueue then f(qp_topic p := f (qp_topic p) @ [qp_data p])
      else if qp_action p = action_dequeue then f(qp_topic p := tl (f (qp_topic p)))
      else f)"

text \<open>The data a run of commits enqueues on a topic, in order.\<close>

definition enqueued :: "(bytes \<Rightarrow> queue_payload result) \<Rightarrow> string \<Rightarrow> bytes list \<Rightarrow> bytes list" where
  "enqueued unmarshal t cs = concat (map (\<lambda>c. case unmarshal c of Inl _ \<Rightarrow> []
     | Inr p \<Rightarrow> (if qp_action p = action_enqueue \<and> qp_topic p = t then [qp_data p] else [])) cs)"

text \<open>The number of dequeues of a topic that a run performs with success.\<close>

definition dequeue_count :: "(bytes \<Rightarrow> queue_payload result) \<Rightarrow> string \<Rightarrow> bytes \<Rightarrow> bytes result \<Rightarrow> nat" where
  "dequeue_count unmarshal t c res =
     (case (unmarshal c, res) of
        (Inr p, Inr _) \<Rightarrow> (if qp_action p = action_dequeue \<and> qp_topic p = t then 1 else 0)
      | _ \<Rightarrow> 0)"

fun dequeued :: "(bytes \<Rightarrow> queue_payload result) \<Rightarrow> string \<Rightarrow> 'st queue_state
    \<Rightarrow> (string list \<times> bytes) list \<Rightarrow> nat" where
  "dequeued unmarshal t qs [] = 0"
| "dequeued unmarshal t qs ((ord, c) # cs) =
     dequeue_count unmarshal t c (snd (queue_apply unmarshal ord qs c))
     + dequeued unmarshal t (fst (queue_apply unmarshal ord qs c)) cs"

section \<open>Lemmas\<close>

lemma action_enqueue_neq_dequeue [simp]:
  "action_enqueue \<noteq> action_dequeue" "action_dequeue \<noteq> action_enqueue"
  by (simp_all add: action_enqueue_def action_dequeue_def)

lemma queues_recalc [simp]: "queues (queue_recalculate_root ord qs) = queues qs"
  by (simp add: queue_recalculate_root_def)

lemma depth_topic_items: "depth qs t = length (topic_items qs t)"
  by (simp add: depth_def topic_items_def)

lemma topic_items_apply:
  "topic_items (fst (queue_apply unmarshal ord qs c)) =
     (case unmarshal c of Inl _ \<Rightarrow> topic_items qs | Inr p \<Rightarrow> queue_spec p (topic_items qs))"
  by (auto simp: queue_apply_def queue_spec_def topic_items_def Let_def index_or_def fun_eq_iff drop_Suc
      split: sum.splits option.splits)

text \<open>A dequeue succeeds exactly when the topic holds an item.\<close>

lemma dequeue_succeeds_iff:
  "unmarshal c = Inr p \<Longrightarrow> qp_action p = action_dequeue \<Longrightarrow>
     (\<exists>r. snd (queue_apply unmarshal ord qs c) = Inr r) \<longleftrightarrow> topic_items qs (qp_topic p) \<noteq> []"
  by (auto simp: queue_apply_def topic_items_def Let_def index_or_def split: option.splits)

interpretation queue: state_machine "queue_apply unmarshal" queue_get_state_root for unmarshal
proof
  fix e s c s' r
  assume "queue_apply unmarshal e s c = (s', Inr r)"
  then show "queue_get_state_root s' = r"
    by (auto simp: queue_apply_def queue_get_state_root_def Let_def split: sum.splits if_splits option.splits)
next
  fix e s c s' x
  assume "queue_apply unmarshal e s c = (s', Inl x)"
  then show "queue_get_state_root s' = queue_get_state_root s"
    by (auto simp: queue_apply_def queue_get_state_root_def Let_def split: sum.splits if_splits option.splits)
qed

lemma fifo_step:
  "\<exists>taken. length taken = dequeue_count unmarshal t c (snd (queue_apply unmarshal ord qs c)) \<and>
     topic_items qs t @ enqueued unmarshal t [c] = taken @ topic_items (fst (queue_apply unmarshal ord qs c)) t"
proof (cases "unmarshal c")
  case (Inl e)
  then show ?thesis by (simp add: topic_items_apply enqueued_def dequeue_count_def)
next
  case (Inr p)
  show ?thesis
  proof (cases "qp_action p = action_dequeue \<and> qp_topic p = t")
    case False
    with Inr show ?thesis
      by (auto simp: topic_items_apply enqueued_def dequeue_count_def queue_spec_def split: sum.splits)
  next
    case True
    then show ?thesis
    proof (cases "topic_items qs t")
      case Nil
      with Inr True dequeue_succeeds_iff [of unmarshal c p ord qs] have "\<exists>e. snd (queue_apply unmarshal ord qs c) = Inl e"
        by (cases "snd (queue_apply unmarshal ord qs c)") auto
      with Inr True Nil show ?thesis
        by (auto simp: topic_items_apply enqueued_def dequeue_count_def queue_spec_def)
    next
      case (Cons x xs)
      with Inr True dequeue_succeeds_iff [of unmarshal c p ord qs] have "\<exists>r. snd (queue_apply unmarshal ord qs c) = Inr r"
        by simp
      with Inr True Cons show ?thesis
        by (intro exI [of _ "[x]"])
           (auto simp: topic_items_apply enqueued_def dequeue_count_def queue_spec_def)
    qed
  qed
qed

lemma enqueued_Cons: "enqueued unmarshal t (c # cs) = enqueued unmarshal t [c] @ enqueued unmarshal t cs"
  by (simp add: enqueued_def)

lemma fifo_run:
  "\<exists>taken. length taken = dequeued unmarshal t qs cs \<and>
     topic_items qs t @ enqueued unmarshal t (map snd cs)
       = taken @ topic_items (run_commits (queue_apply unmarshal) qs cs) t"
proof (induction cs arbitrary: qs)
  case Nil
  then show ?case by (simp add: enqueued_def)
next
  case (Cons x cs)
  obtain ord c where x: "x = (ord, c)" by (cases x)
  obtain t1 where t1: "length t1 = dequeue_count unmarshal t c (snd (queue_apply unmarshal ord qs c))"
    "topic_items qs t @ enqueued unmarshal t [c] = t1 @ topic_items (fst (queue_apply unmarshal ord qs c)) t"
    using fifo_step by blast
  obtain t2 where t2: "length t2 = dequeued unmarshal t (fst (queue_apply unmarshal ord qs c)) cs"
    "topic_items (fst (queue_apply unmarshal ord qs c)) t @ enqueued unmarshal t (map snd cs)
       = t2 @ topic_items (run_commits (queue_apply unmarshal) (fst (queue_apply unmarshal ord qs c)) cs) t"
    using Cons.IH by blast
  have "topic_items qs t @ enqueued unmarshal t (map snd (x # cs))
      = (t1 @ t2) @ topic_items (run_commits (queue_apply unmarshal) qs (x # cs)) t"
    using t1(2) t2(2) by (metis append.assoc enqueued_Cons list.simps(9) prod.sel(2) run_commits.simps(2) x)
  with t1(1) t2(1) x show ?case by (intro exI [of _ "t1 @ t2"]) simp
qed

section \<open>Properties\<close>

text \<open>
  C13: every topic is a FIFO queue. After any run of commits from an empty service, what was
  enqueued on a topic is, in order, what the successful dequeues of the topic removed followed
  by what the topic still holds; so its depth is the number of enqueues less the number of
  successful dequeues, and nothing is lost, duplicated or reordered.
\<close>

theorem queue_is_fifo:
  "topic_items (run_commits (queue_apply unmarshal) (new_queue_state store) cs) t
     = drop (dequeued unmarshal t (new_queue_state store) cs) (enqueued unmarshal t (map snd cs))
   \<and> depth (run_commits (queue_apply unmarshal) (new_queue_state store) cs) t
       + dequeued unmarshal t (new_queue_state store) cs
     = length (enqueued unmarshal t (map snd cs))"
proof -
  obtain taken where taken: "length taken = dequeued unmarshal t (new_queue_state store) cs"
    "topic_items (new_queue_state store) t @ enqueued unmarshal t (map snd cs)
       = taken @ topic_items (run_commits (queue_apply unmarshal) (new_queue_state store) cs) t"
    using fifo_run by blast
  moreover have "topic_items (new_queue_state store) t = []"
    by (simp add: topic_items_def new_queue_state_def)
  ultimately show ?thesis by (simp add: depth_topic_items)
qed

text \<open>
  the root of the queue service depends on the order in which Go ranges over the topics.
  With one item on each of two topics both orders are legal; the roots they produce are digests
  of two different byte strings, so replicas agree on the root only if SHA-256 collides there.
\<close>

theorem queue_root_depends_on_order:
  "let qs = \<lparr>queue_storage = (), queues = [''a'' \<mapsto> [''x''], ''b'' \<mapsto> [''y'']], queue_root = []\<rparr>
   in iter_order (queues qs) [''a'', ''b''] \<and> iter_order (queues qs) [''b'', ''a'']
    \<and> queue_get_state_root (queue_recalculate_root [''a'', ''b''] qs) = fmt_x (sha256 ''axby'')
    \<and> queue_get_state_root (queue_recalculate_root [''b'', ''a''] qs) = fmt_x (sha256 ''byax'')"
  by (auto simp: Let_def iter_order_def queue_get_state_root_def queue_recalculate_root_def sha_hex_def)

end
