(* ===== verification/DistLock.thy ===== *)
theory DistLock
  imports Sha256 StateMachine
begin

text \<open>
  \<^verbatim>\<open>applications/dist-lock/lockstate.go\<close>: leases on named resources. \<open>lock_apply\<close> is \<^verbatim>\<open>Apply\<close>;
  its environment is the instant \<^verbatim>\<open>time.Now()\<close> returns and the order in which
  \<^verbatim>\<open>recalculateRoot\<close> ranges over the locks. Instants are nanoseconds on the clock that
  \<^verbatim>\<open>time.Now\<close> reads; \<^verbatim>\<open>time.Duration(ttl) * time.Millisecond\<close> is a 64-bit product and wraps.
  The lemmas show mutual exclusion of live leases and what acquire and release do on every
  branch; the last property shows that two replicas that apply the same commit at different
  local times can disagree.
\<close>

section \<open>Data\<close>

record lock_payload =
  lkp_action :: string
  lkp_resource :: string
  lkp_holder :: string
  lkp_ttl_ms :: int

definition action_acquire :: string where "action_acquire = ''ACQUIRE''"

definition action_release :: string where "action_release = ''RELEASE''"

record lock_info =
  li_holder :: string
  li_expires_at :: int

record 'st lock_state =
  lock_storage :: 'st
  locks :: "string \<rightharpoonup> lock_info"
  lock_root :: string

definition new_lock_state :: "'st \<Rightarrow> 'st lock_state" where
  "new_lock_state store =
     \<lparr>lock_storage = store, locks = Map.empty, lock_root = ''lock_genesis_root''\<rparr>"

section \<open>Operations\<close>

definition millisecond :: int where "millisecond = 1000000"

text \<open>\<^verbatim>\<open>now.Add(time.Duration(ttl) * time.Millisecond)\<close>.\<close>

definition lease_end :: "int \<Rightarrow> int \<Rightarrow> int" where
  "lease_end now ttl = now + wrap64 (ttl * millisecond)"

definition lock_recalculate_root :: "string list \<Rightarrow> 'st lock_state \<Rightarrow> 'st lock_state" where
  "lock_recalculate_root ord ls =
     ls\<lparr>lock_root := sha_hex (concat (map (\<lambda>res.
          [res, li_holder (index_or \<lparr>li_holder = [], li_expires_at = 0\<rparr> (locks ls) res)]) ord))\<rparr>"

definition lock_apply :: "(bytes \<Rightarrow> lock_payload result) \<Rightarrow> int \<times> string list
    \<Rightarrow> 'st lock_state \<Rightarrow> bytes \<Rightarrow> 'st lock_state \<times> bytes result" where
  "lock_apply unmarshal env ls commit_log =
    (case unmarshal commit_log of
       Inl err \<Rightarrow> (ls, Inl (WrapError ''dist-lock failed to unmarshal payload: '' err))
     | Inr payload \<Rightarrow>
        (let now = fst env; ord = snd env; res = lkp_resource payload in
         if lkp_action payload = action_acquire then
           (let refused = (case locks ls res of
                  None \<Rightarrow> None
                | Some current \<Rightarrow>
                    if now < li_expires_at current \<and> li_holder current \<noteq> lkp_holder payload
                    then Some current else None)
            in case refused of
                 Some current \<Rightarrow> (ls, Inl (NewError
                   (''resource '' @ res @ '' already locked by '' @ li_holder current)))
               | None \<Rightarrow>
                   (let ls1 = ls\<lparr>locks := (locks ls)(res \<mapsto>
                          \<lparr>li_holder = lkp_holder payload,
                           li_expires_at = lease_end now (lkp_ttl_ms payload)\<rparr>)\<rparr>;
                        ls2 = lock_recalculate_root ord ls1
                    in (ls2, Inr (lock_root ls2))))
         else if lkp_action payload = action_release then
           (case locks ls res of
              None \<Rightarrow> (ls, Inl (NewError (''resource '' @ res @ '' is not locked'')))
            | Some current \<Rightarrow>
                if li_holder current \<noteq> lkp_holder payload then
                  (ls, Inl (NewError (''unauthorized release attempt by '' @ lkp_holder payload @
                     '' for resource locked by '' @ li_holder current)))
                else
                  (let ls1 = ls\<lparr>locks := (locks ls)(res := None)\<rparr>;
                       ls2 = lock_recalculate_root ord ls1
                   in (ls2, Inr (lock_root ls2))))
         else (ls, Inl (NewError (''unsupported lock action: '' @ lkp_action payload)))))"

definition lock_get_state_root :: "'st lock_state \<Rightarrow> bytes" where
  "lock_get_state_root ls = lock_root ls"

definition is_locked :: "int \<Rightarrow> 'st lock_state \<Rightarrow> string \<Rightarrow> bool" where
  "is_locked now ls resource = (case locks ls resource of
      None \<Rightarrow> False
    | Some info \<Rightarrow> now < li_expires_at info)"

section \<open>Lemmas\<close>

lemma action_acquire_neq_release [simp]:
  "action_acquire \<noteq> action_release" "action_release \<noteq> action_acquire"
  by (simp_all add: action_acquire_def action_release_def)

lemma locks_recalc [simp]: "locks (lock_recalculate_root ord ls) = locks ls"
  by (simp add: lock_recalculate_root_def)

text \<open>Who may take a resource: it is free, its lease is over, or the holder renews.\<close>

definition may_acquire :: "int \<Rightarrow> 'st lock_state \<Rightarrow> string \<Rightarrow> string \<Rightarrow> bool" where
  "may_acquire now ls res holder \<longleftrightarrow>
     \<not> is_locked now ls res \<or> (\<exists>info. locks ls res = Some info \<and> li_holder info = holder)"

lemma lock_apply_acquire:
  assumes "unmarshal c = Inr p" and "lkp_action p = action_acquire"
    and "may_acquire now ls (lkp_resource p) (lkp_holder p)"
  shows "lock_apply unmarshal (now, ord) ls c =
     (let ls2 = lock_recalculate_root ord (ls\<lparr>locks := (locks ls)(lkp_resource p \<mapsto>
            \<lparr>li_holder = lkp_holder p, li_expires_at = lease_end now (lkp_ttl_ms p)\<rparr>)\<rparr>)
      in (ls2, Inr (lock_root ls2)))"
  using assms by (auto simp: lock_apply_def may_acquire_def is_locked_def Let_def split: option.splits)

lemma lock_apply_acquire_refused:
  assumes "unmarshal c = Inr p" and "lkp_action p = action_acquire"
    and "\<not> may_acquire now ls (lkp_resource p) (lkp_holder p)"
  shows "\<exists>info. locks ls (lkp_resource p) = Some info \<and> lock_apply unmarshal (now, ord) ls c =
     (ls, Inl (NewError (''resource '' @ lkp_resource p @ '' already locked by '' @ li_holder info)))"
  using assms by (auto simp: lock_apply_def may_acquire_def is_locked_def Let_def split: option.splits)

lemma lock_apply_error_unchanged:
  "lock_apply unmarshal env ls c = (ls', Inl e) \<Longrightarrow> ls' = ls"
  by (auto simp: lock_apply_def Let_def split: sum.splits if_splits option.splits)

interpretation lock: state_machine "lock_apply unmarshal" lock_get_state_root for unmarshal
proof
  fix e s c s' r
  assume "lock_apply unmarshal e s c = (s', Inr r)"
  then show "lock_get_state_root s' = r"
    by (auto simp: lock_apply_def lock_get_state_root_def Let_def split: sum.splits if_splits option.splits)
next
  fix e s c s' x
  assume "lock_apply unmarshal e s c = (s', Inl x)"
  then have "s' = s" by (rule lock_apply_error_unchanged)
  then show "lock_get_state_root s' = lock_get_state_root s" by simp
qed

text \<open>A commit of another holder during a live lease leaves the lease as it is.\<close>

lemma lease_survives_step:
  assumes "locks ls res = Some info" and "now < li_expires_at info"
    and "\<And>p. unmarshal c = Inr p \<Longrightarrow> lkp_resource p = res \<Longrightarrow> lkp_holder p \<noteq> li_holder info"
  shows "locks (fst (lock_apply unmarshal (now, ord) ls c)) res = Some info"
proof (cases "unmarshal c")
  case (Inl e)
  then show ?thesis using assms(1) by (simp add: lock_apply_def)
next
  case (Inr p)
  show ?thesis
  proof (cases "lkp_resource p = res")
    case True
    with Inr assms(3) have "lkp_holder p \<noteq> li_holder info" by simp
    with Inr True assms(1,2) show ?thesis
      by (simp add: lock_apply_def Let_def)
  next
    case False
    with Inr assms(1) show ?thesis
      by (simp add: lock_apply_def Let_def split: option.splits)
  qed
qed

section \<open>Properties\<close>

text \<open>
  C12: mutual exclusion. While a lease is live, no commits by other parties can take it away:
  after any run of commits that are applied before the lease ends and in which the holder does
  not touch the resource, the lease is exactly as it was, and an attempt of anyone else to
  acquire the resource is refused with an error and changes nothing.
\<close>

theorem live_lease_is_exclusive:
  assumes "locks ls res = Some info"
    and "\<forall>x \<in> set cs. fst (fst x) < li_expires_at info"
    and "\<forall>x \<in> set cs. \<forall>p. unmarshal (snd x) = Inr p \<longrightarrow> lkp_resource p = res \<longrightarrow> lkp_holder p \<noteq> li_holder info"
  shows "locks (run_commits (lock_apply unmarshal) ls cs) res = Some info
     \<and> (\<forall>now ord c p. now < li_expires_at info \<longrightarrow> unmarshal c = Inr p \<longrightarrow> lkp_action p = action_acquire \<longrightarrow>
          lkp_resource p = res \<longrightarrow> lkp_holder p \<noteq> li_holder info \<longrightarrow>
          lock_apply unmarshal (now, ord) (run_commits (lock_apply unmarshal) ls cs) c =
            (run_commits (lock_apply unmarshal) ls cs,
             Inl (NewError (''resource '' @ res @ '' already locked by '' @ li_holder info))))"
proof -
  have kept: "locks (run_commits (lock_apply unmarshal) ls cs) res = Some info"
    using assms
  proof (induction cs arbitrary: ls)
    case Nil
    then show ?case by simp
  next
    case (Cons x cs)
    obtain now ord c where x: "x = ((now, ord), c)" by (metis prod.collapse)
    have "locks (fst (lock_apply unmarshal (now, ord) ls c)) res = Some info"
      using Cons.prems x by (intro lease_survives_step) auto
    with Cons.prems x show ?case using Cons.IH [of "fst (lock_apply unmarshal (now, ord) ls c)"] by simp
  qed
  then show ?thesis by (simp add: lock_apply_def Let_def)
qed

theorem live_lease_is_exclusive_witness:
  "locks (run_commits (lock_apply (\<lambda>c. Inr \<lparr>lkp_action = ''ACQUIRE'', lkp_resource = ''db'', lkp_holder = c, lkp_ttl_ms = 5\<rparr>))
      ((new_lock_state ())\<lparr>locks := [''db'' \<mapsto> \<lparr>li_holder = ''n1'', li_expires_at = 100\<rparr>]\<rparr>)
      [((7, [''db'']), ''n2''), ((99, [''db'']), ''n3'')]) ''db'' = Some \<lparr>li_holder = ''n1'', li_expires_at = 100\<rparr>"
  using live_lease_is_exclusive
    [of "(new_lock_state ())\<lparr>locks := [''db'' \<mapsto> \<lparr>li_holder = ''n1'', li_expires_at = 100\<rparr>]\<rparr>" "''db''"
       "\<lparr>li_holder = ''n1'', li_expires_at = 100\<rparr>" "[((7, [''db'']), ''n2''), ((99, [''db'']), ''n3'')]"
       "\<lambda>c. Inr \<lparr>lkp_action = ''ACQUIRE'', lkp_resource = ''db'', lkp_holder = c, lkp_ttl_ms = 5\<rparr>"]
  by simp

text \<open>
  acquire and release. An acquire succeeds exactly when the resource is free, its lease is
  over or the caller holds it, and then the caller holds it until the lease end; a release
  succeeds exactly when the caller holds the resource, expired or not, and then the resource is
  free. No other resource is touched, and an error changes nothing.
\<close>

theorem lock_acquire_release:
  assumes "unmarshal c = Inr p" and "lkp_action p \<in> {action_acquire, action_release}"
  shows "let (ls', res) = lock_apply unmarshal (now, ord) ls c; r = lkp_resource p; h = lkp_holder p;
             granted = (if lkp_action p = action_acquire then may_acquire now ls r h
                        else (\<exists>info. locks ls r = Some info \<and> li_holder info = h))
         in (succeeded res \<longleftrightarrow> granted)
          \<and> (granted \<longrightarrow> locks ls' = (if lkp_action p = action_acquire
                then (locks ls)(r \<mapsto> \<lparr>li_holder = h, li_expires_at = lease_end now (lkp_ttl_ms p)\<rparr>)
                else (locks ls)(r := None)))
          \<and> (\<not> granted \<longrightarrow> ls' = ls)"
  using assms
  by (auto simp: lock_apply_def may_acquire_def is_locked_def Let_def split: option.splits)

theorem lock_acquire_release_witness:
  "locks (fst (lock_apply (\<lambda>c. Inr \<lparr>lkp_action = ''RELEASE'', lkp_resource = ''db'', lkp_holder = c, lkp_ttl_ms = 0\<rparr>)
      (200, []) ((new_lock_state ())\<lparr>locks := [''db'' \<mapsto> \<lparr>li_holder = ''n1'', li_expires_at = 100\<rparr>]\<rparr>) ''n1'')) = Map.empty"
  using lock_acquire_release
    [of "\<lambda>c. Inr \<lparr>lkp_action = ''RELEASE'', lkp_resource = ''db'', lkp_holder = c, lkp_ttl_ms = 0\<rparr>" "''n1''"
       "\<lparr>lkp_action = ''RELEASE'', lkp_resource = ''db'', lkp_holder = ''n1'', lkp_ttl_ms = 0\<rparr>" 200 "[]"
       "(new_lock_state ())\<lparr>locks := [''db'' \<mapsto> \<lparr>li_holder = ''n1'', li_expires_at = 100\<rparr>]\<rparr>"]
  by (simp add: action_release_def action_acquire_def Let_def split: prod.splits)

text \<open>
  leases are judged by each replica's own clock, so the lock service is not deterministic.
  There are a state, a commit and an iteration order under which one replica, whose clock reads
  the last instant of the lease, refuses the commit, and another, one nanosecond later, accepts
  it: their lock tables then differ.
\<close>

theorem lock_replicas_can_diverge:
  "\<exists>(ls :: unit lock_state) c unmarshal now ord.
     \<not> succeeded (snd (lock_apply unmarshal (now, ord) ls c)) \<and>
     succeeded (snd (lock_apply unmarshal (now + 1, ord) ls c)) \<and>
     locks (fst (lock_apply unmarshal (now, ord) ls c)) \<noteq> locks (fst (lock_apply unmarshal (now + 1, ord) ls c)) \<and>
     iter_order (locks ls) ord"
proof -
  let ?ls = "(new_lock_state ())\<lparr>locks := [''db'' \<mapsto> \<lparr>li_holder = ''n1'', li_expires_at = 100\<rparr>]\<rparr>"
  let ?u = "\<lambda>c. Inr \<lparr>lkp_action = ''ACQUIRE'', lkp_resource = ''db'', lkp_holder = ''n2'', lkp_ttl_ms = 5\<rparr>
     :: lock_payload result"
  have "lock_apply ?u (99, [''db'']) ?ls [] =
      (?ls, Inl (NewError (''resource '' @ ''db'' @ '' already locked by '' @ ''n1'')))"
    by (simp add: lock_apply_def action_acquire_def)
  moreover have "locks (fst (lock_apply ?u (99 + 1, [''db'']) ?ls [])) ''db'' =
      Some \<lparr>li_holder = ''n2'', li_expires_at = 5000100\<rparr> \<and> succeeded (snd (lock_apply ?u (99 + 1, [''db'']) ?ls []))"
    by (simp add: lock_apply_def action_acquire_def Let_def lease_end_def millisecond_def
        in_int64_def int64_min_def int64_max_def)
  moreover have "iter_order (locks ?ls) [''db'']" by (simp add: iter_order_def)
  ultimately show ?thesis
    by (intro exI [of _ ?ls] exI [of _ "[]"] exI [of _ ?u] exI [of _ 99] exI [of _ "[''db'']"]) auto
qed

text \<open>
  a lease whose length in nanoseconds overflows 64 bits is over before it starts. Its
  holder is told that the lock was acquired, but the resource is not locked.
\<close>

theorem long_lease_is_not_held:
  "let p = \<lparr>lkp_action = action_acquire, lkp_resource = r, lkp_holder = h, lkp_ttl_ms = 2 ^ 63 div millisecond + 1\<rparr>;
       (ls', res) = lock_apply (\<lambda>_. Inr p) (now, ord) (new_lock_state store) c
   in succeeded res \<and> in_int64 (lkp_ttl_ms p) \<and> 0 < lkp_ttl_ms p \<and> \<not> is_locked now ls' r"
  by (simp add: lock_apply_def new_lock_state_def Let_def is_locked_def lease_end_def millisecond_def
      wrap64_def in_int64_def int64_min_def int64_max_def)

end
