(* ===== verification/Blocks.thy ===== *)
theory Blocks
  imports Sha256 Storage StateMachine
begin

text \<open>
  The chain's data types (\<^verbatim>\<open>core/types/types.go\<close>), the proof-of-work loop
  (\<^verbatim>\<open>modules/consensus/pow.go\<close>) and the chain state machine
  (\<^verbatim>\<open>applications/sovereign-chain/state.go\<close>). An amount is the bit pattern of its
  \<^verbatim>\<open>float64\<close>, a time is an instant in nanoseconds with the offset of its zone and, when \<^verbatim>\<open>time.Now\<close>
  made it, a monotonic reading; how \<^verbatim>\<open>Time.String\<close> renders it is the argument
  \<open>time_string\<close>, and \<open>go_time_string\<close> of BlockJson is the concrete one, for a given abbreviation of the
  zone. The mining loop may run for ever: it is a partial function whose \<open>None\<close> is not returning,
  and the context it polls is a predicate on the iteration number.
\<close>

section \<open>Transactions and blocks\<close>

text \<open>
  A \<^verbatim>\<open>time.Time\<close>: nanoseconds since the Unix epoch, the seconds its zone is ahead of UTC, and the
  monotonic reading, which \<^verbatim>\<open>Time.String\<close> prints and JSON does not carry.
\<close>

record go_time =
  tm_instant :: int
  tm_offset :: int
  tm_mono :: "int option"

record transaction =
  tx_id :: string
  tx_sender :: string
  tx_recipient :: string
  tx_amount :: "64 word"
  tx_timestamp :: go_time

record block =
  bl_index :: int
  bl_timestamp :: go_time
  bl_transactions :: "transaction list"
  bl_prev_hash :: string
  bl_hash :: string
  bl_nonce :: int

definition calculate_hash :: "(go_time \<Rightarrow> string) \<Rightarrow> block \<Rightarrow> string" where
  "calculate_hash time_string b =
     sha_hex [fmt_d (bl_index b) @ time_string (bl_timestamp b) @ bl_prev_hash b @ fmt_d (bl_nonce b)]"

text \<open>
  the hash of a block does not cover its transactions: replacing them leaves the hash, and
  with it the proof of work and the chain root, as they were.
\<close>

theorem block_hash_ignores_transactions:
  "calculate_hash time_string (b\<lparr>bl_transactions := txs\<rparr>) = calculate_hash time_string b"
  by (simp add: calculate_hash_def)

section \<open>Proof of work\<close>

text \<open>\<^verbatim>\<open>strings.Repeat\<close> panics on a negative count.\<close>

definition pow_target :: "int \<Rightarrow> string go_call" where
  "pow_target difficulty = (if difficulty < 0 then Panic else Return (replicate (nat difficulty) (CHR ''0'')))"

text \<open>
  The loop body at iteration \<open>i\<close>: the context first (the \<^verbatim>\<open>default\<close> case runs only when it is not
  done; \<open>ctx_err\<close> is what \<^verbatim>\<open>ctx.Err()\<close> then returns), then the hash test, then the nonce.
\<close>

partial_function (option) mine_loop :: "(go_time \<Rightarrow> string) \<Rightarrow> go_error \<Rightarrow> (nat \<Rightarrow> bool) \<Rightarrow> string \<Rightarrow> nat \<Rightarrow> block
    \<Rightarrow> (block \<times> go_error option) option" where
  "mine_loop time_string ctx_err ctx_done target i b =
     (if ctx_done i then Some (b, Some ctx_err)
      else (let hash = calculate_hash time_string b
            in if has_prefix hash target then Some (b\<lparr>bl_hash := hash\<rparr>, None)
               else mine_loop time_string ctx_err ctx_done target (Suc i)
                      (b\<lparr>bl_nonce := wrap64 (bl_nonce b + 1)\<rparr>)))"

definition mine_block :: "(go_time \<Rightarrow> string) \<Rightarrow> go_error \<Rightarrow> (nat \<Rightarrow> bool) \<Rightarrow> int \<Rightarrow> block
    \<Rightarrow> (block \<times> go_error option) option go_call" where
  "mine_block time_string ctx_err ctx_done difficulty b =
     (case pow_target difficulty of
        Panic \<Rightarrow> Panic
      | Return target \<Rightarrow> Return (mine_loop time_string ctx_err ctx_done target 0 b))"

text \<open>The block as it stands when the loop has tried \<open>n\<close> nonces.\<close>

definition nonce_after :: "block \<Rightarrow> nat \<Rightarrow> block" where
  "nonce_after b n = b\<lparr>bl_nonce := (if n = 0 then bl_nonce b else wrap64 (bl_nonce b + int n))\<rparr>"

definition solves :: "(go_time \<Rightarrow> string) \<Rightarrow> string \<Rightarrow> block \<Rightarrow> bool" where
  "solves time_string target b \<longleftrightarrow> has_prefix (calculate_hash time_string b) target"

lemma wrap64_add: "wrap64 (wrap64 x + y) = wrap64 (x + y)"
proof -
  have "((x + 2 ^ 63) mod 2 ^ 64 - 2 ^ 63 + y + 2 ^ 63) mod 2 ^ 64 = (((x + 2 ^ 63) mod 2 ^ 64) + y) mod (2 ^ 64 :: int)"
    by (simp add: algebra_simps)
  also have "\<dots> = (x + y + 2 ^ 63) mod 2 ^ 64"
    by (simp add: mod_simps algebra_simps)
  finally show ?thesis by (simp only: wrap64_def)
qed

lemma nonce_after_0 [simp]: "nonce_after b 0 = b"
  by (simp add: nonce_after_def)

lemma nonce_after_Suc: "nonce_after (b\<lparr>bl_nonce := wrap64 (bl_nonce b + 1)\<rparr>) n = nonce_after b (Suc n)"
  using wrap64_add [of "bl_nonce b + 1" "int n"] by (simp add: nonce_after_def algebra_simps)

text \<open>
  The loop stops at the first iteration at which the context is done or the current nonce
  solves the block; the result is decided by which of the two it was.
\<close>

lemma mine_loop_stops:
  assumes "ctx_done (i + n) \<or> solves time_string target (nonce_after b n)"
    and "\<And>m. m < n \<Longrightarrow> \<not> ctx_done (i + m) \<and> \<not> solves time_string target (nonce_after b m)"
  shows "mine_loop time_string ctx_err ctx_done target i b =
     (if ctx_done (i + n) then Some (nonce_after b n, Some ctx_err)
      else Some ((nonce_after b n)\<lparr>bl_hash := calculate_hash time_string (nonce_after b n)\<rparr>, None))"
  using assms
proof (induction n arbitrary: i b)
  case 0
  then show ?case by (subst mine_loop.simps) (auto simp: solves_def Let_def)
next
  case (Suc n)
  let ?b = "b\<lparr>bl_nonce := wrap64 (bl_nonce b + 1)\<rparr>"
  from Suc.prems(2) [of 0] have now: "\<not> ctx_done i" "\<not> has_prefix (calculate_hash time_string b) target"
    by (simp_all add: solves_def)
  have "mine_loop time_string ctx_err ctx_done target (Suc i) ?b =
     (if ctx_done (Suc i + n) then Some (nonce_after ?b n, Some ctx_err)
      else Some ((nonce_after ?b n)\<lparr>bl_hash := calculate_hash time_string (nonce_after ?b n)\<rparr>, None))"
  proof (rule Suc.IH)
    show "ctx_done (Suc i + n) \<or> solves time_string target (nonce_after ?b n)"
      using Suc.prems(1) by (simp add: nonce_after_Suc)
    show "\<not> ctx_done (Suc i + m) \<and> \<not> solves time_string target (nonce_after ?b m)" if "m < n" for m
      using Suc.prems(2) [of "Suc m"] that by (simp add: nonce_after_Suc)
  qed
  with now show ?case by (subst mine_loop.simps) (simp add: Let_def nonce_after_Suc)
qed

text \<open>
  C17: mining. With a difficulty that is not negative the loop returns as soon as it reaches a
  nonce whose block hash starts with that many zeros, provided the context was not done before;
  the returned block differs from the argument in nonce and hash only, its hash is its own hash,
  and every nonce tried before it fails. If the context is done first, the block is returned
  without a hash and with the context's error.
\<close>

theorem mine_block_finds_first_solution:
  assumes "0 \<le> difficulty"
    and "ctx_done n \<or> solves time_string (replicate (nat difficulty) (CHR ''0'')) (nonce_after b n)"
    and "\<forall>m<n. \<not> ctx_done m \<and> \<not> solves time_string (replicate (nat difficulty) (CHR ''0'')) (nonce_after b m)"
  shows "mine_block time_string ctx_err ctx_done difficulty b = Return (Some
     (if ctx_done n then (nonce_after b n, Some ctx_err)
      else ((nonce_after b n)\<lparr>bl_hash := calculate_hash time_string (nonce_after b n)\<rparr>, None)))"
  using mine_loop_stops [of ctx_done 0 n time_string "replicate (nat difficulty) (CHR ''0'')" b] assms
  by (simp add: mine_block_def pow_target_def)

theorem mine_block_finds_first_solution_witness:
  "\<forall>b. mine_block (\<lambda>_. ''t'') (NewError ''canceled'') (\<lambda>i. i = 2) 65 b
       = Return (Some (b\<lparr>bl_nonce := wrap64 (bl_nonce b + 2)\<rparr>, Some (NewError ''canceled'')))
   \<and> mine_block (\<lambda>_. ''t'') (NewError ''canceled'') (\<lambda>_. False) 0 b
       = Return (Some (b\<lparr>bl_hash := calculate_hash (\<lambda>_. ''t'') b\<rparr>, None))"
proof
  fix b :: block
  have no: "\<not> solves (\<lambda>_. ''t'') (replicate (nat 65) (CHR ''0'')) c" for c
  proof
    assume "solves (\<lambda>_. ''t'') (replicate (nat 65) (CHR ''0'')) c"
    then have "take 65 (calculate_hash (\<lambda>_. ''t'') c) = replicate 65 (CHR ''0'')" by (simp add: solves_def has_prefix_def)
    then have "length (take 65 (calculate_hash (\<lambda>_. ''t'') c)) = 65" by (simp only: length_replicate)
    then show False by (simp add: calculate_hash_def)
  qed
  have two: "nonce_after b 2 = b\<lparr>bl_nonce := wrap64 (bl_nonce b + 2)\<rparr>" by (simp add: nonce_after_def)
  show "mine_block (\<lambda>_. ''t'') (NewError ''canceled'') (\<lambda>i. i = 2) 65 b
       = Return (Some (b\<lparr>bl_nonce := wrap64 (bl_nonce b + 2)\<rparr>, Some (NewError ''canceled'')))
   \<and> mine_block (\<lambda>_. ''t'') (NewError ''canceled'') (\<lambda>_. False) 0 b
       = Return (Some (b\<lparr>bl_hash := calculate_hash (\<lambda>_. ''t'') b\<rparr>, None))"
    using mine_block_finds_first_solution [of 65 "\<lambda>i. i = 2" 2 "\<lambda>_. ''t''" b "NewError ''canceled''"] no
      mine_block_finds_first_solution [of 0 "\<lambda>_. False" 0 "\<lambda>_. ''t''" b "NewError ''canceled''"]
    by (simp add: two) (simp add: solves_def has_prefix_def)
qed

section \<open>The chain state machine\<close>

record 'st chain_state =
  chain_storage :: 'st
  chain_root :: string

definition new_chain_state :: "'st \<Rightarrow> 'st chain_state" where
  "new_chain_state store = \<lparr>chain_storage = store, chain_root = ''genesis_root''\<rparr>"

definition block_key :: "int \<Rightarrow> bytes" where
  "block_key i = ''state_block_'' @ fmt_d i"

definition chain_apply :: "'st storage_api \<Rightarrow> (bytes \<Rightarrow> block result) \<Rightarrow> unit
    \<Rightarrow> 'st chain_state \<Rightarrow> bytes \<Rightarrow> 'st chain_state \<times> bytes result" where
  "chain_apply api unmarshal env cs commit_log =
    (case unmarshal commit_log of
       Inl err \<Rightarrow> (cs, Inl (WrapError ''state machine failed to unmarshal commit: '' err))
     | Inr block \<Rightarrow>
        (let key = block_key (bl_index block);
             (st, err) = api_put api (chain_storage cs) key commit_log;
             cs1 = cs\<lparr>chain_storage := st\<rparr>
         in case err of
              Some e \<Rightarrow> (cs1, Inl (WrapError ''state persistence error: '' e))
            | None \<Rightarrow>
                (let cs2 = cs1\<lparr>chain_root := sha_hex [chain_root cs1 @ bl_hash block]\<rparr>
                 in (cs2, Inr (chain_root cs2)))))"

definition chain_get_state_root :: "'st chain_state \<Rightarrow> bytes" where
  "chain_get_state_root cs = chain_root cs"

lemma block_key_inject [simp]: "block_key i = block_key j \<longleftrightarrow> i = j"
  by (simp add: block_key_def)

interpretation chain: deterministic_machine "chain_apply api unmarshal" chain_get_state_root
  "\<lambda>_ _ _. True" for api unmarshal
  by unfold_locales
     (auto simp: chain_apply_def chain_get_state_root_def Let_def
       split: sum.splits prod.splits option.splits)

text \<open>The root a list of block hashes chains up to, and the last commit that names an index.\<close>

definition hash_chain :: "string \<Rightarrow> string list \<Rightarrow> string" where
  "hash_chain = foldl (\<lambda>root h. sha_hex [root @ h])"

definition decoded_blocks :: "(bytes \<Rightarrow> block result) \<Rightarrow> bytes list \<Rightarrow> (bytes \<times> block) list" where
  "decoded_blocks unmarshal cs =
     concat (map (\<lambda>c. case unmarshal c of Inl _ \<Rightarrow> [] | Inr b \<Rightarrow> [(c, b)]) cs)"

definition stored_blocks :: "(bytes \<times> block) list \<Rightarrow> (bytes \<rightharpoonup> bytes) \<Rightarrow> (bytes \<rightharpoonup> bytes)" where
  "stored_blocks bs m = foldl (\<lambda>m (c, b). m(block_key (bl_index b) \<mapsto> c)) m bs"

lemma chain_apply_memory:
  "unmarshal c = Inl e \<Longrightarrow> fst (chain_apply memory_api unmarshal u cs c) = cs"
  "unmarshal c = Inr b \<Longrightarrow> fst (chain_apply memory_api unmarshal u cs c) =
     \<lparr>chain_storage = \<lparr>mem_data = (mem_data (chain_storage cs))(block_key (bl_index b) \<mapsto> c)\<rparr>,
      chain_root = sha_hex [chain_root cs @ bl_hash b]\<rparr>"
  by (simp_all add: chain_apply_def Let_def memory_put_def)

lemma decoded_blocks_Cons:
  "decoded_blocks unmarshal (c # cs) =
     (case unmarshal c of Inl _ \<Rightarrow> [] | Inr b \<Rightarrow> [(c, b)]) @ decoded_blocks unmarshal cs"
  by (simp add: decoded_blocks_def)

lemma chain_run:
  "chain_root (run_commits (chain_apply memory_api unmarshal) cs xs)
     = hash_chain (chain_root cs) (map (bl_hash \<circ> snd) (decoded_blocks unmarshal (map snd xs)))
   \<and> mem_data (chain_storage (run_commits (chain_apply memory_api unmarshal) cs xs))
     = stored_blocks (decoded_blocks unmarshal (map snd xs)) (mem_data (chain_storage cs))"
proof (induction xs arbitrary: cs)
  case Nil
  then show ?case by (simp add: hash_chain_def decoded_blocks_def stored_blocks_def)
next
  case (Cons x xs)
  obtain e c where x: "x = (e, c)" by (cases x)
  show ?case
    by (cases "unmarshal c")
       (simp_all add: x Cons.IH chain_apply_memory decoded_blocks_Cons hash_chain_def stored_blocks_def fun_upd_def)
qed

text \<open>
  the chain state after any run of commits on the in-memory storage: the root is the hash
  chain over the hashes of the blocks that decoded, in order, starting from the genesis root,
  and the storage holds under each block index the last commit with that index.
\<close>

theorem chain_state_after_run:
  "chain_get_state_root (run_commits (chain_apply memory_api unmarshal) (new_chain_state new_memory_storage) xs)
     = hash_chain ''genesis_root'' (map (bl_hash \<circ> snd) (decoded_blocks unmarshal (map snd xs)))
   \<and> mem_data (chain_storage (run_commits (chain_apply memory_api unmarshal) (new_chain_state new_memory_storage) xs))
       (block_key i)
     = map_option fst (find (\<lambda>(c, b). bl_index b = i) (rev (decoded_blocks unmarshal (map snd xs))))"
proof -
  have "stored_blocks bs m (block_key i) =
      (case find (\<lambda>(c, b). bl_index b = i) (rev bs) of None \<Rightarrow> m (block_key i) | Some (c, b) \<Rightarrow> Some c)" for bs m
    by (induction bs rule: rev_induct) (auto simp: stored_blocks_def split: option.splits)
  then show ?thesis
    by (auto simp: chain_run new_chain_state_def new_memory_storage_def chain_get_state_root_def
        split: option.splits)
qed

end
