(* ===== verification/MerkleState.thy ===== *)
theory MerkleState
  imports Sha256 Storage
begin

text \<open>
  \<^verbatim>\<open>applications/sovereign-chain/merkle_state.go\<close>: the authenticated key-value state. A batch
  of changes is stored, its keys are sorted, each pair is hashed to a leaf, and the leaves are
  folded pairwise into a root. The changes of a batch are a map; the order in which Go ranges
  over it is the argument \<open>ord\<close>. The lemmas show what the root is (independent of that order, 32
  bytes long, the recursive halving tree on \<open>2 ^ n\<close> leaves) and what proofs are worth: they
  verify for a batch of one key and, for larger batches, only if key and value are the two digests
  the root is made of, or SHA-256 collides.
\<close>

section \<open>Data and operations\<close>

record merkle_proof_node =
  mpn_hash :: bytes
  mpn_is_left :: bool

record 'st merkle_state =
  merkle_storage :: 'st
  kv_entries :: "string \<rightharpoonup> bytes"

definition new_merkle_state :: "'st \<Rightarrow> 'st merkle_state" where
  "new_merkle_state store = \<lparr>merkle_storage = store, kv_entries = Map.empty\<rparr>"

text \<open>One level of the tree: pairs are joined, a last odd node is joined with itself.\<close>

fun next_level :: "bytes list \<Rightarrow> bytes list" where
  "next_level [] = []"
| "next_level [h] = [sha256 (h @ h)]"
| "next_level (h # h' # hs) = sha256 (h @ h') # next_level hs"

lemma length_next_level: "length (next_level hs) = (length hs + 1) div 2"
  by (induction hs rule: next_level.induct) auto

function compute_merkle_root :: "bytes list \<Rightarrow> bytes" where
  "compute_merkle_root hashes =
     (if length hashes = 0 then sha256 ''empty_state''
      else if length hashes = 1 then hashes ! 0
      else compute_merkle_root (next_level hashes))"
  by pat_completeness auto
termination
proof (relation "measure length")
  fix hashes :: "bytes list"
  assume "length hashes \<noteq> 0" and "length hashes \<noteq> 1"
  then have "(length hashes + 1) div 2 < length hashes" by linarith
  then show "(next_level hashes, hashes) \<in> measure length" by (simp add: length_next_level)
qed simp

declare compute_merkle_root.simps [simp del]

text \<open>The body of the loop over the changes: memory first, the storage's error is discarded.\<close>

definition store_change :: "'st storage_api \<Rightarrow> (string \<rightharpoonup> bytes) \<Rightarrow> string \<Rightarrow> 'st merkle_state \<Rightarrow> 'st merkle_state" where
  "store_change api changes k m =
     (let v = index_or [] changes k
      in m\<lparr>kv_entries := (kv_entries m)(k \<mapsto> v),
           merkle_storage := fst (api_put api (merkle_storage m) k v)\<rparr>)"

definition apply_changes :: "'st storage_api \<Rightarrow> string list \<Rightarrow> 'st merkle_state \<Rightarrow> (string \<rightharpoonup> bytes)
    \<Rightarrow> 'st merkle_state \<times> bytes result" where
  "apply_changes api ord m changes =
     (let m1 = fold (store_change api changes) ord m;
          keys = sort ord;
          leaf_hashes = map (\<lambda>k. sha256 (k @ index_or [] (kv_entries m1) k)) keys
      in (m1, Inr (compute_merkle_root leaf_hashes)))"

definition get_proof :: "'st merkle_state \<Rightarrow> bytes \<Rightarrow> (merkle_proof_node list \<times> bytes) result" where
  "get_proof m key = (case kv_entries m key of
      None \<Rightarrow> Inl (NewError ''key not found in state'')
    | Some val \<Rightarrow> Inr ([\<lparr>mpn_hash = sha256 (key @ val), mpn_is_left = True\<rparr>], val))"

definition verify_proof :: "bytes \<Rightarrow> bytes \<Rightarrow> merkle_proof_node list \<Rightarrow> bytes \<Rightarrow> bool" where
  "verify_proof key val proof root = (if length proof = 0 then False else sha256 (key @ val) = root)"

section \<open>Lemmas\<close>

lemma merkle_root_empty [simp]: "compute_merkle_root [] = sha256 ''empty_state''"
  by (simp add: compute_merkle_root.simps)

lemma merkle_root_single [simp]: "compute_merkle_root [h] = h"
  by (simp add: compute_merkle_root.simps)

lemma merkle_root_step: "2 \<le> length hs \<Longrightarrow> compute_merkle_root hs = compute_merkle_root (next_level hs)"
  by (subst compute_merkle_root.simps) simp

lemma merkle_root_pair: "compute_merkle_root [a, b] = sha256 (a @ b)"
  by (simp add: merkle_root_step)

lemma next_level_append: "even (length xs) \<Longrightarrow> next_level (xs @ ys) = next_level xs @ next_level ys"
  by (induction xs rule: next_level.induct) auto

lemma length_in_next_level: "h \<in> set (next_level hs) \<Longrightarrow> length h = 32"
  by (induction hs rule: next_level.induct) auto

lemma length_merkle_root:
  "\<forall>h \<in> set hs. length h = 32 \<Longrightarrow> length (compute_merkle_root hs) = 32"
proof (induction hs rule: compute_merkle_root.induct)
  case (1 hs)
  consider "hs = []" | h where "hs = [h]" | "2 \<le> length hs"
    by (cases hs rule: next_level.cases) auto
  then show ?case
  proof cases
    case 3
    with "1.IH" have "length (compute_merkle_root (next_level hs)) = 32"
      using length_in_next_level by (metis length_0_conv length_Suc_conv_rev list.size(3) not_less_eq_eq numeral_2_eq_2 One_nat_def zero_neq_numeral le_zero_eq)
    with 3 show ?thesis by (simp add: merkle_root_step)
  qed (use "1.prems" in simp_all)
qed

lemma kv_entries_store_changes:
  "kv_entries (fold (store_change api changes) ord m) k =
     (if k \<in> set ord then Some (index_or [] changes k) else kv_entries m k)"
  by (induction ord arbitrary: m) (simp_all add: store_change_def Let_def)

definition leaves :: "(string \<rightharpoonup> bytes) \<Rightarrow> bytes list" where
  "leaves changes = map (\<lambda>k. sha256 (k @ index_or [] changes k)) (sorted_list_of_set (dom changes))"

lemma apply_changes_root:
  assumes "iter_order changes ord"
  shows "snd (apply_changes api ord m changes) = Inr (compute_merkle_root (leaves changes))"
proof -
  have keys: "sort ord = sorted_list_of_set (dom changes)" and dom: "set ord = dom changes"
    using assms by (simp_all add: sort_iter_order iter_order_def)
  have "map (\<lambda>k. sha256 (k @ index_or [] (kv_entries (fold (store_change api changes) ord m)) k)) (sort ord)
      = leaves changes"
    unfolding leaves_def keys [symmetric] by (rule map_cong) (simp_all add: index_or_def kv_entries_store_changes)
  then show ?thesis by (simp add: apply_changes_def Let_def)
qed

lemma kv_entries_apply_changes:
  "iter_order changes ord \<Longrightarrow> kv_entries (fst (apply_changes api ord m changes)) = kv_entries m ++ changes"
  by (auto simp: apply_changes_def Let_def kv_entries_store_changes iter_order_def map_add_def fun_eq_iff
      split: option.splits)

section \<open>Properties\<close>

text \<open>
  a batch of changes. The state afterwards is the old state overridden by the changes; the
  returned root is the Merkle root of the leaves of the batch in ascending key order, whatever
  order Go ranged over the changes in; it is 32 bytes long; and it does not depend on the state
  the batch was applied to, so it authenticates the batch and not the state.
\<close>

theorem apply_changes_correct:
  assumes "iter_order changes ord"
  shows "kv_entries (fst (apply_changes api ord m changes)) = kv_entries m ++ changes
     \<and> snd (apply_changes api ord m changes) = Inr (compute_merkle_root (leaves changes))
     \<and> length (compute_merkle_root (leaves changes)) = 32"
  using assms by (simp add: kv_entries_apply_changes apply_changes_root length_merkle_root leaves_def)

theorem apply_changes_correct_witness:
  "kv_entries (fst (apply_changes memory_api [''b'', ''a''] (new_merkle_state new_memory_storage)
      [''a'' \<mapsto> ''1'', ''b'' \<mapsto> ''2''])) = [''a'' \<mapsto> ''1'', ''b'' \<mapsto> ''2'']"
  using apply_changes_correct [of "[''a'' \<mapsto> ''1'', ''b'' \<mapsto> ''2'']" "[''b'', ''a'']" memory_api
      "new_merkle_state new_memory_storage"]
  by (auto simp: iter_order_def new_merkle_state_def)

text \<open>
  C15: the level-by-level loop computes the recursive tree. For two halves of \<open>2 ^ n\<close> leaves each
  the root is the hash of the roots of the halves.
\<close>

theorem merkle_root_is_binary_tree:
  assumes "length xs = 2 ^ n" and "length ys = 2 ^ n"
  shows "compute_merkle_root (xs @ ys) = sha256 (compute_merkle_root xs @ compute_merkle_root ys)"
  using assms
proof (induction n arbitrary: xs ys)
  case 0
  then obtain x y where "xs = [x]" "ys = [y]" by (auto simp: length_Suc_conv)
  then show ?case by (simp add: merkle_root_pair)
next
  case (Suc n)
  have half: "length (next_level zs) = 2 ^ n" if "length zs = 2 ^ Suc n" for zs
    using that by (simp add: length_next_level)
  have two: "2 \<le> (2 :: nat) ^ Suc n" by simp
  have "compute_merkle_root (xs @ ys) = compute_merkle_root (next_level xs @ next_level ys)"
    using Suc.prems two by (subst merkle_root_step) (auto simp: next_level_append)
  also have "\<dots> = sha256 (compute_merkle_root (next_level xs) @ compute_merkle_root (next_level ys))"
    using Suc.prems by (intro Suc.IH half)
  also have "compute_merkle_root (next_level xs) = compute_merkle_root xs"
    using Suc.prems two by (simp add: merkle_root_step)
  also have "compute_merkle_root (next_level ys) = compute_merkle_root ys"
    using Suc.prems two by (simp add: merkle_root_step)
  finally show ?case .
qed

theorem merkle_root_is_binary_tree_witness:
  "compute_merkle_root ([''a'', ''b''] @ [''c'', ''d''])
     = sha256 (compute_merkle_root [''a'', ''b''] @ compute_merkle_root [''c'', ''d''])"
  by (rule merkle_root_is_binary_tree [where n = 1]) simp_all

text \<open>What the root of two and more leaves is the digest of: the two digests of the last level.\<close>

lemma merkle_root_of_many:
  "2 \<le> length hs \<Longrightarrow> \<forall>h \<in> set hs. length h = 32 \<Longrightarrow>
     \<exists>a b. length a = 32 \<and> length b = 32 \<and> compute_merkle_root hs = sha256 (a @ b)"
proof (induction hs rule: compute_merkle_root.induct)
  case (1 hs)
  show ?case
  proof (cases "length hs = 2")
    case True
    then obtain a b where "hs = [a, b]" by (auto simp: numeral_2_eq_2 length_Suc_conv)
    with 1(3) show ?thesis by (auto simp: merkle_root_pair)
  next
    case False
    with 1(2) have "2 \<le> length (next_level hs)" by (simp add: length_next_level)
    moreover have "\<forall>h \<in> set (next_level hs). length h = 32" using length_in_next_level by blast
    moreover have "length hs \<noteq> 0" "length hs \<noteq> 1" using 1(2) by linarith+
    ultimately show ?thesis unfolding merkle_root_step [OF 1(2)] by (intro "1.IH")
  qed
qed

lemma single_map_eq: "[k \<mapsto> v] = [k' \<mapsto> v'] \<Longrightarrow> k = k' \<and> v = v'"
  by (drule fun_cong [of _ _ k]) (simp split: if_splits)

text \<open>
  C33: Proofs of inclusion, for any state and any batch. \<^verbatim>\<open>GetProof\<close> returns the value and a proof of
  one node for every key of the state, changed by the batch or not, and an error for any other.
  \<^verbatim>\<open>VerifyProof\<close> looks at no node of the proof: any proof that is not empty verifies exactly when the
  bytes of key and value have the digest that is the root. Of a batch of one key the root is the
  digest of that key and value, so its proof verifies. Of a batch of two and more keys it is the
  digest of two digests: a proof, for whatever key, verifies only if key and value together are
  those 64 bytes or SHA-256 collides.
\<close>

theorem proof_verification:
  assumes "iter_order changes ord" and "apply_changes api ord m changes = (m', Inr root)"
  shows "(\<forall>k. case (kv_entries m ++ changes) k of
        None \<Rightarrow> get_proof m' k = Inl (NewError ''key not found in state'')
      | Some v \<Rightarrow> get_proof m' k = Inr ([\<lparr>mpn_hash = sha256 (k @ v), mpn_is_left = True\<rparr>], v)) \<and>
     (\<exists>x. (\<forall>k v p. verify_proof k v p root \<longleftrightarrow> p \<noteq> [] \<and> sha256 (k @ v) = sha256 x) \<and>
       (changes = Map.empty \<longrightarrow> x = ''empty_state'') \<and> (\<forall>k v. changes = [k \<mapsto> v] \<longrightarrow> x = k @ v) \<and>
       (2 \<le> card (dom changes) \<longrightarrow> (\<exists>a b. length a = 32 \<and> length b = 32 \<and> x = a @ b)))"
proof -
  have m': "kv_entries m' = kv_entries m ++ changes" and root: "root = compute_merkle_root (leaves changes)"
    using kv_entries_apply_changes [OF assms(1), of api m] apply_changes_root [OF assms(1), of api m] assms(2) by simp_all
  have fin: "finite (dom changes)" using assms(1) by (metis iter_order_def List.finite_set)
  have n: "length (leaves changes) = card (dom changes)" using fin by (simp add: leaves_def)
  have proofs: "case (kv_entries m ++ changes) k of
        None \<Rightarrow> get_proof m' k = Inl (NewError ''key not found in state'')
      | Some v \<Rightarrow> get_proof m' k = Inr ([\<lparr>mpn_hash = sha256 (k @ v), mpn_is_left = True\<rparr>], v)" for k
    unfolding get_proof_def m' by (cases "(kv_entries m ++ changes) k") (simp_all only: option.case)
  have verify: "verify_proof k v p root \<longleftrightarrow> p \<noteq> [] \<and> sha256 (k @ v) = root" for k v p
    by (simp add: verify_proof_def)
  have "\<exists>x. root = sha256 x \<and> (changes = Map.empty \<longrightarrow> x = ''empty_state'') \<and> (\<forall>k v. changes = [k \<mapsto> v] \<longrightarrow> x = k @ v) \<and>
       (2 \<le> card (dom changes) \<longrightarrow> (\<exists>a b. length a = 32 \<and> length b = 32 \<and> x = a @ b))"
  proof (cases "2 \<le> card (dom changes)")
    case True
    moreover have "\<forall>h \<in> set (leaves changes). length h = 32" by (simp add: leaves_def)
    ultimately obtain a b where "length a = 32" "length b = 32" "root = sha256 (a @ b)"
      using merkle_root_of_many n root by metis
    moreover have "changes \<noteq> Map.empty" "changes \<noteq> [k \<mapsto> v]" for k v using True by auto
    ultimately show ?thesis by blast
  next
    case False
    then consider "card (dom changes) = 0" | "card (dom changes) = 1" by linarith
    then show ?thesis
    proof cases
      case 1
      then have none: "changes = Map.empty" using fin by simp
      have "changes \<noteq> [k \<mapsto> v]" for k v
      proof
        assume "changes = [k \<mapsto> v]"
        then have "card (dom changes) = 1" by simp
        with 1 show False by simp
      qed
      with none show ?thesis using False by (intro exI [of _ "''empty_state''"]) (simp add: root leaves_def)
    next
      case 2
      then obtain k where "dom changes = {k}" by (auto simp: card_1_singleton_iff)
      then obtain v where "changes = [k \<mapsto> v]" using dom_eq_singleton_conv by metis
      note one = this
      have "changes \<noteq> Map.empty" using 2 by auto
      moreover have "k @ v = k' @ v'" if "changes = [k' \<mapsto> v']" for k' v'
        using single_map_eq [OF trans [OF one [symmetric] that]] by (elim conjE) (simp only:)
      moreover have "root = sha256 (k @ v)" unfolding root leaves_def one by (simp add: index_or_def)
      ultimately show ?thesis using False by (intro exI [of _ "k @ v"] conjI impI allI) (assumption | erule (1) notE | simp only:)+
    qed
  qed
  then obtain x where x: "root = sha256 x" and shape: "changes = Map.empty \<longrightarrow> x = ''empty_state''"
    "\<forall>k v. changes = [k \<mapsto> v] \<longrightarrow> x = k @ v"
    "2 \<le> card (dom changes) \<longrightarrow> (\<exists>a b. length a = 32 \<and> length b = 32 \<and> x = a @ b)" by (elim exE conjE)
  have "verify_proof k v p root \<longleftrightarrow> p \<noteq> [] \<and> sha256 (k @ v) = sha256 x" for k v p using verify [of k v p] unfolding x .
  then show ?thesis by (intro conjI exI [of _ x] shape allI proofs)
qed

text \<open>A batch of two keys on an empty state: the proof of a key does not verify unless digests coincide.\<close>

theorem proof_verification_witness:
  "\<exists>a b. length a = 32 \<and> length b = 32 \<and>
     (\<forall>k v p. verify_proof k v p (compute_merkle_root (leaves [''a'' \<mapsto> ''1'', ''b'' \<mapsto> ''2''])) \<longleftrightarrow>
        p \<noteq> [] \<and> sha256 (k @ v) = sha256 (a @ b))"
proof -
  let ?c = "[''a'' \<mapsto> ''1'', ''b'' \<mapsto> ''2'']" and ?m = "new_merkle_state new_memory_storage"
  have ord: "iter_order ?c [''a'', ''b'']" by (auto simp: iter_order_def)
  have root: "snd (apply_changes memory_api [''a'', ''b''] ?m ?c) = Inr (compute_merkle_root (leaves ?c))"
    by (rule apply_changes_root [OF ord])
  have two: "2 \<le> card (dom ?c)" by simp
  obtain m' where ap: "apply_changes memory_api [''a'', ''b''] ?m ?c = (m', Inr (compute_merkle_root (leaves ?c)))"
    by (rule that [of "fst (apply_changes memory_api [''a'', ''b''] ?m ?c)"]) (simp only: root [symmetric] prod.collapse)
  obtain x where x: "\<forall>k v p. verify_proof k v p (compute_merkle_root (leaves ?c)) \<longleftrightarrow> p \<noteq> [] \<and> sha256 (k @ v) = sha256 x"
    "\<exists>a b. length a = 32 \<and> length b = 32 \<and> x = a @ b"
    using conjunct2 [OF proof_verification [OF ord ap]] two by (elim exE conjE) (rule that, assumption, erule (1) mp)
  from x(2) obtain a b where "length a = 32" "length b = 32" "x = a @ b" by (elim exE conjE)
  with x(1) show ?thesis by (intro exI [of _ a] exI [of _ b]) (simp only: simp_thms)
qed

text \<open>
  proofs can be forged and leaves confused. Whoever has one pair that verifies can present
  any other split of the same bytes into key and value with any non-empty proof; and a list of
  leaves of odd length at least three has the root of the list with its last leaf repeated.
\<close>

theorem merkle_confusions:
  "(verify_proof k v proof root \<and> k' @ v' = k @ v \<and> proof' \<noteq> [] \<longrightarrow> verify_proof k' v' proof' root)
   \<and> (even (length hs) \<and> hs \<noteq> [] \<longrightarrow> compute_merkle_root (hs @ [h]) = compute_merkle_root (hs @ [h, h]))"
proof -
  have "compute_merkle_root (hs @ [h]) = compute_merkle_root (hs @ [h, h])"
    if "even (length hs)" and "hs \<noteq> []"
  proof -
    from \<open>hs \<noteq> []\<close> have "compute_merkle_root (hs @ [h]) = compute_merkle_root (next_level (hs @ [h]))"
      "compute_merkle_root (hs @ [h, h]) = compute_merkle_root (next_level (hs @ [h, h]))"
      by (cases hs; simp add: merkle_root_step)+
    with that show ?thesis by (simp add: next_level_append)
  qed
  then show ?thesis by (simp add: verify_proof_def split: if_splits)
qed

theorem merkle_confusions_witness:
  "verify_proof ''a'' ''bc'' [\<lparr>mpn_hash = [], mpn_is_left = False\<rparr>] (sha256 ''abc'')
   \<and> compute_merkle_root [''x'', ''y'', ''z''] = compute_merkle_root [''x'', ''y'', ''z'', ''z'']"
  using merkle_confusions [of "''ab''" "''c''" "[\<lparr>mpn_hash = [], mpn_is_left = True\<rparr>]" "sha256 ''abc''" "''a''" "''bc''"
      "[\<lparr>mpn_hash = [], mpn_is_left = False\<rparr>]" "[''x'', ''y'']" "''z''"]
  by (simp add: verify_proof_def)

end
