(* ===== verification/ExecutionEngine.thy ===== *)
theory ExecutionEngine
  imports Sha256 StateMachine DistConfig
begin

text \<open>
  \<^verbatim>\<open>core/execution/engine.go\<close>: the execution router dispatches a decoded command to the handler
  registered for its type, chains the handler's result into its own root, and files a receipt.
  A handler is a Go closure: what it closes over is the field \<open>er_world\<close>, which a call may change
  whether or not it returns an error. The lemmas give the outcome on every branch, the root as a
  hash chain over the committed results, and what a rollback does not undo.
\<close>

section \<open>Data\<close>

record command =
  cmd_type :: string
  cmd_payload :: bytes

record transaction_receipt =
  rc_tx_id :: string
  rc_status :: string
  rc_state_root :: string
  rc_error :: string

type_synonym 'w command_handler = "'w \<Rightarrow> bytes \<Rightarrow> 'w \<times> bytes result"

record ('w, 'st) execution_router =
  er_handlers :: "string \<rightharpoonup> 'w command_handler"
  er_storage :: 'st
  current_root :: string
  receipts :: "string \<rightharpoonup> transaction_receipt"
  er_world :: 'w

definition new_execution_router :: "'w \<Rightarrow> 'st \<Rightarrow> ('w, 'st) execution_router" where
  "new_execution_router w store = \<lparr>er_handlers = Map.empty, er_storage = store,
     current_root = ''exec_router_genesis'', receipts = Map.empty, er_world = w\<rparr>"

section \<open>Operations\<close>

definition register_handler :: "('w, 'st) execution_router \<Rightarrow> string \<Rightarrow> 'w command_handler
    \<Rightarrow> ('w, 'st) execution_router" where
  "register_handler er ptype handler = er\<lparr>er_handlers := (er_handlers er)(ptype \<mapsto> handler)\<rparr>"

definition apply_transactional :: "(bytes \<Rightarrow> command result) \<Rightarrow> ('w, 'st) execution_router \<Rightarrow> string \<Rightarrow> bytes
    \<Rightarrow> ('w, 'st) execution_router \<times> transaction_receipt \<times> go_error option" where
  "apply_transactional unmarshal er tx_id commit_log =
    (case unmarshal commit_log of
       Inl err \<Rightarrow>
         (let receipt = \<lparr>rc_tx_id = tx_id, rc_status = ''FAILED'', rc_state_root = [], rc_error = error_text err\<rparr>
          in (er\<lparr>receipts := (receipts er)(tx_id \<mapsto> receipt)\<rparr>, receipt,
              Some (WrapError ''unmarshal command error: '' err)))
     | Inr cmd \<Rightarrow>
        (case er_handlers er (cmd_type cmd) of
           None \<Rightarrow>
             (let receipt = \<lparr>rc_tx_id = tx_id, rc_status = ''FAILED'', rc_state_root = [],
                             rc_error = ''unregistered handler''\<rparr>
              in (er\<lparr>receipts := (receipts er)(tx_id \<mapsto> receipt)\<rparr>, receipt,
                  Some (NewError (''no handler registered for payload type: '' @ cmd_type cmd))))
         | Some handler \<Rightarrow>
             (let backup_root = current_root er;
                  (w, res) = handler (er_world er) (cmd_payload cmd);
                  er1 = er\<lparr>er_world := w\<rparr>
              in case res of
                   Inl err \<Rightarrow>
                     (let er2 = er1\<lparr>current_root := backup_root\<rparr>;
                          receipt = \<lparr>rc_tx_id = tx_id, rc_status = ''ROLLED_BACK'', rc_state_root = [],
                                     rc_error = error_text err\<rparr>
                      in (er2\<lparr>receipts := (receipts er2)(tx_id \<mapsto> receipt)\<rparr>, receipt,
                          Some (WrapError ''handler execution failed, transaction rolled back: '' err)))
                 | Inr result_root \<Rightarrow>
                     (let er2 = er1\<lparr>current_root := sha_hex [current_root er1, result_root]\<rparr>;
                          receipt = \<lparr>rc_tx_id = tx_id, rc_status = ''COMMITTED'',
                                     rc_state_root = current_root er2, rc_error = []\<rparr>
                      in (er2\<lparr>receipts := (receipts er2)(tx_id \<mapsto> receipt)\<rparr>, receipt, None)))))"

definition exec_apply :: "(bytes \<Rightarrow> command result) \<Rightarrow> unit \<Rightarrow> ('w, 'st) execution_router \<Rightarrow> bytes
    \<Rightarrow> ('w, 'st) execution_router \<times> bytes result" where
  "exec_apply unmarshal env er commit_log =
     (let (er', receipt, err) = apply_transactional unmarshal er ''tx_auto_gen'' commit_log
      in case err of Some e \<Rightarrow> (er', Inl e) | None \<Rightarrow> (er', Inr (rc_state_root receipt)))"

definition get_receipt :: "('w, 'st) execution_router \<Rightarrow> string \<Rightarrow> transaction_receipt option" where
  "get_receipt er tx_id = receipts er tx_id"

definition exec_get_state_root :: "('w, 'st) execution_router \<Rightarrow> bytes" where
  "exec_get_state_root er = current_root er"

section \<open>Lemmas\<close>

text \<open>The handler a commit reaches, if it decodes and its type is registered, and its answer.\<close>

definition dispatch :: "(bytes \<Rightarrow> command result) \<Rightarrow> ('w, 'st) execution_router \<Rightarrow> bytes
    \<Rightarrow> ('w \<times> bytes result) option" where
  "dispatch unmarshal er c = (case unmarshal c of Inl _ \<Rightarrow> None
     | Inr cmd \<Rightarrow> map_option (\<lambda>h. h (er_world er) (cmd_payload cmd)) (er_handlers er (cmd_type cmd)))"

lemma apply_transactional_committed:
  assumes "dispatch unmarshal er c = Some (w, Inr r)"
  shows "let root = sha_hex [current_root er, r];
             receipt = \<lparr>rc_tx_id = tx, rc_status = ''COMMITTED'', rc_state_root = root, rc_error = []\<rparr>
         in apply_transactional unmarshal er tx c =
           (er\<lparr>er_world := w, current_root := root, receipts := (receipts er)(tx \<mapsto> receipt)\<rparr>, receipt, None)"
  using assms by (auto simp: dispatch_def apply_transactional_def Let_def split: sum.splits)

lemma apply_transactional_rolled_back:
  assumes "dispatch unmarshal er c = Some (w, Inl e)"
  shows "let receipt = \<lparr>rc_tx_id = tx, rc_status = ''ROLLED_BACK'', rc_state_root = [], rc_error = error_text e\<rparr>
         in apply_transactional unmarshal er tx c =
           (er\<lparr>er_world := w, receipts := (receipts er)(tx \<mapsto> receipt)\<rparr>, receipt,
            Some (WrapError ''handler execution failed, transaction rolled back: '' e))"
  using assms by (auto simp: dispatch_def apply_transactional_def Let_def split: sum.splits)

lemma apply_transactional_failed:
  assumes "dispatch unmarshal er c = None"
  shows "\<exists>msg e. let receipt = \<lparr>rc_tx_id = tx, rc_status = ''FAILED'', rc_state_root = [], rc_error = msg\<rparr>
         in apply_transactional unmarshal er tx c =
           (er\<lparr>receipts := (receipts er)(tx \<mapsto> receipt)\<rparr>, receipt, Some e)"
  using assms by (auto simp: dispatch_def apply_transactional_def Let_def split: sum.splits)

lemma dispatch_cases:
  obtains (failed) "dispatch unmarshal er c = None"
    | (rolled_back) w e where "dispatch unmarshal er c = Some (w, Inl e)"
    | (committed) w r where "dispatch unmarshal er c = Some (w, Inr r)"
  by (cases "dispatch unmarshal er c") (auto, metis sumE)

lemma exec_apply_committed:
  "dispatch unmarshal er c = Some (w, Inr r) \<Longrightarrow>
     current_root (fst (exec_apply unmarshal u er c)) = sha_hex [current_root er, r]
   \<and> snd (exec_apply unmarshal u er c) = Inr (sha_hex [current_root er, r])"
  by (drule apply_transactional_committed [where tx = "''tx_auto_gen''"]) (simp add: exec_apply_def Let_def)

lemma exec_apply_rolled_back:
  "dispatch unmarshal er c = Some (w, Inl e) \<Longrightarrow>
     current_root (fst (exec_apply unmarshal u er c)) = current_root er
   \<and> \<not> succeeded (snd (exec_apply unmarshal u er c))"
  by (drule apply_transactional_rolled_back [where tx = "''tx_auto_gen''"]) (simp add: exec_apply_def Let_def)

lemma exec_apply_failed:
  "dispatch unmarshal er c = None \<Longrightarrow>
     current_root (fst (exec_apply unmarshal u er c)) = current_root er
   \<and> \<not> succeeded (snd (exec_apply unmarshal u er c))"
  by (drule apply_transactional_failed [where tx = "''tx_auto_gen''"]) (auto simp: exec_apply_def Let_def)

lemma exec_apply_root:
  "current_root (fst (exec_apply unmarshal u er c)) =
     (case snd (exec_apply unmarshal u er c) of Inl _ \<Rightarrow> current_root er | Inr r \<Rightarrow> r)"
  by (cases rule: dispatch_cases [of unmarshal er c])
     (auto dest: exec_apply_committed exec_apply_rolled_back exec_apply_failed split: sum.splits)

interpretation exec: deterministic_machine "exec_apply unmarshal" exec_get_state_root "\<lambda>_ _ _. True"
  for unmarshal
proof
  fix e s c s' r
  assume "exec_apply unmarshal e s c = (s', Inr r)"
  then show "exec_get_state_root s' = r"
    using exec_apply_root [of unmarshal e s c] by (simp add: exec_get_state_root_def)
next
  fix e s c s' x
  assume "exec_apply unmarshal e s c = (s', Inl x)"
  then show "exec_get_state_root s' = exec_get_state_root s"
    using exec_apply_root [of unmarshal e s c] by (simp add: exec_get_state_root_def)
qed simp

section \<open>Properties\<close>

text \<open>
  C16: the outcome of a transaction. Its receipt is the one the router files under the
  transaction's identifier, and its status says what happened: \<^verbatim>\<open>COMMITTED\<close> with the new root when
  the handler succeeded, \<^verbatim>\<open>ROLLED_BACK\<close> when it failed, \<^verbatim>\<open>FAILED\<close> when no handler was reached; in
  the last two cases the root is the old one, though a rolled-back handler's effects stay. Receipts of other transactions are untouched.
\<close>

theorem transaction_outcome:
  "let (er', receipt, err) = apply_transactional unmarshal er tx c in
     get_receipt er' = (get_receipt er)(tx \<mapsto> receipt) \<and> rc_tx_id receipt = tx
   \<and> er_handlers er' = er_handlers er
   \<and> (case dispatch unmarshal er c of
        None \<Rightarrow> rc_status receipt = ''FAILED'' \<and> err \<noteq> None \<and> current_root er' = current_root er \<and> er_world er' = er_world er
      | Some (w, Inl e) \<Rightarrow> rc_status receipt = ''ROLLED_BACK'' \<and> rc_error receipt = error_text e \<and> err \<noteq> None
          \<and> current_root er' = current_root er \<and> er_world er' = w
      | Some (w, Inr r) \<Rightarrow> rc_status receipt = ''COMMITTED'' \<and> err = None \<and> er_world er' = w
          \<and> current_root er' = sha_hex [current_root er, r] \<and> rc_state_root receipt = current_root er')"
proof (cases rule: dispatch_cases [of unmarshal er c])
  case failed
  then obtain msg e where "apply_transactional unmarshal er tx c =
      (let receipt = \<lparr>rc_tx_id = tx, rc_status = ''FAILED'', rc_state_root = [], rc_error = msg\<rparr>
       in (er\<lparr>receipts := (receipts er)(tx \<mapsto> receipt)\<rparr>, receipt, Some e))"
    using apply_transactional_failed unfolding Let_def by blast
  with failed show ?thesis by (simp add: get_receipt_def fun_eq_iff Let_def)
next
  case (rolled_back w e)
  with apply_transactional_rolled_back [OF this, of tx] show ?thesis by (simp add: get_receipt_def fun_eq_iff Let_def)
next
  case (committed w r)
  with apply_transactional_committed [OF this, of tx] show ?thesis by (simp add: get_receipt_def fun_eq_iff Let_def)
qed

text \<open>The results the committed transactions of a run returned.\<close>

fun committed_results :: "(bytes \<Rightarrow> command result) \<Rightarrow> ('w, 'st) execution_router \<Rightarrow> (unit \<times> bytes) list \<Rightarrow> bytes list" where
  "committed_results unmarshal er [] = []"
| "committed_results unmarshal er ((u, c) # cs) =
     (case dispatch unmarshal er c of Some (w, Inr r) \<Rightarrow> [r] | _ \<Rightarrow> [])
     @ committed_results unmarshal (fst (exec_apply unmarshal u er c)) cs"

text \<open>
  the root of the router is the hash chain over the results of the committed transactions,
  in the order they were applied; transactions that failed or were rolled back do not enter it.
\<close>

theorem router_root_is_hash_chain:
  "exec_get_state_root (run_commits (exec_apply unmarshal) er cs) =
     foldl (\<lambda>root r. sha_hex [root, r]) (exec_get_state_root er) (committed_results unmarshal er cs)"
proof (induction cs arbitrary: er)
  case Nil
  then show ?case by simp
next
  case (Cons x cs)
  obtain u c where x: "x = (u, c)" by (cases x)
  show ?case
  proof (cases rule: dispatch_cases [of unmarshal er c])
    case failed
    with exec_apply_failed [OF this, of u] show ?thesis by (simp add: x Cons.IH [unfolded exec_get_state_root_def] exec_get_state_root_def)
  next
    case (rolled_back w e)
    with exec_apply_rolled_back [OF this, of u] show ?thesis by (simp add: x Cons.IH [unfolded exec_get_state_root_def] exec_get_state_root_def)
  next
    case (committed w r)
    with exec_apply_committed [OF this, of u] show ?thesis by (simp add: x Cons.IH [unfolded exec_get_state_root_def] exec_get_state_root_def)
  qed
qed

text \<open>
  a rolled-back transaction keeps the effects of its handler. With the configuration service
  hosted on the router, a command whose action the service rejects yields the status
  \<^verbatim>\<open>ROLLED_BACK\<close> and the old router root, and leaves the service with the namespace the command
  named.
\<close>

theorem rollback_keeps_handler_effects:
  assumes "decode p = Inr cp" and "cfp_action cp \<notin> {action_set_config, action_del_config}"
    and "configs cs (cfp_namespace cp) = None"
  shows "let er = register_handler (new_execution_router cs store) ''CONFIG'' (config_apply decode ord);
             (er', receipt, err) = apply_transactional (\<lambda>_. Inr \<lparr>cmd_type = ''CONFIG'', cmd_payload = p\<rparr>) er tx c
         in rc_status receipt = ''ROLLED_BACK'' \<and> exec_get_state_root er' = exec_get_state_root er
          \<and> configs (er_world er') (cfp_namespace cp) = Some Map.empty"
  using assms
  by (simp add: apply_transactional_def register_handler_def new_execution_router_def config_apply_def
      exec_get_state_root_def Let_def)

theorem rollback_keeps_handler_effects_witness:
  "let er = register_handler (new_execution_router (new_config_state ()) ()) ''CONFIG''
              (config_apply (\<lambda>_. Inr \<lparr>cfp_action = ''WIPE'', cfp_namespace = ''ns'', cfp_key = [], cfp_value = []\<rparr>) ([], \<lambda>_. []));
       (er', receipt, err) = apply_transactional (\<lambda>_. Inr \<lparr>cmd_type = ''CONFIG'', cmd_payload = []\<rparr>) er ''tx1'' []
   in rc_status receipt = ''ROLLED_BACK'' \<and> configs (er_world er') ''ns'' = Some Map.empty"
  using rollback_keeps_handler_effects
    [of "\<lambda>_. Inr \<lparr>cfp_action = ''WIPE'', cfp_namespace = ''ns'', cfp_key = [], cfp_value = []\<rparr>" "[]"
        "\<lparr>cfp_action = ''WIPE'', cfp_namespace = ''ns'', cfp_key = [], cfp_value = []\<rparr>" "new_config_state ()"
        "()" "([], \<lambda>_. [])" "''tx1''" "[]"]
  by (simp add: action_set_config_def action_del_config_def new_config_state_def Let_def split: prod.splits)

end
