(* ===== verification/Replay.thy ===== *)
theory Replay
  imports KvStore MetadataService Blocks
begin

text \<open>
  \<^verbatim>\<open>core/runtime/replay.go\<close>: the replay log records each payload with the root it produced, and
  the replay engine applies a parsed log to a state machine and compares roots. The engine is
  written against the \<^verbatim>\<open>StateMachine\<close> interface, so its model takes \<^verbatim>\<open>Apply\<close> as an argument; its
  correctness is proved once, for every deterministic machine whose failed calls change nothing
  (the locale \<open>replayable_machine\<close>), which the key-value store on memory, the metadata service
  and the chain state on memory are shown to be.
\<close>

section \<open>The log\<close>

record replay_entry =
  re_sequence :: "64 word"
  re_timestamp :: int
  re_payload :: bytes
  re_state_root :: string

record replay_log =
  rl_entries :: "replay_entry list"

definition new_replay_log :: replay_log where
  "new_replay_log = \<lparr>rl_entries = []\<rparr>"

definition record_entry :: "int \<Rightarrow> replay_log \<Rightarrow> bytes \<Rightarrow> string \<Rightarrow> replay_log" where
  "record_entry now rl payload state_root =
     (let entry = \<lparr>re_sequence = of_nat (length (rl_entries rl) + 1), re_timestamp = now,
                   re_payload = payload, re_state_root = state_root\<rparr>
      in rl\<lparr>rl_entries := rl_entries rl @ [entry]\<rparr>)"

definition serialize_log :: "(replay_entry list \<Rightarrow> bytes result) \<Rightarrow> replay_log \<Rightarrow> bytes result" where
  "serialize_log marshal rl = marshal (rl_entries rl)"

section \<open>The engine\<close>

text \<open>\<open>env i\<close> is the environment of the call for the \<open>i\<close>-th entry.\<close>

fun replay_loop :: "('e \<Rightarrow> 's \<Rightarrow> bytes \<Rightarrow> 's \<times> bytes result) \<Rightarrow> (nat \<Rightarrow> 'e) \<Rightarrow> nat
    \<Rightarrow> 's \<Rightarrow> string \<Rightarrow> replay_entry list \<Rightarrow> 's \<times> string result" where
  "replay_loop apply_log env i sm final_root [] = (sm, Inr final_root)"
| "replay_loop apply_log env i sm final_root (entry # entries) =
     (case apply_log (env i) sm (re_payload entry) of
        (sm', Inl err) \<Rightarrow>
          (sm', Inl (WrapError (''replay failed at sequence '' @ fmt_nat (unat (re_sequence entry)) @ '': '') err))
      | (sm', Inr root) \<Rightarrow>
          if re_state_root entry \<noteq> [] \<and> root \<noteq> re_state_root entry
          then (sm', Inl (NewError (''determinism violation at sequence '' @ fmt_nat (unat (re_sequence entry)) @
                  ''! Expected root '' @ re_state_root entry @ '', got '' @ root)))
          else replay_loop apply_log env (Suc i) sm' root entries)"

definition replay :: "('e \<Rightarrow> 's \<Rightarrow> bytes \<Rightarrow> 's \<times> bytes result) \<Rightarrow> (nat \<Rightarrow> 'e)
    \<Rightarrow> (bytes \<Rightarrow> replay_entry list result) \<Rightarrow> 's \<Rightarrow> bytes \<Rightarrow> 's \<times> string result" where
  "replay apply_log env unmarshal sm log_data =
     (case unmarshal log_data of
        Inl err \<Rightarrow> (sm, Inl (WrapError ''failed to parse replay log: '' err))
      | Inr entries \<Rightarrow> replay_loop apply_log env 0 sm [] entries)"

section \<open>Recording a run\<close>

text \<open>
  How the log is written, by a caller that applies a payload and records it with its root when
  \<^verbatim>\<open>Apply\<close> succeeded, and not at all when it failed. This loop is the caller's: outside its tests the
  repository only offers \<^verbatim>\<open>Apply\<close>, \<^verbatim>\<open>Record\<close> and \<^verbatim>\<open>Replay\<close> and calls none of the last two.
\<close>

fun record_run :: "('e \<Rightarrow> 's \<Rightarrow> bytes \<Rightarrow> 's \<times> bytes result) \<Rightarrow> (nat \<Rightarrow> int)
    \<Rightarrow> 's \<Rightarrow> replay_log \<Rightarrow> ('e \<times> bytes) list \<Rightarrow> 's \<times> replay_log" where
  "record_run apply_log clock s rl [] = (s, rl)"
| "record_run apply_log clock s rl ((e, c) # cs) =
     (case apply_log e s c of
        (s', Inl _) \<Rightarrow> record_run apply_log clock s' rl cs
      | (s', Inr root) \<Rightarrow> record_run apply_log clock s' (record_entry (clock (length (rl_entries rl))) rl c root) cs)"

text \<open>The calls a replay makes, with their environments.\<close>

fun replay_calls :: "(nat \<Rightarrow> 'e) \<Rightarrow> nat \<Rightarrow> replay_entry list \<Rightarrow> ('e \<times> bytes) list" where
  "replay_calls env i [] = []"
| "replay_calls env i (x # xs) = (env i, re_payload x) # replay_calls env (Suc i) xs"

lemma rl_entries_record [simp]:
  "rl_entries (record_entry now rl payload root) = rl_entries rl @
     [\<lparr>re_sequence = of_nat (length (rl_entries rl) + 1), re_timestamp = now, re_payload = payload, re_state_root = root\<rparr>]"
  by (simp add: record_entry_def Let_def)

lemma rl_entries_new [simp]: "rl_entries new_replay_log = []"
  by (simp add: new_replay_log_def)

section \<open>Replay of any recorded run\<close>

locale replayable_machine = deterministic_machine +
  assumes error_changes_nothing: "apply_log e s c = (s', Inl x) \<Longrightarrow> s' = s"
begin

lemma replay_of_recorded_run:
  assumes "record_run apply_log clock s rl cs = (s', rl')"
    and "legal_run env_ok apply_log s cs"
  shows "\<exists>new. rl_entries rl' = rl_entries rl @ new \<and>
    (\<forall>env i r. legal_run env_ok apply_log s (replay_calls env i new) \<longrightarrow>
       replay_loop apply_log env i s r new = (s', Inr (if new = [] then r else state_root s')))"
  using assms
proof (induction cs arbitrary: s rl)
  case Nil
  then show ?case by simp
next
  case (Cons x cs)
  obtain e c where x: "x = (e, c)" by (cases x)
  obtain s1 res where step: "apply_log e s c = (s1, res)" by (cases "apply_log e s c")
  show ?case
  proof (cases res)
    case (Inl err)
    with step have "s1 = s" using error_changes_nothing [of e s c s1 err] by simp
    with Cons.prems x step Inl show ?thesis by (intro Cons.IH) simp_all
  next
    case (Inr root)
    let ?entry = "\<lparr>re_sequence = of_nat (length (rl_entries rl) + 1), re_timestamp = clock (length (rl_entries rl)),
                   re_payload = c, re_state_root = root\<rparr>"
    obtain new where new: "rl_entries rl' = rl_entries rl @ [?entry] @ new"
      and rest: "\<And>env i r. legal_run env_ok apply_log s1 (replay_calls env i new) \<Longrightarrow>
        replay_loop apply_log env i s1 r new = (s', Inr (if new = [] then r else state_root s'))"
      using Cons.IH [of s1 "record_entry (clock (length (rl_entries rl))) rl c root"] Cons.prems x step Inr
      by auto
    have s1_root: "state_root s1 = root"
      using step Inr apply_root [of e s c s1 root] by simp
    have done_root: "state_root s' = root" if "new = []"
    proof -
      from rest [of undefined 0 undefined] that have "s1 = s'" by simp
      with s1_root show ?thesis by simp
    qed
    have "replay_loop apply_log env i s r (?entry # new) = (s', Inr (state_root s'))"
      if "legal_run env_ok apply_log s (replay_calls env i (?entry # new))" for env i r
    proof -
      from that have "env_ok (env i) s c" by simp
      moreover from Cons.prems(2) x have "env_ok e s c" by simp
      ultimately have "apply_log (env i) s c = apply_log e s c" by (rule env_irrelevant)
      then have same: "apply_log (env i) s c = (s1, Inr root)" using step Inr by simp
      with that have "legal_run env_ok apply_log s1 (replay_calls env (Suc i) new)" by simp
      from rest [OF this, of root] same done_root show ?thesis by simp
    qed
    with new show ?thesis by (intro exI [of _ "?entry # new"]) simp
  qed
qed

text \<open>The last recorded root is the root the recording machine ended with.\<close>

lemma replay_from_scratch:
  assumes "record_run apply_log clock s new_replay_log cs = (s', rl)"
    and "legal_run env_ok apply_log s cs"
    and "legal_run env_ok apply_log s (replay_calls env 0 (rl_entries rl))"
    and "unmarshal data = Inr (rl_entries rl)"
  shows "replay apply_log env unmarshal s data =
     (s', Inr (if rl_entries rl = [] then [] else state_root s'))"
  using replay_of_recorded_run [OF assms(1,2)] assms(3,4) by (auto simp: replay_def)

end

section \<open>Which machines are replayable\<close>

lemma kv_memory_error_unchanged:
  "kv_apply memory_api unmarshal ord kv c = (kv', Inl e) \<Longrightarrow> kv' = kv"
  by (auto simp: kv_apply_def Let_def memory_put_def memory_delete_def split: sum.splits if_splits)

interpretation kv_replay: replayable_machine "kv_apply memory_api unmarshal" kv_get_state_root
  "kv_env_ok memory_api unmarshal" for unmarshal
  by unfold_locales (rule kv_memory_error_unchanged)

interpretation meta_replay: replayable_machine "meta_apply unmarshal" meta_get_state_root
  "meta_env_ok unmarshal" for unmarshal
  by unfold_locales (auto simp: meta_apply_spec Let_def split: sum.splits option.splits)

interpretation chain_replay: replayable_machine "chain_apply memory_api unmarshal" chain_get_state_root
  "\<lambda>_ _ _. True" for unmarshal
  by unfold_locales (auto simp: chain_apply_def Let_def memory_put_def split: sum.splits)

section \<open>Properties\<close>

text \<open>
  replay reproduces a recorded run of the key-value store. A log recorded while the store ran
  from its initial state, failed commits included, replays on a fresh store without a determinism
  violation, ends in the same state and reports the same final root, although Go may range over
  the maps in other orders. The log is given as any bytes that parse to the recorded entries.
\<close>

theorem kv_replay_reproduces_run:
  assumes "record_run (kv_apply memory_api unmarshal) clock (new_kv_state new_memory_storage) new_replay_log cs = (kv, rl)"
    and "legal_run (kv_env_ok memory_api unmarshal) (kv_apply memory_api unmarshal) (new_kv_state new_memory_storage) cs"
    and "legal_run (kv_env_ok memory_api unmarshal) (kv_apply memory_api unmarshal) (new_kv_state new_memory_storage)
           (replay_calls env 0 (rl_entries rl))"
    and "parse data = Inr (rl_entries rl)"
  shows "replay (kv_apply memory_api unmarshal) env parse (new_kv_state new_memory_storage) data
     = (kv, Inr (if rl_entries rl = [] then [] else kv_get_state_root kv))"
  using assms by (rule kv_replay.replay_from_scratch)

theorem kv_replay_reproduces_run_witness:
  "let u = (\<lambda>c. Inr \<lparr>kvp_op = ''PUT'', kvp_key = c, kvp_value = ''v''\<rparr>);
       (kv, rl) = record_run (kv_apply memory_api u) int (new_kv_state new_memory_storage) new_replay_log
                    [([''x''], ''x''), ([''x'', ''y''], ''y'')]
   in replay (kv_apply memory_api u) (\<lambda>i. if i = 0 then [''x''] else [''y'', ''x'']) (\<lambda>_. Inr (rl_entries rl))
        (new_kv_state new_memory_storage) [] = (kv, Inr (kv_get_state_root kv))"
proof -
  let ?u = "\<lambda>c. Inr \<lparr>kvp_op = ''PUT'', kvp_key = c, kvp_value = ''v''\<rparr> :: kv_payload result"
  let ?cs = "[([''x''], ''x''), ([''x'', ''y''], ''y'')]"
  let ?env = "\<lambda>i :: nat. if i = 0 then [''x''] else [''y'', ''x'']"
  obtain kv rl where run: "record_run (kv_apply memory_api ?u) int (new_kv_state new_memory_storage) new_replay_log ?cs = (kv, rl)"
    by (cases "record_run (kv_apply memory_api ?u) int (new_kv_state new_memory_storage) new_replay_log ?cs")
  then have calls: "replay_calls ?env 0 (rl_entries rl) = [([''x''], ''x''), ([''y'', ''x''], ''y'')]"
    and nonempty: "rl_entries rl \<noteq> []"
    by (auto simp: kv_defs memory_put_def)
  have legal: "legal_run (kv_env_ok memory_api ?u) (kv_apply memory_api ?u) (new_kv_state new_memory_storage)
      [([''x''], ''x''), (ord, ''y'')]" if "ord = [''x'', ''y''] \<or> ord = [''y'', ''x'']" for ord
    using that by (auto simp: kv_env_ok_def in_memory_kv_apply_cases kv_spec_def op_put_def iter_order_def new_kv_state_def)
  have "replay (kv_apply memory_api ?u) ?env (\<lambda>_. Inr (rl_entries rl)) (new_kv_state new_memory_storage) []
      = (kv, Inr (if rl_entries rl = [] then [] else kv_get_state_root kv))"
    by (rule kv_replay_reproduces_run [OF run]) (use legal calls in auto)
  with run nonempty show ?thesis by (simp add: Let_def)
qed

text \<open>
  replay is sound for every state machine: when it returns a root, every entry was applied
  without an error and every recorded root that is not empty is the root \<^verbatim>\<open>Apply\<close> returned for
  it; the machine is left where the payloads of the log lead.
\<close>

theorem replay_success_is_sound:
  assumes "replay_loop apply_log env i sm r entries = (sm', Inr final)"
  shows "sm' = run_commits apply_log sm (replay_calls env i entries)
    \<and> (\<forall>j < length entries. \<exists>root.
         snd (apply_log (env (i + j)) (run_commits apply_log sm (replay_calls env i (take j entries))) (re_payload (entries ! j)))
           = Inr root \<and> (re_state_root (entries ! j) \<noteq> [] \<longrightarrow> root = re_state_root (entries ! j)))"
  using assms
proof (induction entries arbitrary: i sm r)
  case Nil
  then show ?case by simp
next
  case (Cons x xs)
  from Cons.prems obtain sm1 root where step: "apply_log (env i) sm (re_payload x) = (sm1, Inr root)"
    and root: "re_state_root x \<noteq> [] \<longrightarrow> root = re_state_root x"
    and rest: "replay_loop apply_log env (Suc i) sm1 root xs = (sm', Inr final)"
    by (auto split: prod.splits sum.splits if_splits)
  from Cons.IH [OF rest] step root show ?case
    by (simp add: All_less_Suc2)
qed

theorem replay_success_is_sound_witness:
  "run_commits (\<lambda>_ s c. (s @ c, Inr c)) ''s'' (replay_calls (\<lambda>_. ()) 0
      [\<lparr>re_sequence = 1, re_timestamp = 0, re_payload = ''p'', re_state_root = ''p''\<rparr>]) = ''sp''"
  using replay_success_is_sound [of "\<lambda>_ s c. (s @ c, Inr c)" "\<lambda>_. ()" 0 "''s''" "[]"
      "[\<lparr>re_sequence = 1, re_timestamp = 0, re_payload = ''p'', re_state_root = ''p''\<rparr>]" "''sp''" "''p''"]
  by simp

end
