(* ===== verification/RaftEngine.thy ===== *)
theory RaftEngine
  imports Storage
begin

text \<open>
  \<^verbatim>\<open>modules/consensus/raft_engine.go\<close> and \<^verbatim>\<open>raft_membership.go\<close>: the state of a Raft node and
  every operation on it, one definition per function. Every operation holds the node's mutex for
  its whole body, so each is one atomic function on the state. Go's \<^verbatim>\<open>int\<close> is \<open>int\<close> with results
  taken through \<open>wrap64\<close>; \<open>draw\<close> is what \<^verbatim>\<open>rnd.Intn(150)\<close> returns in the call; the storage and the
  JSON codec of the persisted state are the record \<open>raft_deps\<close>. An index out of range, which
  panics in Go, is the value \<open>Panic\<close>.
\<close>

section \<open>Data\<close>

datatype node_role = RoleFollower | RoleCandidate | RoleLeader | RoleUnknown int

fun role_string :: "node_role \<Rightarrow> string" where
  "role_string RoleFollower = ''Follower''"
| "role_string RoleCandidate = ''Candidate''"
| "role_string RoleLeader = ''Leader''"
| "role_string (RoleUnknown _) = ''Unknown''"

record log_entry =
  le_index :: int
  le_term :: int
  le_data :: bytes

record snapshot =
  sn_last_index :: int
  sn_last_term :: int
  sn_data :: bytes

record request_vote_args =
  rv_term :: int
  rv_candidate_id :: string
  rv_last_log_index :: int
  rv_last_log_term :: int

record request_vote_reply =
  vr_term :: int
  vr_granted :: bool

record append_entries_args =
  ae_term :: int
  ae_leader_id :: string
  ae_prev_log_index :: int
  ae_prev_log_term :: int
  ae_entries :: "log_entry list"
  ae_leader_commit :: int

record append_entries_reply =
  ar_term :: int
  ar_success :: bool

text \<open>A timer: whether it is running, whether its channel holds a tick, and its length in ms.\<close>

record timer =
  tm_active :: bool
  tm_pending :: bool
  tm_timeout :: int

record 'st raft =
  node_id :: string
  peers :: "string list"
  current_term :: int
  voted_for :: string
  log :: "log_entry list"
  snap :: snapshot
  commit_index :: int
  last_applied :: int
  role :: node_role
  raft_storage :: "'st option"
  commit_chan :: "bytes chan"
  heartbeat_timer :: "timer option"
  election_timer :: "timer option"
  stop_closed :: bool

text \<open>What is persisted, and the storage and codec it is persisted with.\<close>

record raft_persisted =
  ps_current_term :: int
  ps_voted_for :: string
  ps_log :: "log_entry list"
  ps_snapshot :: snapshot

record 'st raft_deps =
  rd_api :: "'st storage_api"
  rd_marshal :: "raft_persisted \<Rightarrow> bytes result"
  rd_unmarshal :: "bytes \<Rightarrow> raft_persisted result"

section \<open>Persistence\<close>

definition persisted_part :: "'st raft \<Rightarrow> raft_persisted" where
  "persisted_part re = \<lparr>ps_current_term = current_term re, ps_voted_for = voted_for re,
                        ps_log = log re, ps_snapshot = snap re\<rparr>"

definition raft_state_key :: bytes where "raft_state_key = ''raft_state''"

definition persist_state :: "'st raft_deps \<Rightarrow> 'st raft \<Rightarrow> 'st raft" where
  "persist_state d re = (case raft_storage re of
      None \<Rightarrow> re
    | Some st \<Rightarrow> (case rd_marshal d (persisted_part re) of
        Inl _ \<Rightarrow> re
      | Inr data \<Rightarrow> re\<lparr>raft_storage := Some (fst (api_put (rd_api d) st raft_state_key data))\<rparr>))"

definition load_state :: "'st raft_deps \<Rightarrow> 'st raft \<Rightarrow> 'st raft" where
  "load_state d re = (case raft_storage re of
      None \<Rightarrow> re
    | Some st \<Rightarrow> (case api_get (rd_api d) st raft_state_key of
        Inl _ \<Rightarrow> re
      | Inr data \<Rightarrow> (case rd_unmarshal d data of
          Inl _ \<Rightarrow> re
        | Inr state \<Rightarrow> re\<lparr>current_term := ps_current_term state, voted_for := ps_voted_for state,
                           log := ps_log state, snap := ps_snapshot state\<rparr>)))"

section \<open>Life cycle and timers\<close>

definition new_raft_engine :: "'st raft_deps \<Rightarrow> string \<Rightarrow> string list \<Rightarrow> 'st option \<Rightarrow> 'st raft" where
  "new_raft_engine d nid ps store = load_state d
     \<lparr>node_id = nid, peers = ps, current_term = 0, voted_for = [],
      log = [\<lparr>le_index = 0, le_term = 0, le_data = []\<rparr>],
      snap = \<lparr>sn_last_index = 0, sn_last_term = 0, sn_data = []\<rparr>,
      commit_index = 0, last_applied = 0, role = RoleFollower, raft_storage = store,
      commit_chan = make_chan 1000, heartbeat_timer = None, election_timer = None, stop_closed = False\<rparr>"

definition election_timeout :: "int \<Rightarrow> int" where
  "election_timeout draw = 150 + draw"

text \<open>The part of \<^verbatim>\<open>Start\<close> under the mutex; it then launches \<^verbatim>\<open>runLoop\<close>.\<close>

definition raft_start :: "int \<Rightarrow> 'st raft \<Rightarrow> 'st raft" where
  "raft_start draw re = re\<lparr>election_timer :=
     Some \<lparr>tm_active = True, tm_pending = False, tm_timeout = election_timeout draw\<rparr>\<rparr>"

text \<open>
  The module asks for Go 1.26, whose timers deliver no tick that is older than the last \<^verbatim>\<open>Stop\<close> or
  \<^verbatim>\<open>Reset\<close>: \<^verbatim>\<open>Stop\<close> takes back a tick nobody has received and then reports that it stopped the timer.
\<close>

definition timer_stop :: "timer \<Rightarrow> bool \<times> timer" where
  "timer_stop t = (tm_active t \<or> tm_pending t, t\<lparr>tm_active := False, tm_pending := False\<rparr>)"

definition raft_stop :: "'st raft \<Rightarrow> 'st raft" where
  "raft_stop re =
     (let re1 = (if stop_closed re then re else re\<lparr>stop_closed := True\<rparr>);
          re2 = re1\<lparr>election_timer := map_option (\<lambda>t. snd (timer_stop t)) (election_timer re1)\<rparr>
      in re2\<lparr>heartbeat_timer := map_option (\<lambda>t. snd (timer_stop t)) (heartbeat_timer re2)\<rparr>)"

definition reset_election_timeout :: "int \<Rightarrow> 'st raft \<Rightarrow> 'st raft" where
  "reset_election_timeout draw re = (case election_timer re of
      None \<Rightarrow> re
    | Some t \<Rightarrow>
        (let (was_active, t1) = timer_stop t;
             t2 = (if \<not> was_active then t1\<lparr>tm_pending := False\<rparr> else t1)
         in re\<lparr>election_timer := Some (t2\<lparr>tm_active := True, tm_timeout := election_timeout draw\<rparr>)\<rparr>))"

section \<open>The log\<close>

definition get_last_log_index :: "'st raft \<Rightarrow> int" where
  "get_last_log_index re =
     (if length (log re) = 0 then sn_last_index (snap re) else le_index (log re ! (length (log re) - 1)))"

definition get_last_log_term :: "'st raft \<Rightarrow> int" where
  "get_last_log_term re =
     (if length (log re) = 0 then sn_last_term (snap re) else le_term (log re ! (length (log re) - 1)))"

definition propose :: "'st raft_deps \<Rightarrow> bytes \<Rightarrow> 'st raft \<Rightarrow> 'st raft \<times> go_error option" where
  "propose d data re =
     (if role re \<noteq> RoleLeader then
        (re, Some (NewError (''node '' @ node_id re @ '' is not leader (current role: '' @ role_string (role re) @ '')'')))
      else
        (let new_index = wrap64 (get_last_log_index re + 1);
             new_entry = \<lparr>le_index = new_index, le_term = current_term re, le_data = data\<rparr>;
             re1 = persist_state d (re\<lparr>log := log re @ [new_entry]\<rparr>);
             re2 = re1\<lparr>commit_index := new_index, last_applied := new_index\<rparr>
         in (re2\<lparr>commit_chan := try_send (commit_chan re2) data\<rparr>, None)))"

definition compact_log :: "'st raft_deps \<Rightarrow> int \<Rightarrow> bytes \<Rightarrow> 'st raft \<Rightarrow> ('st raft \<times> go_error option) go_call" where
  "compact_log d snapshot_index state_data re =
     (if snapshot_index \<le> sn_last_index (snap re) \<or> snapshot_index > commit_index re then
        Return (re, Some (NewError (''invalid snapshot index '' @ fmt_d snapshot_index @ '' (commitIndex: '' @
          fmt_d (commit_index re) @ '', lastSnapshot: '' @ fmt_d (sn_last_index (snap re)) @ '')'')))
      else
        (let relative_index = wrap64 (snapshot_index - sn_last_index (snap re))
         in if relative_index < 0 \<or> int (length (log re)) \<le> relative_index then Panic
            else
              (let snapshot_term = le_term (log re ! nat relative_index);
                   re1 = re\<lparr>snap := \<lparr>sn_last_index = snapshot_index, sn_last_term = snapshot_term,
                                      sn_data = state_data\<rparr>\<rparr>;
                   re2 = re1\<lparr>log := [\<lparr>le_index = snapshot_index, le_term = snapshot_term, le_data = []\<rparr>]
                               @ drop (nat relative_index + 1) (log re1)\<rparr>
               in Return (persist_state d re2, None))))"

section \<open>Handlers\<close>

definition handle_request_vote :: "'st raft_deps \<Rightarrow> int \<Rightarrow> request_vote_args \<Rightarrow> 'st raft
    \<Rightarrow> 'st raft \<times> request_vote_reply" where
  "handle_request_vote d draw args re =
     (let reply = \<lparr>vr_term = current_term re, vr_granted = False\<rparr>
      in if rv_term args < current_term re then (re, reply)
         else
           (let re1 = (if rv_term args > current_term re
                       then re\<lparr>current_term := rv_term args, role := RoleFollower, voted_for := []\<rparr>
                       else re);
                last_index = get_last_log_index re1;
                (re2, reply2) =
                  (if (voted_for re1 = [] \<or> voted_for re1 = rv_candidate_id args) \<and> rv_last_log_index args \<ge> last_index
                   then (reset_election_timeout draw (re1\<lparr>voted_for := rv_candidate_id args\<rparr>),
                         reply\<lparr>vr_granted := True\<rparr>)
                   else (re1, reply))
            in (persist_state d re2, reply2)))"

text \<open>
  The body of the loop that delivers committed entries: \<^verbatim>\<open>lastApplied++\<close> cannot overflow, since
  it only runs while \<open>last_applied < commit_index\<close>.
\<close>

definition apply_next :: "'st raft \<Rightarrow> 'st raft" where
  "apply_next re =
     (let re1 = re\<lparr>last_applied := last_applied re + 1\<rparr>;
          rel_app_index = wrap64 (last_applied re1 - sn_last_index (snap re1))
      in if rel_app_index \<ge> 0 \<and> rel_app_index < int (length (log re1)) then
           (let entry_data = le_data (log re1 ! nat rel_app_index)
            in if length entry_data > 0 then re1\<lparr>commit_chan := try_send (commit_chan re1) entry_data\<rparr> else re1)
         else re1)"

lemma apply_next_sel [simp]:
  "last_applied (apply_next re) = last_applied re + 1" "commit_index (apply_next re) = commit_index re"
  "log (apply_next re) = log re" "snap (apply_next re) = snap re"
  "current_term (apply_next re) = current_term re" "voted_for (apply_next re) = voted_for re"
  "role (apply_next re) = role re" "peers (apply_next re) = peers re" "node_id (apply_next re) = node_id re"
  "raft_storage (apply_next re) = raft_storage re" "election_timer (apply_next re) = election_timer re"
  "stop_closed (apply_next re) = stop_closed re" "heartbeat_timer (apply_next re) = heartbeat_timer re"
  by (simp_all add: apply_next_def Let_def)

function apply_committed :: "'st raft \<Rightarrow> 'st raft" where
  "apply_committed re = (if last_applied re < commit_index re then apply_committed (apply_next re) else re)"
  by pat_completeness auto
termination
  by (relation "measure (\<lambda>re. nat (commit_index re - last_applied re))") auto

declare apply_committed.simps [simp del]

definition advance_commit :: "int \<Rightarrow> 'st raft \<Rightarrow> 'st raft" where
  "advance_commit leader_commit re =
     (if leader_commit > commit_index re then
        (let re1 = re\<lparr>commit_index := leader_commit\<rparr>;
             max_index = get_last_log_index re1;
             re2 = (if commit_index re1 > max_index then re1\<lparr>commit_index := max_index\<rparr> else re1)
         in apply_committed re2)
      else re)"

definition handle_append_entries :: "'st raft_deps \<Rightarrow> int \<Rightarrow> append_entries_args \<Rightarrow> 'st raft
    \<Rightarrow> 'st raft \<times> append_entries_reply" where
  "handle_append_entries d draw args re =
     (let reply = \<lparr>ar_term = current_term re, ar_success = False\<rparr>
      in if ae_term args < current_term re then (re, reply)
         else
           (let re1 = (if ae_term args > current_term re \<or> role re = RoleCandidate
                       then re\<lparr>current_term := ae_term args, role := RoleFollower, voted_for := []\<rparr>
                       else re);
                re2 = reset_election_timeout draw re1;
                relative_prev_index = wrap64 (ae_prev_log_index args - sn_last_index (snap re2))
            in if relative_prev_index < 0 \<or> relative_prev_index \<ge> int (length (log re2))
                  \<or> le_term (log re2 ! nat relative_prev_index) \<noteq> ae_prev_log_term args
               then (re2, reply)
               else
                 (let re3 = re2\<lparr>log := take (nat relative_prev_index + 1) (log re2)\<rparr>;
                      re4 = re3\<lparr>log := log re3 @ ae_entries args\<rparr>;
                      re5 = persist_state d re4;
                      re6 = advance_commit (ae_leader_commit args) re5
                  in (re6, reply\<lparr>ar_success := True\<rparr>))))"

section \<open>Elections\<close>

text \<open>
  \<^verbatim>\<open>startElection\<close> launches one goroutine per other peer. No message is sent: the request is built
  and discarded, and the goroutine counts a vote. A \<open>ballot\<close> is what the goroutines of one
  election share: its term, its count, the discarded request, and how many have yet to run.
\<close>

record ballot =
  ba_term :: int
  ba_votes :: int
  ba_request :: request_vote_args
  ba_pending :: nat

definition start_election :: "'st raft_deps \<Rightarrow> int \<Rightarrow> 'st raft \<Rightarrow> 'st raft \<times> ballot" where
  "start_election d draw re =
     (let re1 = re\<lparr>role := RoleCandidate, current_term := wrap64 (current_term re + 1), voted_for := node_id re\<rparr>;
          re2 = reset_election_timeout draw (persist_state d re1);
          term = current_term re2
      in (re2, \<lparr>ba_term = term, ba_votes = 1,
                ba_request = \<lparr>rv_term = term, rv_candidate_id = node_id re2,
                              rv_last_log_index = get_last_log_index re2, rv_last_log_term = get_last_log_term re2\<rparr>,
                ba_pending = length (filter (\<lambda>p. p \<noteq> node_id re2) (peers re2))\<rparr>))"

text \<open>One of the goroutines, from \<^verbatim>\<open>voteMu.Lock\<close> to \<^verbatim>\<open>voteMu.Unlock\<close>.\<close>

definition count_vote :: "'st raft \<Rightarrow> ballot \<Rightarrow> 'st raft \<times> ballot" where
  "count_vote re b =
     (let b1 = b\<lparr>ba_votes := wrap64 (ba_votes b + 1), ba_pending := ba_pending b - 1\<rparr>
      in (if ba_votes b1 > int (length (peers re) div 2) \<and> role re = RoleCandidate \<and> current_term re = ba_term b1
          then re\<lparr>role := RoleLeader\<rparr> else re, b1))"

text \<open>\<^verbatim>\<open>sendHeartbeats\<close> returns on both branches without an effect.\<close>

definition send_heartbeats :: "'st raft \<Rightarrow> 'st raft" where
  "send_heartbeats re = (if role re \<noteq> RoleLeader then re else re)"

section \<open>Membership and reads\<close>

definition add_node :: string where "add_node = ''ADD_NODE''"

definition remove_node :: string where "remove_node = ''REMOVE_NODE''"

record membership_change =
  mc_type :: string
  mc_node_id :: string

record read_index_response =
  ri_read_index :: int
  ri_term :: int
  ri_success :: bool

definition propose_membership_change :: "'st raft_deps \<Rightarrow> membership_change \<Rightarrow> 'st raft \<Rightarrow> 'st raft \<times> go_error option" where
  "propose_membership_change d change re =
     (if role re \<noteq> RoleLeader then (re, Some (NewError ''only leader can propose membership changes''))
      else if mc_type change = add_node then
        (if mc_node_id change \<in> set (peers re)
         then (re, Some (NewError (''node '' @ mc_node_id change @ '' is already in dynamic membership list'')))
         else (persist_state d (re\<lparr>peers := peers re @ [mc_node_id change]\<rparr>), None))
      else if mc_type change = remove_node then
        (let updated_peers = filter (\<lambda>p. p \<noteq> mc_node_id change) (peers re);
             found = list_ex (\<lambda>p. \<not> p \<noteq> mc_node_id change) (peers re)
         in if \<not> found
            then (re, Some (NewError (''node '' @ mc_node_id change @ '' not found in dynamic membership list'')))
            else (persist_state d (re\<lparr>peers := updated_peers\<rparr>), None))
      else (persist_state d re, None))"

definition get_read_index :: "'st raft \<Rightarrow> read_index_response" where
  "get_read_index re =
     (if role re \<noteq> RoleLeader then \<lparr>ri_read_index = 0, ri_term = 0, ri_success = False\<rparr>
      else \<lparr>ri_read_index = commit_index re, ri_term = current_term re, ri_success = True\<rparr>)"

definition set_role :: "node_role \<Rightarrow> 'st raft \<Rightarrow> 'st raft" where
  "set_role r re = re\<lparr>role := r\<rparr>"

definition get_role :: "'st raft \<Rightarrow> node_role" where
  "get_role re = role re"

section \<open>What the helpers leave alone\<close>

lemma persist_state_sel [simp]:
  "node_id (persist_state d re) = node_id re" "peers (persist_state d re) = peers re"
  "current_term (persist_state d re) = current_term re" "voted_for (persist_state d re) = voted_for re"
  "log (persist_state d re) = log re" "snap (persist_state d re) = snap re"
  "commit_index (persist_state d re) = commit_index re" "last_applied (persist_state d re) = last_applied re"
  "role (persist_state d re) = role re" "commit_chan (persist_state d re) = commit_chan re"
  "election_timer (persist_state d re) = election_timer re" "stop_closed (persist_state d re) = stop_closed re"
  "heartbeat_timer (persist_state d re) = heartbeat_timer re"
  by (simp_all add: persist_state_def split: option.splits sum.splits)

lemma reset_election_timeout_sel [simp]:
  "node_id (reset_election_timeout r re) = node_id re" "peers (reset_election_timeout r re) = peers re"
  "current_term (reset_election_timeout r re) = current_term re" "voted_for (reset_election_timeout r re) = voted_for re"
  "log (reset_election_timeout r re) = log re" "snap (reset_election_timeout r re) = snap re"
  "commit_index (reset_election_timeout r re) = commit_index re" "last_applied (reset_election_timeout r re) = last_applied re"
  "role (reset_election_timeout r re) = role re" "commit_chan (reset_election_timeout r re) = commit_chan re"
  "raft_storage (reset_election_timeout r re) = raft_storage re" "stop_closed (reset_election_timeout r re) = stop_closed re"
  "heartbeat_timer (reset_election_timeout r re) = heartbeat_timer re"
  by (simp_all add: reset_election_timeout_def Let_def split: option.splits prod.splits)

lemma apply_committed_sel [simp]:
  "commit_index (apply_committed re) = commit_index re" "log (apply_committed re) = log re"
  "snap (apply_committed re) = snap re" "current_term (apply_committed re) = current_term re"
  "voted_for (apply_committed re) = voted_for re" "role (apply_committed re) = role re"
  "peers (apply_committed re) = peers re" "node_id (apply_committed re) = node_id re"
  "raft_storage (apply_committed re) = raft_storage re" "election_timer (apply_committed re) = election_timer re"
  "stop_closed (apply_committed re) = stop_closed re" "heartbeat_timer (apply_committed re) = heartbeat_timer re"
  by (induction re rule: apply_committed.induct; subst apply_committed.simps; simp)+

lemma last_applied_apply_committed [simp]:
  "last_applied (apply_committed re) = max (last_applied re) (commit_index re)"
  by (induction re rule: apply_committed.induct; subst apply_committed.simps; simp add: max_def)

lemma advance_commit_sel [simp]:
  "log (advance_commit c re) = log re" "snap (advance_commit c re) = snap re"
  "current_term (advance_commit c re) = current_term re" "voted_for (advance_commit c re) = voted_for re"
  "role (advance_commit c re) = role re" "peers (advance_commit c re) = peers re"
  "node_id (advance_commit c re) = node_id re" "raft_storage (advance_commit c re) = raft_storage re"
  "election_timer (advance_commit c re) = election_timer re" "stop_closed (advance_commit c re) = stop_closed re"
  "heartbeat_timer (advance_commit c re) = heartbeat_timer re"
  by (simp_all add: advance_commit_def Let_def)

lemma get_last_log_index_cong:
  "log a = log b \<Longrightarrow> snap a = snap b \<Longrightarrow> get_last_log_index a = get_last_log_index b"
  by (simp add: get_last_log_index_def)

lemma get_last_log_index_persist [simp]: "get_last_log_index (persist_state d re) = get_last_log_index re"
  by (rule get_last_log_index_cong) simp_all

lemma advance_commit_eq:
  "c > commit_index re \<Longrightarrow> advance_commit c re = apply_committed (re\<lparr>commit_index := min c (get_last_log_index re)\<rparr>)"
proof -
  have "get_last_log_index (re\<lparr>commit_index := c\<rparr>) = get_last_log_index re"
    by (rule get_last_log_index_cong) simp_all
  then show "c > commit_index re \<Longrightarrow> ?thesis" by (simp add: advance_commit_def Let_def min_def)
qed

text \<open>The commit index after the commit rule, and the two cases of a membership search.\<close>

lemma commit_index_advance:
  "commit_index (advance_commit c re) =
     (if c > commit_index re then min c (get_last_log_index re) else commit_index re)"
proof (cases "c > commit_index re")
  case True
  then show ?thesis by (simp add: advance_commit_eq)
next
  case False
  then show ?thesis by (simp add: advance_commit_def)
qed

lemma role_cases_string: "role_string r = ''Leader'' \<longleftrightarrow> r = RoleLeader"
  by (cases r) simp_all

end
