(* ===== verification/RaftLog.thy ===== *)
theory RaftLog
  imports RaftEngine
begin

text \<open>
  The replicated log seen by absolute index: the log slice starts with a sentinel at the index
  of the last snapshot, so the entry at index \<open>i\<close> sits at position \<open>i - lastIncludedIndex\<close>. The
  lemmas give \<^verbatim>\<open>HandleAppendEntries\<close>, \<^verbatim>\<open>CompactLog\<close> and \<^verbatim>\<open>Propose\<close> in these terms, what is
  delivered on the commit channel, and what goes wrong when a message older than the committed
  log arrives.
\<close>

section \<open>Absolute indices\<close>

definition entry_at :: "'st raft \<Rightarrow> int \<Rightarrow> log_entry option" where
  "entry_at re i = (let j = i - sn_last_index (snap re)
     in if 0 \<le> j \<and> j < int (length (log re)) then Some (log re ! nat j) else None)"

lemma entry_at_cong: "log a = log b \<Longrightarrow> snap a = snap b \<Longrightarrow> entry_at a i = entry_at b i"
  by (simp add: entry_at_def Let_def)

text \<open>The log fits in 64-bit indices, and every entry carries the index of its position.\<close>

definition log_bounds :: "'st raft \<Rightarrow> bool" where
  "log_bounds re \<longleftrightarrow> 0 \<le> sn_last_index (snap re) \<and> sn_last_index (snap re) + int (length (log re)) \<le> int64_max"

definition log_contiguous :: "'st raft \<Rightarrow> bool" where
  "log_contiguous re \<longleftrightarrow> log re \<noteq> [] \<and>
     (\<forall>i < length (log re). le_index (log re ! i) = sn_last_index (snap re) + int i)"

lemma last_index_contiguous:
  "log_contiguous re \<Longrightarrow> get_last_log_index re = sn_last_index (snap re) + int (length (log re)) - 1"
  by (auto simp: get_last_log_index_def log_contiguous_def of_nat_diff Suc_le_eq)

text \<open>
  The subtraction of the snapshot index may overflow for an absurd index; it then misses the log
  all the same.
\<close>

lemma relative_index:
  assumes "log_bounds re" and "in_int64 i"
  shows "(0 \<le> wrap64 (i - sn_last_index (snap re)) \<and> wrap64 (i - sn_last_index (snap re)) < int (length (log re)))
     \<longleftrightarrow> (0 \<le> i - sn_last_index (snap re) \<and> i - sn_last_index (snap re) < int (length (log re)))"
    and "0 \<le> i - sn_last_index (snap re) \<Longrightarrow> wrap64 (i - sn_last_index (snap re)) = i - sn_last_index (snap re)"
proof -
  let ?s = "sn_last_index (snap re)"
  have b: "0 \<le> ?s" "?s + int (length (log re)) \<le> 2 ^ 63 - 1" "- (2 ^ 63) \<le> i" "i \<le> 2 ^ 63 - 1"
    using assms by (auto simp: log_bounds_def in_int64_def int64_min_def int64_max_def)
  show id: "wrap64 (i - ?s) = i - ?s" if "0 \<le> i - ?s"
    by (rule wrap64_id) (use b that in \<open>simp add: in_int64_def int64_min_def int64_max_def\<close>)
  show "(0 \<le> wrap64 (i - ?s) \<and> wrap64 (i - ?s) < int (length (log re)))
     \<longleftrightarrow> (0 \<le> i - ?s \<and> i - ?s < int (length (log re)))"
  proof (cases "- (2 ^ 63) \<le> i - ?s")
    case True
    then have "in_int64 (i - ?s)" using b by (simp add: in_int64_def int64_min_def int64_max_def)
    then show ?thesis by simp
  next
    case False
    have "(i - ?s + 2 ^ 63) mod 2 ^ 64 = (i - ?s + 2 ^ 63 + 2 ^ 64) mod 2 ^ 64"
      by (rule mod_add_self2 [symmetric])
    also have "\<dots> = i - ?s + 2 ^ 63 + 2 ^ 64"
      using b False by (intro mod_pos_pos_trivial) simp_all
    finally have "wrap64 (i - ?s) = i - ?s + 2 ^ 64" by (simp add: wrap64_def)
    with b False show ?thesis by simp
  qed
qed

lemma entry_at_wrap:
  assumes "log_bounds re" and "in_int64 i"
  shows "entry_at re i =
     (let j = wrap64 (i - sn_last_index (snap re))
      in if 0 \<le> j \<and> j < int (length (log re)) then Some (log re ! nat j) else None)"
  using relative_index [OF assms] by (auto simp: entry_at_def Let_def)

section \<open>Delivery\<close>

lemma chan_buf_sends:
  "chan_buf (foldl try_send ch xs) = chan_buf ch @ take (chan_cap ch - length (chan_buf ch)) xs"
proof (induction xs arbitrary: ch)
  case Nil
  then show ?case by simp
next
  case (Cons x xs)
  have "chan_buf (foldl try_send ch (x # xs))
      = chan_buf (try_send ch x) @ take (chan_cap ch - length (chan_buf (try_send ch x))) xs"
    using Cons.IH [of "try_send ch x"] by simp
  also have "\<dots> = chan_buf ch @ take (chan_cap ch - length (chan_buf ch)) (x # xs)"
    by (simp add: try_send_def take_Cons')
  finally show ?case .
qed

text \<open>The data of the entries in a range of indices; an entry without data (a sentinel) is skipped.\<close>

definition committed_data :: "'st raft \<Rightarrow> int \<Rightarrow> int \<Rightarrow> bytes list" where
  "committed_data re lo hi = concat (map (\<lambda>i. case entry_at re i of None \<Rightarrow> []
      | Some e \<Rightarrow> (if le_data e = [] then [] else [le_data e])) [lo + 1..hi])"

lemma committed_data_cong:
  "log a = log b \<Longrightarrow> snap a = snap b \<Longrightarrow> committed_data a lo hi = committed_data b lo hi"
  by (simp add: committed_data_def entry_at_cong [of a b])

lemma committed_data_step:
  "lo < hi \<Longrightarrow> committed_data re lo hi =
     (case entry_at re (lo + 1) of None \<Rightarrow> [] | Some e \<Rightarrow> (if le_data e = [] then [] else [le_data e]))
     @ committed_data re (lo + 1) hi"
  by (simp add: committed_data_def upto_rec1)

lemma committed_data_empty: "hi \<le> lo \<Longrightarrow> committed_data re lo hi = []"
  by (simp add: committed_data_def)

lemma log_bounds_cong: "log a = log b \<Longrightarrow> snap a = snap b \<Longrightarrow> log_bounds a = log_bounds b"
  by (simp add: log_bounds_def)

lemma commit_chan_apply_next:
  assumes "log_bounds re" and "in_int64 (last_applied re + 1)"
  shows "commit_chan (apply_next re) = foldl try_send (commit_chan re)
     (case entry_at re (last_applied re + 1) of None \<Rightarrow> [] | Some e \<Rightarrow> (if le_data e = [] then [] else [le_data e]))"
proof -
  have "entry_at re (last_applied re + 1) =
     (let j = wrap64 (last_applied re + 1 - sn_last_index (snap re))
      in if 0 \<le> j \<and> j < int (length (log re)) then Some (log re ! nat j) else None)"
    by (rule entry_at_wrap) fact+
  then show ?thesis by (simp add: apply_next_def Let_def)
qed

lemma commit_chan_apply_committed:
  assumes "log_bounds re" and "in_int64 (last_applied re)" and "commit_index re \<le> int64_max"
  shows "commit_chan (apply_committed re) =
     foldl try_send (commit_chan re) (committed_data re (last_applied re) (commit_index re))"
  using assms
proof (induction re rule: apply_committed.induct)
  case (1 re)
  show ?case
  proof (cases "last_applied re < commit_index re")
    case True
    have next64: "in_int64 (last_applied re + 1)"
      using "1.prems" True by (simp add: in_int64_def)
    have "commit_chan (apply_committed (apply_next re)) = foldl try_send (commit_chan (apply_next re))
        (committed_data (apply_next re) (last_applied re + 1) (commit_index re))"
      using "1.IH" [OF True] "1.prems" next64 log_bounds_cong [of "apply_next re" re] by simp
    also have "committed_data (apply_next re) (last_applied re + 1) (commit_index re)
        = committed_data re (last_applied re + 1) (commit_index re)"
      by (rule committed_data_cong) simp_all
    finally show ?thesis
      using True "1.prems"(1) next64
      by (subst apply_committed.simps) (simp add: commit_chan_apply_next committed_data_step)
  next
    case False
    then show ?thesis by (subst apply_committed.simps) (simp add: committed_data_empty)
  qed
qed

section \<open>AppendEntries\<close>

text \<open>A node accepts entries of a current term that fit behind an entry it has with the same term.\<close>

definition ae_accepts :: "'st raft \<Rightarrow> append_entries_args \<Rightarrow> bool" where
  "ae_accepts re args \<longleftrightarrow> current_term re \<le> ae_term args \<and>
     (\<exists>e. entry_at re (ae_prev_log_index args) = Some e \<and> le_term e = ae_prev_log_term args)"

text \<open>The state in front of the consistency check: term and role follow the message, the timer restarts.\<close>

definition ae_adopt :: "int \<Rightarrow> append_entries_args \<Rightarrow> 'st raft \<Rightarrow> 'st raft" where
  "ae_adopt draw args re = reset_election_timeout draw
     (if ae_term args > current_term re \<or> role re = RoleCandidate
      then re\<lparr>current_term := ae_term args, role := RoleFollower, voted_for := []\<rparr> else re)"

lemma ae_adopt_sel [simp]:
  "log (ae_adopt r args re) = log re" "snap (ae_adopt r args re) = snap re"
  "commit_index (ae_adopt r args re) = commit_index re" "last_applied (ae_adopt r args re) = last_applied re"
  "commit_chan (ae_adopt r args re) = commit_chan re" "raft_storage (ae_adopt r args re) = raft_storage re"
  "peers (ae_adopt r args re) = peers re" "node_id (ae_adopt r args re) = node_id re"
  "stop_closed (ae_adopt r args re) = stop_closed re"
  by (simp_all add: ae_adopt_def)

lemma current_term_ae_adopt:
  "current_term re \<le> ae_term args \<Longrightarrow> current_term (ae_adopt r args re) = ae_term args"
  by (auto simp: ae_adopt_def)

definition ae_write :: "'st raft_deps \<Rightarrow> int \<Rightarrow> append_entries_args \<Rightarrow> 'st raft \<Rightarrow> 'st raft" where
  "ae_write d draw args re = persist_state d ((ae_adopt draw args re)
     \<lparr>log := take (nat (ae_prev_log_index args - sn_last_index (snap re)) + 1) (log re) @ ae_entries args\<rparr>)"

lemma ae_write_sel [simp]:
  "log (ae_write d r args re) = take (nat (ae_prev_log_index args - sn_last_index (snap re)) + 1) (log re) @ ae_entries args"
  "snap (ae_write d r args re) = snap re" "commit_index (ae_write d r args re) = commit_index re"
  "last_applied (ae_write d r args re) = last_applied re" "commit_chan (ae_write d r args re) = commit_chan re"
  "current_term (ae_write d r args re) = current_term (ae_adopt r args re)"
  "peers (ae_write d r args re) = peers re" "node_id (ae_write d r args re) = node_id re"
  by (simp_all add: ae_write_def)

lemma handle_append_entries_cases:
  assumes "log_bounds re" and "in_int64 (ae_prev_log_index args)"
  shows "handle_append_entries d draw args re =
     (if ae_term args < current_term re then (re, \<lparr>ar_term = current_term re, ar_success = False\<rparr>)
      else if ae_accepts re args then
        (advance_commit (ae_leader_commit args) (ae_write d draw args re), \<lparr>ar_term = current_term re, ar_success = True\<rparr>)
      else (ae_adopt draw args re, \<lparr>ar_term = current_term re, ar_success = False\<rparr>))"
  using relative_index [OF assms]
  by (auto simp: handle_append_entries_def ae_accepts_def ae_adopt_def ae_write_def entry_at_def Let_def
      split: if_splits)

lemma entry_at_ae_write:
  assumes "entry_at re (ae_prev_log_index args) = Some e"
  shows "entry_at (ae_write d draw args re) i =
     (if i \<le> ae_prev_log_index args then entry_at re i
      else if i \<le> ae_prev_log_index args + int (length (ae_entries args))
           then Some (ae_entries args ! nat (i - ae_prev_log_index args - 1)) else None)"
proof -
  let ?s = "sn_last_index (snap re)" and ?p = "ae_prev_log_index args"
  have p: "0 \<le> ?p - ?s" "?p - ?s < int (length (log re))"
    using assms by (auto simp: entry_at_def Let_def split: if_splits)
  then have len: "length (take (nat (?p - ?s) + 1) (log re)) = nat (?p - ?s) + 1" by simp
  have shift: "nat (i - ?s) - (nat (?p - ?s) + 1) = nat (i - ?p - 1)" if "?p < i" using that p by linarith
  show ?thesis
    using p len shift by (auto simp: entry_at_def Let_def nth_append)
qed

section \<open>Compaction\<close>

text \<open>The invariant between commits and the log that \<^verbatim>\<open>CompactLog\<close> needs in order not to panic.\<close>

definition log_wf :: "'st raft \<Rightarrow> bool" where
  "log_wf re \<longleftrightarrow> log_contiguous re \<and> log_bounds re \<and> commit_index re \<le> get_last_log_index re"

lemma log_wf_set_role [simp]: "log_wf (set_role r re) = log_wf re"
  using get_last_log_index_cong [of "set_role r re" re]
  by (simp add: log_wf_def log_contiguous_def log_bounds_def set_role_def)

lemma compact_log_wf:
  assumes "log_wf re" and "sn_last_index (snap re) < i" and "i \<le> commit_index re"
  shows "\<exists>e. entry_at re i = Some e \<and> compact_log d i data re = Return
     (persist_state d (re\<lparr>snap := \<lparr>sn_last_index = i, sn_last_term = le_term e, sn_data = data\<rparr>,
        log := \<lparr>le_index = i, le_term = le_term e, le_data = []\<rparr> # drop (nat (i - sn_last_index (snap re)) + 1) (log re)\<rparr>), None)"
proof -
  let ?s = "sn_last_index (snap re)"
  from assms(1) have wf: "log_contiguous re" "log_bounds re" "commit_index re \<le> get_last_log_index re"
    by (simp_all add: log_wf_def)
  with assms(2,3) last_index_contiguous [OF wf(1)] have r: "0 \<le> i - ?s" "i - ?s < int (length (log re))" by simp_all
  have "wrap64 (i - ?s) = i - ?s"
    by (rule wrap64_id) (use wf(2) r in \<open>simp add: in_int64_def int64_min_def int64_max_def log_bounds_def\<close>)
  then show ?thesis
    using assms(2,3) r by (simp add: compact_log_def entry_at_def Let_def)
qed

lemma log_contiguous_append:
  assumes "log_contiguous re" and "le_index e = sn_last_index (snap re) + int (length (log re))"
  shows "log_contiguous (re\<lparr>log := log re @ [e]\<rparr>)"
  using assms by (auto simp: log_contiguous_def nth_append less_Suc_eq)


lemma get_last_log_index_last:
  "get_last_log_index re = (if log re = [] then sn_last_index (snap re) else le_index (last (log re)))"
  by (simp add: get_last_log_index_def last_conv_nth)

lemma last_index_ae_write:
  assumes "entry_at re (ae_prev_log_index args) = Some e"
  shows "get_last_log_index (ae_write d draw args re) =
     le_index (if ae_entries args = [] then e else last (ae_entries args))"
proof -
  let ?s = "sn_last_index (snap re)" and ?p = "ae_prev_log_index args"
  from assms have p: "0 \<le> ?p - ?s" "nat (?p - ?s) < length (log re)" "e = log re ! nat (?p - ?s)"
    by (auto simp: entry_at_def Let_def split: if_splits)
  then have "take (nat (?p - ?s) + 1) (log re) = take (nat (?p - ?s)) (log re) @ [e]"
    by (simp add: take_Suc_conv_app_nth)
  then show ?thesis
    by (simp add: get_last_log_index_last last_append del: take_append)
qed

lemma ae_accepts_cases:
  assumes "ae_accepts re args"
  obtains e where "entry_at re (ae_prev_log_index args) = Some e" "le_term e = ae_prev_log_term args"
    "current_term re \<le> ae_term args"
  using assms by (auto simp: ae_accepts_def)

text \<open>The handler on the two branches that matter.\<close>

lemma handle_ae_accept:
  assumes "log_bounds re" "in_int64 (ae_prev_log_index args)" "ae_accepts re args"
  shows "handle_append_entries d draw args re =
     (advance_commit (ae_leader_commit args) (ae_write d draw args re), \<lparr>ar_term = current_term re, ar_success = True\<rparr>)"
  using assms by (auto simp: handle_append_entries_cases ae_accepts_def)

lemma handle_ae_reject:
  assumes "log_bounds re" "in_int64 (ae_prev_log_index args)" "\<not> ae_accepts re args"
  shows "fst (handle_append_entries d draw args re) = (if ae_term args < current_term re then re else ae_adopt draw args re)"
    and "ar_success (snd (handle_append_entries d draw args re)) = False"
  using assms by (auto simp: handle_append_entries_cases ae_accepts_def)

text \<open>
  C4: \<^verbatim>\<open>HandleAppendEntries\<close> succeeds exactly when the term is current and the node has the
  preceding entry with the preceding term. On success the log is the node's own up to the
  preceding index and the message's entries behind it, nothing after, the term is the
  message's, and the commit index moves up to the leader's, never past the new last index, and
  never back. On failure log, commit index and commit channel are untouched.
\<close>

theorem append_entries_correct:
  assumes "log_bounds re" and "in_int64 (ae_prev_log_index args)"
  shows "case handle_append_entries d draw args re of (re', reply) \<Rightarrow>
     ar_success reply = ae_accepts re args \<and> ar_term reply = current_term re \<and>
     (if ae_accepts re args then
        (\<forall>i. entry_at re' i =
           (if i \<le> ae_prev_log_index args then entry_at re i
            else if i \<le> ae_prev_log_index args + int (length (ae_entries args))
                 then Some (ae_entries args ! nat (i - ae_prev_log_index args - 1)) else None)) \<and>
        current_term re' = ae_term args \<and>
        commit_index re' = (if ae_leader_commit args > commit_index re
           then min (ae_leader_commit args) (get_last_log_index re') else commit_index re)
      else log re' = log re \<and> commit_index re' = commit_index re \<and> commit_chan re' = commit_chan re)"
proof (cases "ae_accepts re args")
  case True
  then obtain e where e: "entry_at re (ae_prev_log_index args) = Some e" "current_term re \<le> ae_term args"
    by (rule ae_accepts_cases)
  let ?w = "ae_write d draw args re" and ?c = "ae_leader_commit args"
  have "entry_at (advance_commit ?c ?w) i = entry_at ?w i" for i
    by (rule entry_at_cong) simp_all
  moreover have "get_last_log_index (advance_commit ?c ?w) = get_last_log_index ?w"
    by (rule get_last_log_index_cong) simp_all
  ultimately show ?thesis
    using True e
    by (simp add: handle_ae_accept [OF assms True] entry_at_ae_write [OF e(1)] commit_index_advance current_term_ae_adopt)
next
  case False
  then show ?thesis
    using handle_ae_reject [OF assms False, of d draw]
    by (simp add: case_prod_beta handle_append_entries_cases [OF assms])
qed

lemma append_entries_delivery:
  assumes "log_bounds re" and "in_int64 (ae_prev_log_index args)" and "ae_accepts re args"
    and "log_bounds (fst (handle_append_entries d draw args re))"
    and "in_int64 (last_applied re)" and "in_int64 (ae_leader_commit args)" and "commit_index re < ae_leader_commit args"
  shows "chan_buf (commit_chan (fst (handle_append_entries d draw args re))) =
      chan_buf (commit_chan re) @ take (chan_cap (commit_chan re) - length (chan_buf (commit_chan re)))
        (committed_data (fst (handle_append_entries d draw args re)) (last_applied re)
           (commit_index (fst (handle_append_entries d draw args re)))) \<and>
     last_applied (fst (handle_append_entries d draw args re)) =
      max (last_applied re) (commit_index (fst (handle_append_entries d draw args re)))"
proof -
  let ?w = "ae_write d draw args re" and ?c = "ae_leader_commit args"
  let ?m = "?w\<lparr>commit_index := min ?c (get_last_log_index ?w)\<rparr>"
  have h: "fst (handle_append_entries d draw args re) = apply_committed ?m"
    using handle_ae_accept [OF assms(1-3)] assms(7)
    by (simp add: advance_commit_eq)
  have "log_bounds ?m"
    using assms(4) log_bounds_cong [of ?m "apply_committed ?m"] h by simp
  moreover have "min ?c (get_last_log_index ?w) \<le> int64_max"
    using assms(6) by (simp add: in_int64_def min.coboundedI1)
  ultimately have "commit_chan (apply_committed ?m) = foldl try_send (commit_chan ?m)
      (committed_data ?m (last_applied ?m) (commit_index ?m))"
    using assms(5) by (intro commit_chan_apply_committed) simp_all
  moreover have "committed_data ?m (last_applied re) (commit_index ?m)
      = committed_data (apply_committed ?m) (last_applied re) (commit_index ?m)"
    by (rule committed_data_cong) simp_all
  ultimately show ?thesis by (simp add: h chan_buf_sends)
qed

lemma compact_log_outcome:
  assumes "log_wf re"
  shows "if sn_last_index (snap re) < i \<and> i \<le> commit_index re
     then \<exists>e re'. entry_at re i = Some e \<and> compact_log d i data re = Return (re', None) \<and> log_wf re' \<and>
       snap re' = \<lparr>sn_last_index = i, sn_last_term = le_term e, sn_data = data\<rparr> \<and>
       (\<forall>j. entry_at re' j = (if j < i then None
          else if j = i then Some \<lparr>le_index = i, le_term = le_term e, le_data = []\<rparr> else entry_at re j)) \<and>
       get_last_log_index re' = get_last_log_index re \<and> commit_index re' = commit_index re
     else \<exists>err. compact_log d i data re = Return (re, Some err)"
proof (cases "sn_last_index (snap re) < i \<and> i \<le> commit_index re")
  case True
  let ?s = "sn_last_index (snap re)"
  from True obtain e where e: "entry_at re i = Some e"
    and c: "compact_log d i data re = Return (persist_state d (re\<lparr>snap := \<lparr>sn_last_index = i,
        sn_last_term = le_term e, sn_data = data\<rparr>, log := \<lparr>le_index = i, le_term = le_term e, le_data = []\<rparr>
        # drop (nat (i - ?s) + 1) (log re)\<rparr>), None)"
    using compact_log_wf [OF assms] by blast
  let ?re' = "persist_state d (re\<lparr>snap := \<lparr>sn_last_index = i, sn_last_term = le_term e, sn_data = data\<rparr>,
     log := \<lparr>le_index = i, le_term = le_term e, le_data = []\<rparr> # drop (nat (i - ?s) + 1) (log re)\<rparr>)"
  from assms have wf: "log_contiguous re" "log_bounds re" "commit_index re \<le> get_last_log_index re"
    by (simp_all add: log_wf_def)
  from wf(1) have idx: "\<And>k. k < length (log re) \<Longrightarrow> le_index (log re ! k) = ?s + int k" by (simp add: log_contiguous_def)
  have r: "?s < i" "i - ?s < int (length (log re))" using True wf(3) last_index_contiguous [OF wf(1)] by simp_all
  have cont: "log_contiguous ?re'"
    using r by (auto simp: log_contiguous_def nth_Cons idx split: nat.splits)
  have last: "get_last_log_index ?re' = get_last_log_index re"
    unfolding last_index_contiguous [OF cont] last_index_contiguous [OF wf(1)] using r by (simp add: of_nat_diff)
  have "log_bounds ?re'" using wf(2) r by (simp add: log_bounds_def of_nat_diff)
  with cont last wf(3) have wf': "log_wf ?re'" by (simp add: log_wf_def)
  have "entry_at ?re' j = (if j < i then None
      else if j = i then Some \<lparr>le_index = i, le_term = le_term e, le_data = []\<rparr> else entry_at re j)" for j
  proof (cases "i < j")
    case True
    then have "nat (j - i) = Suc (nat (j - i) - 1)" "Suc (nat (i - ?s)) + (nat (j - i) - 1) = nat (j - ?s)"
      using r by linarith+
    then show ?thesis using r True by (simp add: entry_at_def Let_def nth_Cons' of_nat_diff)
  qed (auto simp: entry_at_def Let_def)
  then have "\<forall>j. entry_at ?re' j = (if j < i then None
      else if j = i then Some \<lparr>le_index = i, le_term = le_term e, le_data = []\<rparr> else entry_at re j)" by blast
  with e c wf' last show ?thesis
    unfolding if_P [OF True] by (intro exI [of _ e] exI [of _ ?re'] conjI; simp)
next
  case False
  then show ?thesis by (auto simp: compact_log_def)
qed

text \<open>
  C19: What an accepted message delivers: the data of the entries from the last applied index to
  the new commit index, in order, entries without data skipped, and of those only as many as the
  commit channel has room for; the rest is dropped although the node counts it as applied.
\<close>

theorem append_entries_delivers:
  assumes "log_bounds re" and "in_int64 (ae_prev_log_index args)" and "ae_accepts re args"
    and "log_bounds (fst (handle_append_entries d draw args re))"
    and "in_int64 (last_applied re)" and "in_int64 (ae_leader_commit args)" and "commit_index re < ae_leader_commit args"
  shows "chan_buf (commit_chan (fst (handle_append_entries d draw args re))) =
      chan_buf (commit_chan re) @ take (chan_cap (commit_chan re) - length (chan_buf (commit_chan re)))
        (committed_data (fst (handle_append_entries d draw args re)) (last_applied re)
           (commit_index (fst (handle_append_entries d draw args re)))) \<and>
     last_applied (fst (handle_append_entries d draw args re)) =
      max (last_applied re) (commit_index (fst (handle_append_entries d draw args re)))"
  by (rule append_entries_delivery) fact+

section \<open>Proposals, and what keeps the log well-formed\<close>

lemma propose_outcome:
  assumes "log_wf re" and "sn_last_index (snap re) + int (length (log re)) < int64_max"
  shows "case propose d data re of (re', err) \<Rightarrow>
     if role re = RoleLeader then
       err = None \<and> log re' = log re @ [\<lparr>le_index = get_last_log_index re + 1, le_term = current_term re, le_data = data\<rparr>] \<and>
       commit_index re' = get_last_log_index re + 1 \<and> last_applied re' = get_last_log_index re + 1 \<and>
       chan_buf (commit_chan re') = chan_buf (commit_chan re) @
         (if length (chan_buf (commit_chan re)) < chan_cap (commit_chan re) then [data] else []) \<and>
       log_wf re' \<and> peers re' = peers re
     else re' = re \<and> (\<exists>e. err = Some e)"
proof (cases "role re = RoleLeader")
  case True
  let ?s = "sn_last_index (snap re)" and ?l = "get_last_log_index re"
  let ?e = "\<lparr>le_index = ?l + 1, le_term = current_term re, le_data = data\<rparr>"
  let ?re1 = "persist_state d (re\<lparr>log := log re @ [?e]\<rparr>)"
  from assms(1) have wf: "log_contiguous re" "log_bounds re" by (simp_all add: log_wf_def)
  have l: "?l = ?s + int (length (log re)) - 1" by (rule last_index_contiguous [OF wf(1)])
  have w: "wrap64 (?l + 1) = ?l + 1"
    by (rule wrap64_id) (use wf(2) l in \<open>simp add: log_bounds_def int64_numerals int64_max_def\<close>)
  let ?re' = "?re1\<lparr>commit_index := ?l + 1, last_applied := ?l + 1, commit_chan := try_send (commit_chan re) data\<rparr>"
  have p: "propose d data re = (?re', None)"
    using True w by (simp add: propose_def Let_def)
  have "log_contiguous (re\<lparr>log := log re @ [?e]\<rparr>)"
    by (rule log_contiguous_append) (use wf(1) l in simp_all)
  then have "log_wf ?re'"
    using wf(2) assms(2)
    by (simp add: log_wf_def log_contiguous_def log_bounds_def get_last_log_index_def nth_append)
  then show ?thesis using True p by (simp add: try_send_def)
next
  case False
  then show ?thesis by (simp add: propose_def)
qed

text \<open>
  A message of an orderly leader: its entries are numbered behind the preceding index, reach the
  commit index of the receiver, and fit in 64-bit indices. It keeps the log well-formed.
\<close>

definition ae_orderly :: "'st raft \<Rightarrow> append_entries_args \<Rightarrow> bool" where
  "ae_orderly re args \<longleftrightarrow> in_int64 (ae_prev_log_index args) \<and>
     (\<forall>k < length (ae_entries args). le_index (ae_entries args ! k) = ae_prev_log_index args + 1 + int k) \<and>
     commit_index re \<le> ae_prev_log_index args + int (length (ae_entries args)) \<and>
     ae_prev_log_index args + int (length (ae_entries args)) < int64_max"

lemma log_contiguous_iff_entry_at:
  "log_contiguous re \<longleftrightarrow> log re \<noteq> [] \<and> (\<forall>i e. entry_at re i = Some e \<longrightarrow> le_index e = i)"
proof
  assume c: "log_contiguous re"
  then show "log re \<noteq> [] \<and> (\<forall>i e. entry_at re i = Some e \<longrightarrow> le_index e = i)"
    by (auto simp: log_contiguous_def entry_at_def Let_def split: if_splits)
next
  assume e: "log re \<noteq> [] \<and> (\<forall>i e. entry_at re i = Some e \<longrightarrow> le_index e = i)"
  have "le_index (log re ! k) = sn_last_index (snap re) + int k" if "k < length (log re)" for k
    using e that spec [of _ "sn_last_index (snap re) + int k"] by (auto simp: entry_at_def)
  with e show "log_contiguous re" by (simp add: log_contiguous_def)
qed

lemma log_wf_cong:
  "log a = log b \<Longrightarrow> snap a = snap b \<Longrightarrow> commit_index a = commit_index b \<Longrightarrow> log_wf a = log_wf b"
  using get_last_log_index_cong [of a b] by (simp add: log_wf_def log_contiguous_def log_bounds_def)

lemma log_wf_append_entries:
  assumes "log_wf re" and "ae_orderly re args"
  shows "log_wf (fst (handle_append_entries d draw args re))"
proof (cases "ae_accepts re args")
  case True
  let ?w = "ae_write d draw args re" and ?p = "ae_prev_log_index args" and ?es = "ae_entries args"
  from assms(1) have wf: "log_contiguous re" "log_bounds re" by (simp_all add: log_wf_def)
  from assms(2) have o: "in_int64 ?p" "commit_index re \<le> ?p + int (length ?es)" "?p + int (length ?es) < int64_max"
    "\<And>k. k < length ?es \<Longrightarrow> le_index (?es ! k) = ?p + 1 + int k"
    by (simp_all add: ae_orderly_def)
  obtain e where e: "entry_at re ?p = Some e" using True by (rule ae_accepts_cases)
  then have p: "sn_last_index (snap re) \<le> ?p" "?p - sn_last_index (snap re) < int (length (log re))"
    by (auto simp: entry_at_def Let_def split: if_splits)
  have cont: "log_contiguous ?w"
    unfolding log_contiguous_iff_entry_at
    using wf(1) p o(4) by (auto simp: log_contiguous_iff_entry_at entry_at_ae_write [OF e] split: if_splits)
  have len: "int (length (log ?w)) = ?p - sn_last_index (snap re) + 1 + int (length ?es)" using p by simp
  have last: "get_last_log_index ?w = ?p + int (length ?es)"
    unfolding last_index_contiguous [OF cont] len by simp
  let ?h = "advance_commit (ae_leader_commit args) ?w"
  have "get_last_log_index ?h = get_last_log_index ?w" by (rule get_last_log_index_cong) simp_all
  then have "log_wf ?h"
    using cont last len o(2,3) wf(2)
    by (simp add: log_wf_def log_contiguous_def log_bounds_def commit_index_advance del: ae_write_sel(1))
  then show ?thesis by (simp add: handle_ae_accept [OF wf(2) o(1) True])
next
  case False
  from assms have "log_bounds re" "in_int64 (ae_prev_log_index args)" by (simp_all add: log_wf_def ae_orderly_def)
  from handle_ae_reject(1) [OF this False, of d draw] assms(1) log_wf_cong [of "ae_adopt draw args re" re]
  show ?thesis by simp
qed

lemma log_wf_compact:
  assumes "log_wf re" and "compact_log d i data re = Return (re', err)"
  shows "log_wf re'"
  using compact_log_outcome [OF assms(1), of i d data] assms by (auto split: if_splits)

text \<open>Nodes and messages for the concrete runs: an empty node, and the first message of a leader.\<close>

definition sample_node :: "'st raft_deps \<Rightarrow> 'st raft" where
  "sample_node d = new_raft_engine d ''n1'' [''n1'', ''n2'', ''n3''] None"

definition sample_append :: "int \<Rightarrow> log_entry list \<Rightarrow> int \<Rightarrow> append_entries_args" where
  "sample_append prev es commit = \<lparr>ae_term = 1, ae_leader_id = ''n2'', ae_prev_log_index = prev,
     ae_prev_log_term = (if prev = 0 then 0 else 1), ae_entries = es, ae_leader_commit = commit\<rparr>"

definition sample_entry :: "int \<Rightarrow> bytes \<Rightarrow> log_entry" where
  "sample_entry i data = \<lparr>le_index = i, le_term = 1, le_data = data\<rparr>"

lemmas sample_defs = sample_node_def sample_append_def sample_entry_def new_raft_engine_def load_state_def

lemma sample_node_wf: "log_wf (sample_node d)"
  by (simp add: log_wf_def log_contiguous_def log_bounds_def get_last_log_index_def sample_defs int64_max_def)

theorem append_entries_correct_witness:
  "\<forall>(d :: 'st raft_deps) draw. log_bounds (sample_node d) \<and>
     ar_success (snd (handle_append_entries d draw (sample_append 0 [sample_entry 1 ''x''] 5) (sample_node d))) \<and>
     commit_index (fst (handle_append_entries d draw (sample_append 0 [sample_entry 1 ''x''] 5) (sample_node d))) = 1"
proof (intro allI)
  fix d :: "'st raft_deps" and draw
  let ?re = "sample_node d" and ?args = "sample_append 0 [sample_entry 1 ''x''] 5"
  have b: "log_bounds ?re" using sample_node_wf [of d] by (simp add: log_wf_def)
  have acc: "ae_accepts ?re ?args" by (simp add: ae_accepts_def entry_at_def sample_defs)
  have last: "get_last_log_index (fst (handle_append_entries d draw ?args ?re)) = 1"
  proof -
    have "in_int64 (ae_prev_log_index ?args)" by (simp add: sample_append_def int64_numerals)
    from handle_ae_accept [OF b this acc, of d draw] show ?thesis
      by (simp add: get_last_log_index_last sample_append_def sample_entry_def)
  qed
  have "in_int64 (ae_prev_log_index ?args)" by (simp add: sample_append_def int64_numerals)
  from append_entries_correct [OF b this, of d draw] acc last b
  show "log_bounds ?re \<and> ar_success (snd (handle_append_entries d draw ?args ?re))
      \<and> commit_index (fst (handle_append_entries d draw ?args ?re)) = 1"
    by (simp add: case_prod_beta) (simp add: sample_defs)
qed

theorem append_entries_delivers_witness:
  "\<forall>(d :: 'st raft_deps) draw. chan_buf (commit_chan (fst (handle_append_entries d draw
     (sample_append 0 [sample_entry 1 ''x'', sample_entry 2 ''y''] 2) (sample_node d)))) = [''x'', ''y'']"
proof (intro allI)
  fix d :: "'st raft_deps" and draw
  let ?re = "sample_node d" and ?args = "sample_append 0 [sample_entry 1 ''x'', sample_entry 2 ''y''] 2"
  let ?w = "ae_write d draw ?args ?re"
  have b: "log_bounds ?re" using sample_node_wf [of d] by (simp add: log_wf_def)
  have i: "in_int64 (ae_prev_log_index ?args)" "in_int64 (last_applied ?re)" "in_int64 (ae_leader_commit ?args)"
    by (simp_all add: sample_defs int64_numerals)
  have acc: "ae_accepts ?re ?args" by (simp add: ae_accepts_def entry_at_def sample_defs)
  have h: "fst (handle_append_entries d draw ?args ?re) = advance_commit 2 ?w"
    by (simp add: handle_ae_accept [OF b i(1) acc]) (simp add: sample_append_def)
  have l: "log ?w = [\<lparr>le_index = 0, le_term = 0, le_data = []\<rparr>, sample_entry 1 ''x'', sample_entry 2 ''y'']"
    by (simp add: sample_defs)
  then have "get_last_log_index ?w = 2" by (simp add: get_last_log_index_def sample_entry_def)
  then have c: "commit_index (advance_commit 2 ?w) = 2"
    by (simp add: commit_index_advance) (simp add: sample_defs)
  have b': "log_bounds (advance_commit 2 ?w)"
    using l by (simp add: log_bounds_def int64_max_def) (simp add: sample_defs)
  have data: "committed_data (advance_commit 2 ?w) 0 2 = [''x'', ''y'']"
    using l by (simp add: committed_data_step committed_data_empty entry_at_def del: ae_write_sel(1))
      (simp add: sample_defs)
  have new: "commit_index ?re < ae_leader_commit ?args" by (simp add: sample_defs)
  from append_entries_delivers [OF b i(1) acc _ i(2,3) new, of d draw] b' data c
  show "chan_buf (commit_chan (fst (handle_append_entries d draw ?args ?re))) = [''x'', ''y'']"
    by (simp add: h) (simp add: sample_defs)
qed

lemma last_index_numbered:
  assumes "log_contiguous re" and "entry_at re (ae_prev_log_index args) = Some e"
    and "\<forall>k < length (ae_entries args). le_index (ae_entries args ! k) = ae_prev_log_index args + 1 + int k"
  shows "get_last_log_index (ae_write d draw args re) = ae_prev_log_index args + int (length (ae_entries args))"
proof -
  let ?w = "ae_write d draw args re" and ?p = "ae_prev_log_index args" and ?es = "ae_entries args"
  have p: "sn_last_index (snap re) \<le> ?p" "?p - sn_last_index (snap re) < int (length (log re))"
    using assms(2) by (auto simp: entry_at_def Let_def split: if_splits)
  have cont: "log_contiguous ?w"
    unfolding log_contiguous_iff_entry_at
    using assms(1,3) p by (auto simp: log_contiguous_iff_entry_at entry_at_ae_write [OF assms(2)] split: if_splits)
  have len: "int (length (log ?w)) = ?p - sn_last_index (snap re) + 1 + int (length ?es)" using p by simp
  show ?thesis unfolding last_index_contiguous [OF cont] len by simp
qed

text \<open>
  C36: A message accepted behind an index below the commit index, with too few entries to reach it,
  takes committed entries out of the log: the message need not be in conflict with the log, an
  old one is enough. When it tells of no new commits, the commit index stays beyond the end of the
  log, and a later \<^verbatim>\<open>CompactLog\<close> at such an index, valid by its own check, indexes past the log and
  panics. When it tells of a larger commit index, the commit index moves back to the new end of the
  log, and \<^verbatim>\<open>CompactLog\<close> refuses the index. The entries are numbered from the index of the message.
\<close>

theorem stale_append_entries_loses_commits:
  assumes "log_wf re" and "in_int64 (ae_prev_log_index args)" and "ae_accepts re args"
    and "\<forall>k < length (ae_entries args). le_index (ae_entries args ! k) = ae_prev_log_index args + 1 + int k"
    and "ae_prev_log_index args + int (length (ae_entries args)) < i" and "i \<le> commit_index re"
  shows "(\<exists>e. entry_at re i = Some e) \<and>
     entry_at (fst (handle_append_entries d draw args re)) i = None \<and>
     (if ae_leader_commit args \<le> commit_index re
      then commit_index (fst (handle_append_entries d draw args re)) = commit_index re \<and>
        compact_log d i data (fst (handle_append_entries d draw args re)) = Panic
      else commit_index (fst (handle_append_entries d draw args re)) = ae_prev_log_index args + int (length (ae_entries args)) \<and>
        (\<exists>err. compact_log d i data (fst (handle_append_entries d draw args re)) =
           Return (fst (handle_append_entries d draw args re), Some err)))"
proof -
  let ?s = "sn_last_index (snap re)" and ?w = "ae_write d draw args re" and ?re' = "fst (handle_append_entries d draw args re)"
  from assms(1) have wf: "log_contiguous re" "log_bounds re" "commit_index re \<le> get_last_log_index re"
    by (simp_all add: log_wf_def)
  obtain e where e: "entry_at re (ae_prev_log_index args) = Some e"
    using assms(3) by (rule ae_accepts_cases)
  then have "?s \<le> ae_prev_log_index args" by (auto simp: entry_at_def Let_def split: if_splits)
  with assms(5) have s: "?s < i" by linarith
  have h: "?re' = advance_commit (ae_leader_commit args) ?w" by (simp add: handle_ae_accept [OF wf(2) assms(2,3)])
  have none: "entry_at ?w i = None" using assms(5) by (simp add: entry_at_ae_write [OF e])
  have c: "commit_index ?w = commit_index re" by simp
  have last: "get_last_log_index ?w = ae_prev_log_index args + int (length (ae_entries args))"
    by (rule last_index_numbered [OF wf(1) e assms(4)])
  have old: "\<exists>e. entry_at re i = Some e" using compact_log_wf [OF assms(1) s assms(6)] by blast
  have "entry_at ?re' i = entry_at ?w i" by (rule entry_at_cong) (simp_all add: h)
  then have gone: "entry_at ?re' i = None" using none by simp
  show ?thesis
  proof (cases "ae_leader_commit args \<le> commit_index re")
    case True
    then have w: "?re' = ?w" by (simp add: h advance_commit_def)
    have "in_int64 (i - ?s)"
      using wf(2,3) last_index_contiguous [OF wf(1)] s assms(6) by (simp add: int64_numerals log_bounds_def int64_max_def)
    then have "wrap64 (i - ?s) = i - ?s" by simp
    moreover have "int (length (log ?w)) \<le> i - ?s"
      using none s by (simp add: entry_at_def Let_def not_less split: if_splits)
    ultimately have "compact_log d i data ?w = Panic"
      using s assms(6) unfolding compact_log_def by (simp add: Let_def del: ae_write_sel(1))
    then show ?thesis using True old none by (simp add: w)
  next
    case False
    then have ci: "commit_index ?re' = ae_prev_log_index args + int (length (ae_entries args))"
      using last c assms(5,6) by (simp add: h commit_index_advance)
    then have "\<exists>err. compact_log d i data ?re' = Return (?re', Some err)"
      using assms(5) unfolding compact_log_def by simp
    then show ?thesis using False old gone ci by simp
  qed
qed

theorem stale_append_entries_loses_commits_witness:
  "\<exists>re :: 'st raft. \<exists>args. \<forall>d draw data. log_wf re \<and> (\<exists>e. entry_at re 2 = Some e) \<and>
     compact_log d 2 data (fst (handle_append_entries d draw args re)) = Panic"
proof -
  let ?re = "(sample_node undefined)
    \<lparr>log := [sample_entry 0 [], sample_entry 1 ''x'', sample_entry 2 ''y''], commit_index := 2\<rparr> :: 'st raft"
  let ?args = "sample_append 1 [] 0"
  have wf: "log_wf ?re"
    by (auto simp: log_wf_def log_contiguous_def log_bounds_def get_last_log_index_def sample_defs int64_max_def
        less_Suc_eq numeral_2_eq_2)
  have i: "in_int64 (ae_prev_log_index ?args)" by (simp add: sample_append_def int64_numerals)
  have acc: "ae_accepts ?re ?args"
    by (simp add: ae_accepts_def entry_at_def) (simp add: sample_defs)
  have "\<forall>k < length (ae_entries ?args). le_index (ae_entries ?args ! k) = ae_prev_log_index ?args + 1 + int k"
    "ae_prev_log_index ?args + int (length (ae_entries ?args)) < 2" "2 \<le> commit_index ?re" by (simp_all add: sample_append_def)
  note stale = stale_append_entries_loses_commits [OF wf i acc this]
  have "ae_leader_commit ?args \<le> commit_index ?re" by (simp add: sample_append_def)
  then have "compact_log d 2 data (fst (handle_append_entries d draw ?args ?re)) = Panic" for d draw data
    using stale [of d draw data] by simp
  with stale wf show ?thesis by blast
qed

text \<open>
  C20: \<^verbatim>\<open>Propose\<close> on a leader puts the data behind the log under the current term and commits and
  applies it in the same call, before any other node has it; the data reaches the commit channel
  unless its buffer is full. A node in another role returns an error and changes nothing.
\<close>

theorem propose_correct:
  assumes "log_wf re" and "sn_last_index (snap re) + int (length (log re)) < int64_max"
  shows "case propose d data re of (re', err) \<Rightarrow>
     if role re = RoleLeader then
       err = None \<and> log re' = log re @ [\<lparr>le_index = get_last_log_index re + 1, le_term = current_term re, le_data = data\<rparr>] \<and>
       commit_index re' = get_last_log_index re + 1 \<and> last_applied re' = get_last_log_index re + 1 \<and>
       chan_buf (commit_chan re') = chan_buf (commit_chan re) @
         (if length (chan_buf (commit_chan re)) < chan_cap (commit_chan re) then [data] else []) \<and>
       log_wf re' \<and> peers re' = peers re
     else re' = re \<and> (\<exists>e. err = Some e)"
  by (rule propose_outcome) fact+

theorem propose_correct_witness:
  "\<forall>(d :: 'st raft_deps). log_wf (set_role RoleLeader (sample_node d)) \<and>
     commit_index (fst (propose d ''x'' (set_role RoleLeader (sample_node d)))) = 1 \<and>
     chan_buf (commit_chan (fst (propose d ''x'' (set_role RoleLeader (sample_node d))))) = [''x'']"
proof
  fix d :: "'st raft_deps"
  let ?re = "set_role RoleLeader (sample_node d)"
  have wf: "log_wf ?re" using sample_node_wf [of d] by simp
  have b: "sn_last_index (snap ?re) + int (length (log ?re)) < int64_max"
    by (simp add: set_role_def sample_defs int64_max_def)
  from propose_correct [OF wf b, where d = d and data = "''x''"] wf
  show "log_wf ?re \<and> commit_index (fst (propose d ''x'' ?re)) = 1
      \<and> chan_buf (commit_chan (fst (propose d ''x'' ?re))) = [''x'']"
    by (auto simp: case_prod_beta set_role_def get_last_log_index_def) (simp_all add: sample_defs)
qed

text \<open>
  C18: On a node whose log covers its commits, \<^verbatim>\<open>CompactLog\<close> never panics. At an index behind the
  last snapshot and not behind the commit index it keeps every later entry and the last index,
  turns the entry at the index into the sentinel and forgets the earlier ones; at any other
  index it returns an error and changes nothing.
\<close>

theorem compact_log_correct:
  assumes "log_wf re"
  shows "if sn_last_index (snap re) < i \<and> i \<le> commit_index re
     then \<exists>e re'. entry_at re i = Some e \<and> compact_log d i data re = Return (re', None) \<and> log_wf re' \<and>
       snap re' = \<lparr>sn_last_index = i, sn_last_term = le_term e, sn_data = data\<rparr> \<and>
       (\<forall>j. entry_at re' j = (if j < i then None
          else if j = i then Some \<lparr>le_index = i, le_term = le_term e, le_data = []\<rparr> else entry_at re j)) \<and>
       get_last_log_index re' = get_last_log_index re \<and> commit_index re' = commit_index re
     else \<exists>err. compact_log d i data re = Return (re, Some err)"
  by (rule compact_log_outcome) fact

theorem compact_log_correct_witness:
  "\<exists>re re' :: 'st raft. log_wf re \<and> compact_log undefined 1 ''s'' re = Return (re', None) \<and>
     entry_at re' 0 = None \<and> entry_at re' 2 = Some (sample_entry 2 ''y'')"
proof -
  let ?re = "(sample_node undefined)
    \<lparr>log := [sample_entry 0 [], sample_entry 1 ''x'', sample_entry 2 ''y''], commit_index := 2\<rparr> :: 'st raft"
  have wf: "log_wf ?re"
    by (auto simp: log_wf_def log_contiguous_def log_bounds_def get_last_log_index_def sample_defs int64_max_def
        less_Suc_eq numeral_2_eq_2)
  have "sn_last_index (snap ?re) < 1 \<and> 1 \<le> commit_index ?re" by (simp add: sample_node_def new_raft_engine_def load_state_def)
  note compact_log_correct [OF wf, where i = 1 and d = undefined and data = "''s''", unfolded if_P [OF this]]
  then obtain t re' where
    re': "compact_log undefined 1 ''s'' ?re = Return (re', None)"
      "\<forall>j. entry_at re' j = (if j < 1 then None
        else if j = 1 then Some \<lparr>le_index = 1, le_term = t, le_data = []\<rparr> else entry_at ?re j)"
    by (elim exE conjE) (rule that)
  have "entry_at ?re 2 = Some (sample_entry 2 ''y'')" by (simp add: entry_at_def) (simp add: sample_defs)
  with re'(2) have "entry_at re' 0 = None" "entry_at re' 2 = Some (sample_entry 2 ''y'')" by simp_all
  with wf re'(1) show ?thesis by blast
qed

end
