(* ===== verification/RaftElection.thy ===== *)
theory RaftElection
  imports RaftLog
begin

text \<open>
  Votes and elections of one node as functions: when \<^verbatim>\<open>HandleRequestVote\<close> grants, what
  \<^verbatim>\<open>HandleAppendEntries\<close> does to term, vote and role, and what \<^verbatim>\<open>startElection\<close> and one of its
  goroutines leave alone.
\<close>

section \<open>Votes\<close>

definition vote_granted_when :: "'st raft \<Rightarrow> request_vote_args \<Rightarrow> bool" where
  "vote_granted_when re args \<longleftrightarrow> current_term re \<le> rv_term args \<and>
     (current_term re < rv_term args \<or> voted_for re = [] \<or> voted_for re = rv_candidate_id args) \<and>
     get_last_log_index re \<le> rv_last_log_index args"

lemma last_index_vote_fields [simp]:
  "get_last_log_index (re\<lparr>current_term := t, role := r, voted_for := v\<rparr>) = get_last_log_index re"
  by (rule get_last_log_index_cong) simp_all

lemma handle_request_vote_reply:
  "snd (handle_request_vote d draw args re) = \<lparr>vr_term = current_term re, vr_granted = vote_granted_when re args\<rparr>"
  by (auto simp: handle_request_vote_def vote_granted_when_def Let_def)

lemma handle_request_vote_sel [simp]:
  "log (fst (handle_request_vote d draw args re)) = log re"
  "snap (fst (handle_request_vote d draw args re)) = snap re"
  "commit_index (fst (handle_request_vote d draw args re)) = commit_index re"
  "last_applied (fst (handle_request_vote d draw args re)) = last_applied re"
  "commit_chan (fst (handle_request_vote d draw args re)) = commit_chan re"
  "peers (fst (handle_request_vote d draw args re)) = peers re"
  "node_id (fst (handle_request_vote d draw args re)) = node_id re"
  "stop_closed (fst (handle_request_vote d draw args re)) = stop_closed re"
  by (simp_all add: handle_request_vote_def Let_def)

lemma current_term_request_vote [simp]:
  "current_term (fst (handle_request_vote d draw args re)) = max (current_term re) (rv_term args)"
  by (auto simp: handle_request_vote_def Let_def)

lemma voted_for_request_vote [simp]:
  "voted_for (fst (handle_request_vote d draw args re)) =
     (if vote_granted_when re args then rv_candidate_id args
      else if current_term re < rv_term args then [] else voted_for re)"
  by (auto simp: handle_request_vote_def vote_granted_when_def Let_def)

lemma role_request_vote [simp]:
  "role (fst (handle_request_vote d draw args re)) = (if current_term re < rv_term args then RoleFollower else role re)"
  by (auto simp: handle_request_vote_def Let_def)

text \<open>
  A vote is granted exactly when the candidate's term is not behind the node's, the node has
  not voted for another in that term, and the candidate's last index is not behind the node's;
  the node then has the candidate's term and its vote recorded. Log and commit state never
  change. The term of the candidate's last entry plays no part, and the reply carries the term
  the node had before it adopted the candidate's.
\<close>

theorem request_vote_correct:
  "case handle_request_vote d draw args re of (re', reply) \<Rightarrow>
     vr_granted reply = vote_granted_when re args \<and> vr_term reply = current_term re \<and>
     current_term re' = max (current_term re) (rv_term args) \<and>
     voted_for re' = (if vr_granted reply then rv_candidate_id args
        else if current_term re < rv_term args then [] else voted_for re) \<and>
     role re' = (if current_term re < rv_term args then RoleFollower else role re) \<and>
     log re' = log re \<and> snap re' = snap re \<and> commit_index re' = commit_index re \<and>
     (\<forall>x. handle_request_vote d draw (args\<lparr>rv_last_log_term := x\<rparr>) re = (re', reply))"
proof -
  have "handle_request_vote d draw (args\<lparr>rv_last_log_term := x\<rparr>) re = handle_request_vote d draw args re" for x
    by (auto simp: handle_request_vote_def Let_def)
  moreover obtain re' reply where h: "handle_request_vote d draw args re = (re', reply)" by fastforce
  ultimately show ?thesis
    using handle_request_vote_reply [of d draw args re] handle_request_vote_sel [of d draw args re]
      current_term_request_vote [of d draw args re] voted_for_request_vote [of d draw args re]
      role_request_vote [of d draw args re] by simp
qed

section \<open>What AppendEntries does to term, vote and role\<close>

lemma handle_append_entries_shape:
  "fst (handle_append_entries d draw args re) =
     (if ae_term args < current_term re then re
      else if ar_success (snd (handle_append_entries d draw args re))
      then advance_commit (ae_leader_commit args) (persist_state d ((ae_adopt draw args re)
        \<lparr>log := take (nat (wrap64 (ae_prev_log_index args - sn_last_index (snap re))) + 1) (log re) @ ae_entries args\<rparr>))
      else ae_adopt draw args re)"
  by (auto simp: handle_append_entries_def ae_adopt_def Let_def)

lemma term_vote_ae_adopt:
  "current_term re \<le> ae_term args \<Longrightarrow> voted_for (ae_adopt draw args re) =
     (if ae_term args > current_term re \<or> role re = RoleCandidate then [] else voted_for re)"
  "current_term re \<le> ae_term args \<Longrightarrow> role (ae_adopt draw args re) =
     (if ae_term args > current_term re \<or> role re = RoleCandidate then RoleFollower else role re)"
  by (simp_all add: ae_adopt_def)

lemma handle_append_entries_term_vote [simp]:
  "current_term (fst (handle_append_entries d draw args re)) = max (current_term re) (ae_term args)"
  "voted_for (fst (handle_append_entries d draw args re)) =
     (if current_term re < ae_term args \<or> current_term re = ae_term args \<and> role re = RoleCandidate then [] else voted_for re)"
  "role (fst (handle_append_entries d draw args re)) =
     (if current_term re < ae_term args \<or> current_term re = ae_term args \<and> role re = RoleCandidate
      then RoleFollower else role re)"
  "peers (fst (handle_append_entries d draw args re)) = peers re"
  "node_id (fst (handle_append_entries d draw args re)) = node_id re"
  "snap (fst (handle_append_entries d draw args re)) = snap re"
  by (auto simp: handle_append_entries_shape current_term_ae_adopt term_vote_ae_adopt max_def not_less)

lemma handle_append_entries_timer:
  "election_timer (fst (handle_append_entries d draw args re)) =
     (if ae_term args < current_term re then election_timer re else election_timer (reset_election_timeout draw re))"
  by (auto simp: handle_append_entries_shape ae_adopt_def reset_election_timeout_def Let_def split: option.splits prod.splits)

text \<open>
  C35: A candidate that receives an \<^verbatim>\<open>AppendEntries\<close> of its own term forgets its vote, even when the
  message fails the consistency check, and then grants its vote to whoever asks in that term with
  a log that is not behind: it has voted twice in one term.
\<close>

theorem candidate_votes_twice:
  assumes "role re = RoleCandidate" and "ae_term a = current_term re" and "rv_term v = current_term re"
    and "get_last_log_index (fst (handle_append_entries d r a re)) \<le> rv_last_log_index v"
  shows "vr_granted (snd (handle_request_vote d r' v (fst (handle_append_entries d r a re)))) \<and>
     current_term (fst (handle_request_vote d r' v (fst (handle_append_entries d r a re)))) = current_term re \<and>
     voted_for (fst (handle_request_vote d r' v (fst (handle_append_entries d r a re)))) = rv_candidate_id v"
  using assms by (simp add: handle_request_vote_reply vote_granted_when_def)

section \<open>Elections\<close>

lemma start_election_sel [simp]:
  "role (fst (start_election d draw re)) = RoleCandidate"
  "current_term (fst (start_election d draw re)) = wrap64 (current_term re + 1)"
  "voted_for (fst (start_election d draw re)) = node_id re"
  "log (fst (start_election d draw re)) = log re"
  "snap (fst (start_election d draw re)) = snap re"
  "commit_index (fst (start_election d draw re)) = commit_index re"
  "last_applied (fst (start_election d draw re)) = last_applied re"
  "commit_chan (fst (start_election d draw re)) = commit_chan re"
  "peers (fst (start_election d draw re)) = peers re"
  "node_id (fst (start_election d draw re)) = node_id re"
  "stop_closed (fst (start_election d draw re)) = stop_closed re"
  "ba_term (snd (start_election d draw re)) = wrap64 (current_term re + 1)"
  "ba_votes (snd (start_election d draw re)) = 1"
  "ba_pending (snd (start_election d draw re)) = length (filter (\<lambda>p. p \<noteq> node_id re) (peers re))"
  by (simp_all add: start_election_def Let_def)

lemma count_vote_node:
  "fst (count_vote re b) = re \<or> (fst (count_vote re b) = re\<lparr>role := RoleLeader\<rparr> \<and>
     role re = RoleCandidate \<and> current_term re = ba_term b)"
  by (simp add: count_vote_def Let_def)

lemma count_vote_sel [simp]:
  "current_term (fst (count_vote re b)) = current_term re" "voted_for (fst (count_vote re b)) = voted_for re"
  "log (fst (count_vote re b)) = log re" "snap (fst (count_vote re b)) = snap re"
  "commit_index (fst (count_vote re b)) = commit_index re" "last_applied (fst (count_vote re b)) = last_applied re"
  "commit_chan (fst (count_vote re b)) = commit_chan re" "peers (fst (count_vote re b)) = peers re"
  "node_id (fst (count_vote re b)) = node_id re" "stop_closed (fst (count_vote re b)) = stop_closed re"
  "election_timer (fst (count_vote re b)) = election_timer re" "raft_storage (fst (count_vote re b)) = raft_storage re"
  "ba_term (snd (count_vote re b)) = ba_term b" "ba_pending (snd (count_vote re b)) = ba_pending b - 1"
  "ba_votes (snd (count_vote re b)) = wrap64 (ba_votes b + 1)"
  by (simp_all add: count_vote_def Let_def)

definition sample_vote :: "int \<Rightarrow> string \<Rightarrow> request_vote_args" where
  "sample_vote t cid = \<lparr>rv_term = t, rv_candidate_id = cid, rv_last_log_index = 0, rv_last_log_term = 0\<rparr>"

text \<open>A candidate of term 1 that voted for itself, a refused message, and the vote it gives away.\<close>

theorem candidate_votes_twice_witness:
  "\<forall>(d :: 'st raft_deps). let re = fst (start_election d 0 (sample_node d)); a = sample_append 9 [] 0;
       re1 = fst (handle_append_entries d 0 a re); re2 = fst (handle_request_vote d 0 (sample_vote 1 ''n2'') re1)
     in current_term re = 1 \<and> voted_for re = ''n1'' \<and> \<not> ar_success (snd (handle_append_entries d 0 a re))
        \<and> current_term re2 = 1 \<and> voted_for re2 = ''n2''"
proof
  fix d :: "'st raft_deps"
  let ?re = "fst (start_election d 0 (sample_node d))" and ?a = "sample_append 9 [] 0" and ?v = "sample_vote 1 ''n2''"
  have t: "current_term ?re = 1" "voted_for ?re = ''n1''" "log ?re = [\<lparr>le_index = 0, le_term = 0, le_data = []\<rparr>]"
    "snap ?re = \<lparr>sn_last_index = 0, sn_last_term = 0, sn_data = []\<rparr>"
    by (simp_all add: sample_defs int64_numerals)
  have w: "wrap64 9 = 9" by (simp add: int64_numerals)
  have fails: "\<not> ar_success (snd (handle_append_entries d 0 ?a ?re))"
    using t w by (auto simp: handle_append_entries_def Let_def sample_append_def)
  then have "fst (handle_append_entries d 0 ?a ?re) = ae_adopt 0 ?a ?re"
    using t by (simp add: handle_append_entries_shape) (simp add: sample_append_def)
  then have "get_last_log_index (fst (handle_append_entries d 0 ?a ?re)) = 0"
    using t by (simp add: get_last_log_index_def)
  then have "get_last_log_index (fst (handle_append_entries d 0 ?a ?re)) \<le> rv_last_log_index ?v"
    by (simp add: sample_vote_def)
  moreover have "role ?re = RoleCandidate" "ae_term ?a = current_term ?re" "rv_term ?v = current_term ?re"
    using t by (simp_all add: sample_append_def sample_vote_def)
  ultimately show "let re = ?re; a = ?a; re1 = fst (handle_append_entries d 0 a re);
       re2 = fst (handle_request_vote d 0 ?v re1)
     in current_term re = 1 \<and> voted_for re = ''n1'' \<and> \<not> ar_success (snd (handle_append_entries d 0 a re))
        \<and> current_term re2 = 1 \<and> voted_for re2 = ''n2''"
    using candidate_votes_twice [of ?re ?a ?v d 0 0] t fails by (simp add: Let_def sample_vote_def)
qed

lemma length_filter_neq:
  assumes "distinct xs" and "x \<in> set xs"
  shows "length (filter (\<lambda>p. p \<noteq> x) xs) = length xs - 1"
proof -
  have "filter (\<lambda>p. p \<noteq> x) xs = remove1 x xs"
    using assms(1) by (simp add: distinct_remove1_removeAll removeAll_filter_not_eq eq_commute)
  then show ?thesis using assms(2) by (simp add: length_remove1)
qed

end
