(* ===== verification/RaftSystem.thy ===== *)
theory RaftSystem
  imports RaftElection
begin

text \<open>
  A node in operation: the loop goroutine that \<^verbatim>\<open>Start\<close> launches, the goroutines of its elections,
  the timer, and the calls that come from outside, interleaved at the granularity of the mutex.
  \<open>raft_step\<close> is the labelled step relation, one rule per place the code can move at;
  \<open>raft_run\<close> is a sequence of steps.
\<close>

section \<open>The run-time state\<close>

text \<open>
  The loop reads the role under the lock, then blocks in the \<^verbatim>\<open>select\<close> of that role, and, once a tick
  has arrived, calls \<^verbatim>\<open>startElection\<close>: three separate moments, between which others may take the lock.
\<close>

datatype loop_pc = NotStarted | AtTop | WaitElection | Electing | WaitTick | Exited

record 'st raft_run_state =
  node :: "'st raft"
  ballots :: "ballot list"
  pc :: loop_pc
  ctx_done :: bool
  crashed :: bool

definition initial_run :: "'st raft_deps \<Rightarrow> string \<Rightarrow> string list \<Rightarrow> 'st option \<Rightarrow> 'st raft_run_state" where
  "initial_run d nid ps store = \<lparr>node = new_raft_engine d nid ps store, ballots = [], pc = NotStarted,
                                 ctx_done = False, crashed = False\<rparr>"

datatype raft_event =
    EvStart int
  | EvReadRole
  | EvTimerFires
  | EvTick
  | EvElect int
  | EvHeartbeat
  | EvExit
  | EvCancel
  | EvStop
  | EvVote nat
  | EvRequest request_vote_args int request_vote_reply
  | EvAppend append_entries_args int append_entries_reply
  | EvPropose bytes "go_error option"
  | EvCompact int bytes "go_error option"
  | EvCompactPanic int bytes
  | EvMembership membership_change "go_error option"
  | EvSetRole node_role
  | EvDeliver bytes

definition tick_pending :: "'st raft \<Rightarrow> bool" where
  "tick_pending re = (case election_timer re of None \<Rightarrow> False | Some t \<Rightarrow> tm_pending t)"

definition loop_after_read :: "node_role \<Rightarrow> loop_pc" where
  "loop_after_read r = (case r of RoleFollower \<Rightarrow> WaitElection | RoleCandidate \<Rightarrow> WaitElection
      | RoleLeader \<Rightarrow> WaitTick | RoleUnknown _ \<Rightarrow> AtTop)"

section \<open>Steps\<close>

text \<open>
  The premises on a message are its type, a 64-bit term, and on a draw the range of
  \<^verbatim>\<open>rnd.Intn(150)\<close>. A panic of \<^verbatim>\<open>CompactLog\<close> ends the process, after which nothing moves. A run has
  one loop: \<^verbatim>\<open>Start\<close> has no guard and a second call would put a second loop beside the first, with
  a timer of its own; nothing in the repository starts an engine twice, and such runs are not covered.
\<close>

inductive raft_step :: "'st raft_deps \<Rightarrow> 'st raft_run_state \<Rightarrow> raft_event \<Rightarrow> 'st raft_run_state \<Rightarrow> bool"
  for d :: "'st raft_deps" where
  start: "\<not> crashed s \<Longrightarrow> pc s = NotStarted \<Longrightarrow> 0 \<le> r \<Longrightarrow> r < 150 \<Longrightarrow>
    raft_step d s (EvStart r) (s\<lparr>node := raft_start r (node s), pc := AtTop\<rparr>)"
| read_role: "\<not> crashed s \<Longrightarrow> pc s = AtTop \<Longrightarrow>
    raft_step d s EvReadRole (s\<lparr>pc := loop_after_read (role (node s))\<rparr>)"
| timer_fires: "\<not> crashed s \<Longrightarrow> election_timer (node s) = Some t \<Longrightarrow> tm_active t \<Longrightarrow>
    raft_step d s EvTimerFires (s\<lparr>node := (node s)\<lparr>election_timer := Some (t\<lparr>tm_active := False, tm_pending := True\<rparr>)\<rparr>\<rparr>)"
| tick: "\<not> crashed s \<Longrightarrow> pc s = WaitElection \<Longrightarrow> election_timer (node s) = Some t \<Longrightarrow> tm_pending t \<Longrightarrow>
    raft_step d s EvTick (s\<lparr>node := (node s)\<lparr>election_timer := Some (t\<lparr>tm_pending := False\<rparr>)\<rparr>, pc := Electing\<rparr>)"
| elect: "\<not> crashed s \<Longrightarrow> pc s = Electing \<Longrightarrow> 0 \<le> r \<Longrightarrow> r < 150 \<Longrightarrow>
    raft_step d s (EvElect r) (s\<lparr>node := fst (start_election d r (node s)),
      ballots := ballots s @ [snd (start_election d r (node s))], pc := AtTop\<rparr>)"
| heartbeat: "\<not> crashed s \<Longrightarrow> pc s = WaitTick \<Longrightarrow>
    raft_step d s EvHeartbeat (s\<lparr>node := send_heartbeats (node s), pc := AtTop\<rparr>)"
| loop_exit: "\<not> crashed s \<Longrightarrow> pc s = WaitElection \<or> pc s = WaitTick \<Longrightarrow> stop_closed (node s) \<or> ctx_done s \<Longrightarrow>
    raft_step d s EvExit (s\<lparr>pc := Exited\<rparr>)"
| cancel: "\<not> crashed s \<Longrightarrow> raft_step d s EvCancel (s\<lparr>ctx_done := True\<rparr>)"
| stop: "\<not> crashed s \<Longrightarrow> raft_step d s EvStop (s\<lparr>node := raft_stop (node s)\<rparr>)"
| vote: "\<not> crashed s \<Longrightarrow> k < length (ballots s) \<Longrightarrow> 0 < ba_pending (ballots s ! k) \<Longrightarrow>
    raft_step d s (EvVote k) (s\<lparr>node := fst (count_vote (node s) (ballots s ! k)),
      ballots := (ballots s)[k := snd (count_vote (node s) (ballots s ! k))]\<rparr>)"
| request: "\<not> crashed s \<Longrightarrow> in_int64 (rv_term args) \<Longrightarrow> 0 \<le> r \<Longrightarrow> r < 150 \<Longrightarrow>
    raft_step d s (EvRequest args r (snd (handle_request_vote d r args (node s))))
      (s\<lparr>node := fst (handle_request_vote d r args (node s))\<rparr>)"
| append_entries: "\<not> crashed s \<Longrightarrow> in_int64 (ae_term args) \<Longrightarrow> 0 \<le> r \<Longrightarrow> r < 150 \<Longrightarrow>
    raft_step d s (EvAppend args r (snd (handle_append_entries d r args (node s))))
      (s\<lparr>node := fst (handle_append_entries d r args (node s))\<rparr>)"
| proposal: "\<not> crashed s \<Longrightarrow>
    raft_step d s (EvPropose data (snd (propose d data (node s)))) (s\<lparr>node := fst (propose d data (node s))\<rparr>)"
| compact: "\<not> crashed s \<Longrightarrow> compact_log d i data (node s) = Return (re, err) \<Longrightarrow>
    raft_step d s (EvCompact i data err) (s\<lparr>node := re\<rparr>)"
| compact_panic: "\<not> crashed s \<Longrightarrow> compact_log d i data (node s) = Panic \<Longrightarrow>
    raft_step d s (EvCompactPanic i data) (s\<lparr>crashed := True\<rparr>)"
| membership: "\<not> crashed s \<Longrightarrow>
    raft_step d s (EvMembership change (snd (propose_membership_change d change (node s))))
      (s\<lparr>node := fst (propose_membership_change d change (node s))\<rparr>)"
| assign_role: "\<not> crashed s \<Longrightarrow> raft_step d s (EvSetRole r) (s\<lparr>node := set_role r (node s)\<rparr>)"
| deliver: "\<not> crashed s \<Longrightarrow> recv (commit_chan (node s)) = Some (x, ch) \<Longrightarrow>
    raft_step d s (EvDeliver x) (s\<lparr>node := (node s)\<lparr>commit_chan := ch\<rparr>\<rparr>)"

text \<open>A run whose every event satisfies \<open>g\<close> in the state it happens in; \<open>anything\<close> allows all of them.\<close>

inductive raft_run :: "('st raft_run_state \<Rightarrow> raft_event \<Rightarrow> bool) \<Rightarrow> 'st raft_deps \<Rightarrow>
    'st raft_run_state \<Rightarrow> raft_event list \<Rightarrow> 'st raft_run_state \<Rightarrow> bool"
  for g :: "'st raft_run_state \<Rightarrow> raft_event \<Rightarrow> bool" and d :: "'st raft_deps" where
  run_nil: "raft_run g d s [] s"
| run_cons: "g s ev \<Longrightarrow> raft_step d s ev s' \<Longrightarrow> raft_run g d s' evs s'' \<Longrightarrow> raft_run g d s (ev # evs) s''"

definition anything :: "'st raft_run_state \<Rightarrow> raft_event \<Rightarrow> bool" where
  "anything s ev = True"

inductive_simps raft_run_Nil [simp]: "raft_run g d s [] s'"
inductive_simps raft_run_Cons: "raft_run g d s (ev # evs) s''"

inductive_cases elect_stepE: "raft_step d s (EvElect r) s'"
inductive_cases request_stepE: "raft_step d s (EvRequest args r reply) s'"
inductive_cases assign_role_stepE: "raft_step d s (EvSetRole r) s'"
inductive_cases append_stepE: "raft_step d s (EvAppend args r reply) s'"

lemma raft_run_append: "raft_run g d s (xs @ ys) s' \<longleftrightarrow> (\<exists>t. raft_run g d s xs t \<and> raft_run g d t ys s')"
  by (induction xs arbitrary: s) (auto simp: raft_run_Cons)

text \<open>An invariant of the steps holds at the end of every run that starts in it.\<close>

lemma raft_run_invariant:
  assumes "raft_run g d s evs s'" and "P s"
    and "\<And>t ev t'. g t ev \<Longrightarrow> raft_step d t ev t' \<Longrightarrow> P t \<Longrightarrow> P t'"
  shows "P s'"
  using assms by (induction rule: raft_run.induct) auto

section \<open>Timer, channel and loop\<close>

definition timer_ok :: "timer \<Rightarrow> bool" where
  "timer_ok t \<longleftrightarrow> \<not> (tm_active t \<and> tm_pending t) \<and> 150 \<le> tm_timeout t \<and> tm_timeout t < 300"

definition run_ok :: "'st raft_run_state \<Rightarrow> bool" where
  "run_ok s \<longleftrightarrow> chan_cap (commit_chan (node s)) = 1000 \<and> chan_ok (commit_chan (node s)) \<and>
     (case election_timer (node s) of None \<Rightarrow> pc s = NotStarted | Some t \<Rightarrow> pc s \<noteq> NotStarted \<and> timer_ok t)"

lemma election_timer_reset:
  "election_timer (reset_election_timeout r re) = map_option (\<lambda>t. t\<lparr>tm_active := True,
     tm_pending := False, tm_timeout := election_timeout r\<rparr>) (election_timer re)"
  by (auto simp: reset_election_timeout_def timer_stop_def Let_def split: option.splits)

lemma timer_ok_reset:
  "0 \<le> r \<Longrightarrow> r < 150 \<Longrightarrow> timer_ok t \<Longrightarrow>
     timer_ok (t\<lparr>tm_active := True, tm_pending := False, tm_timeout := election_timeout r\<rparr>)"
  by (simp add: timer_ok_def election_timeout_def)

lemma chan_ok_sends: "chan_ok ch \<Longrightarrow> chan_ok (foldl try_send ch xs)" and chan_cap_sends [simp]: "chan_cap (foldl try_send ch xs) = chan_cap ch"
  by (induction xs arbitrary: ch) simp_all

lemma commit_chan_apply_committed_ok [simp]:
  "chan_cap (commit_chan (apply_committed re)) = chan_cap (commit_chan re)"
  "chan_ok (commit_chan re) \<Longrightarrow> chan_ok (commit_chan (apply_committed re))"
proof -
  have next_cap: "chan_cap (commit_chan (apply_next re)) = chan_cap (commit_chan re)" for re :: "'a raft"
    by (simp add: apply_next_def Let_def)
  have next_ok: "chan_ok (commit_chan re) \<Longrightarrow> chan_ok (commit_chan (apply_next re))" for re :: "'a raft"
    by (simp add: apply_next_def Let_def)
  show "chan_cap (commit_chan (apply_committed re)) = chan_cap (commit_chan re)"
    by (induction re rule: apply_committed.induct; subst apply_committed.simps; simp add: next_cap)
  show "chan_ok (commit_chan re) \<Longrightarrow> chan_ok (commit_chan (apply_committed re))"
    by (induction re rule: apply_committed.induct; subst apply_committed.simps; simp add: next_ok)
qed

lemma commit_chan_advance [simp]:
  "chan_cap (commit_chan (advance_commit c re)) = chan_cap (commit_chan re)"
  "chan_ok (commit_chan re) \<Longrightarrow> chan_ok (commit_chan (advance_commit c re))"
  by (simp_all add: advance_commit_def Let_def)

lemma commit_chan_append_entries [simp]:
  "chan_cap (commit_chan (fst (handle_append_entries d r args re))) = chan_cap (commit_chan re)"
  "chan_ok (commit_chan re) \<Longrightarrow> chan_ok (commit_chan (fst (handle_append_entries d r args re)))"
  by (auto simp: handle_append_entries_shape)

lemma handle_request_vote_timer:
  "election_timer (fst (handle_request_vote d r args re)) =
     (if vote_granted_when re args then election_timer (reset_election_timeout r re) else election_timer re)"
  by (auto simp: handle_request_vote_def vote_granted_when_def election_timer_reset Let_def)

lemma membership_sel [simp]:
  "node_id (fst (propose_membership_change d c re)) = node_id re"
  "current_term (fst (propose_membership_change d c re)) = current_term re"
  "voted_for (fst (propose_membership_change d c re)) = voted_for re"
  "log (fst (propose_membership_change d c re)) = log re" "snap (fst (propose_membership_change d c re)) = snap re"
  "commit_index (fst (propose_membership_change d c re)) = commit_index re"
  "role (fst (propose_membership_change d c re)) = role re"
  "commit_chan (fst (propose_membership_change d c re)) = commit_chan re"
  "election_timer (fst (propose_membership_change d c re)) = election_timer re"
  by (simp_all add: propose_membership_change_def Let_def)

lemma propose_sel [simp]:
  "current_term (fst (propose d data re)) = current_term re" "voted_for (fst (propose d data re)) = voted_for re"
  "role (fst (propose d data re)) = role re" "peers (fst (propose d data re)) = peers re"
  "node_id (fst (propose d data re)) = node_id re" "election_timer (fst (propose d data re)) = election_timer re"
  "chan_cap (commit_chan (fst (propose d data re))) = chan_cap (commit_chan re)"
  "chan_ok (commit_chan re) \<Longrightarrow> chan_ok (commit_chan (fst (propose d data re)))"
  by (simp_all add: propose_def Let_def)

lemma compact_log_frame:
  assumes "compact_log d i data re = Return (re', err)"
  shows "current_term re' = current_term re" "voted_for re' = voted_for re" "role re' = role re"
    "peers re' = peers re" "node_id re' = node_id re" "election_timer re' = election_timer re"
    "commit_chan re' = commit_chan re" "commit_index re' = commit_index re"
  using assms by (auto simp: compact_log_def Let_def split: if_splits)

lemma raft_stop_sel [simp]:
  "current_term (raft_stop re) = current_term re" "voted_for (raft_stop re) = voted_for re"
  "role (raft_stop re) = role re" "peers (raft_stop re) = peers re" "node_id (raft_stop re) = node_id re"
  "log (raft_stop re) = log re" "snap (raft_stop re) = snap re" "commit_index (raft_stop re) = commit_index re"
  "commit_chan (raft_stop re) = commit_chan re" "stop_closed (raft_stop re)"
  "election_timer (raft_stop re) = map_option (\<lambda>t. t\<lparr>tm_active := False, tm_pending := False\<rparr>) (election_timer re)"
  by (simp_all add: raft_stop_def timer_stop_def Let_def)

lemma raft_start_sel [simp]:
  "current_term (raft_start r re) = current_term re" "voted_for (raft_start r re) = voted_for re"
  "role (raft_start r re) = role re" "peers (raft_start r re) = peers re" "node_id (raft_start r re) = node_id re"
  "log (raft_start r re) = log re" "snap (raft_start r re) = snap re" "commit_index (raft_start r re) = commit_index re"
  "commit_chan (raft_start r re) = commit_chan re"
  by (simp_all add: raft_start_def)

lemma set_role_sel [simp]:
  "current_term (set_role x re) = current_term re" "voted_for (set_role x re) = voted_for re"
  "role (set_role x re) = x" "peers (set_role x re) = peers re" "node_id (set_role x re) = node_id re"
  "log (set_role x re) = log re" "snap (set_role x re) = snap re" "commit_index (set_role x re) = commit_index re"
  "commit_chan (set_role x re) = commit_chan re" "election_timer (set_role x re) = election_timer re"
  by (simp_all add: set_role_def)

lemma send_heartbeats_id [simp]: "send_heartbeats re = re"
  by (simp add: send_heartbeats_def)

lemma start_election_timer:
  "election_timer (fst (start_election d r re)) = election_timer (reset_election_timeout r re)"
  by (simp add: start_election_def Let_def election_timer_reset)

lemma run_ok_step: "raft_step d s ev s' \<Longrightarrow> run_ok s \<Longrightarrow> run_ok s'"
proof (induction rule: raft_step.induct)
  case (read_role s)
  then show ?case by (auto simp: run_ok_def loop_after_read_def split: option.splits node_role.splits)
next
  case (start s r)
  then show ?case
    by (auto simp: run_ok_def raft_start_def timer_ok_def election_timeout_def split: option.splits)
next
  case (timer_fires s t)
  then show ?case by (auto simp: run_ok_def timer_ok_def)
next
  case (tick s t)
  then show ?case by (auto simp: run_ok_def timer_ok_def)
next
  case (elect s r)
  then show ?case
    by (auto simp: run_ok_def start_election_timer election_timer_reset timer_ok_reset split: option.splits)
next
  case (stop s)
  then show ?case by (auto simp: run_ok_def timer_ok_def split: option.splits)
next
  case (request s r args)
  then show ?case
    by (auto simp: run_ok_def handle_request_vote_timer election_timer_reset timer_ok_reset split: option.splits)
next
  case (append_entries s r args)
  then show ?case
    by (auto simp: run_ok_def handle_append_entries_timer election_timer_reset timer_ok_reset split: option.splits)
next
  case (compact s i data re err)
  then show ?case by (auto simp: run_ok_def compact_log_frame split: option.splits)
next
  case (deliver s x ch)
  then show ?case by (auto simp: run_ok_def chan_cap_recv chan_ok_recv split: option.splits)
next
  case (loop_exit s)
  then show ?case by (auto simp: run_ok_def split: option.splits)
next
  case (heartbeat s)
  then show ?case by (auto simp: run_ok_def split: option.splits)
qed (simp_all add: run_ok_def split: option.splits)

lemma new_raft_engine_sel [simp]:
  "node_id (new_raft_engine d nid ps st) = nid" "peers (new_raft_engine d nid ps st) = ps"
  "commit_index (new_raft_engine d nid ps st) = 0" "last_applied (new_raft_engine d nid ps st) = 0"
  "role (new_raft_engine d nid ps st) = RoleFollower" "commit_chan (new_raft_engine d nid ps st) = make_chan 1000"
  "election_timer (new_raft_engine d nid ps st) = None" "stop_closed (new_raft_engine d nid ps st) = False"
  by (simp_all add: new_raft_engine_def load_state_def split: option.splits sum.splits)

lemma run_ok_initial: "run_ok (initial_run d nid ps store)"
  by (simp add: run_ok_def initial_run_def)

text \<open>
  C29: In every reachable state of a node, whatever calls and messages it gets: the election timer
  exists exactly once the loop has been started, is never running with a tick still in its
  channel, and is set to at least 150 and less than 300 milliseconds; the commit channel keeps
  its capacity of 1000 and never holds more.
\<close>

theorem raft_timer_and_channel_invariant:
  assumes "raft_run anything d (initial_run d nid ps store) evs s"
  shows "chan_cap (commit_chan (node s)) = 1000 \<and> length (chan_buf (commit_chan (node s))) \<le> 1000 \<and>
     (case election_timer (node s) of None \<Rightarrow> pc s = NotStarted
      | Some t \<Rightarrow> pc s \<noteq> NotStarted \<and> \<not> (tm_active t \<and> tm_pending t) \<and> 150 \<le> tm_timeout t \<and> tm_timeout t < 300)"
proof -
  from assms have "run_ok s" by (rule raft_run_invariant) (auto intro: run_ok_initial run_ok_step)
  then show ?thesis by (auto simp: run_ok_def timer_ok_def chan_ok_def split: option.splits)
qed

section \<open>Terms and votes along a run\<close>

text \<open>
  The two events that can take a vote back: an election at the largest term, which wraps, and an
  \<^verbatim>\<open>AppendEntries\<close> of the term it is already in to a candidate.
\<close>

definition keeps_votes :: "'st raft_run_state \<Rightarrow> raft_event \<Rightarrow> bool" where
  "keeps_votes s ev = (case ev of EvElect _ \<Rightarrow> current_term (node s) < int64_max
     | EvAppend args _ _ \<Rightarrow> \<not> (role (node s) = RoleCandidate \<and> ae_term args = current_term (node s))
     | _ \<Rightarrow> True)"

definition vote_kept :: "'st raft \<Rightarrow> 'st raft \<Rightarrow> bool" where
  "vote_kept re re' \<longleftrightarrow> current_term re \<le> current_term re' \<and>
     (current_term re' = current_term re \<longrightarrow> voted_for re \<noteq> [] \<longrightarrow> voted_for re' = voted_for re)"

lemma vote_kept_refl [simp]: "vote_kept re re"
  by (simp add: vote_kept_def)

lemma vote_kept_trans: "vote_kept a b \<Longrightarrow> vote_kept b c \<Longrightarrow> vote_kept a c"
  by (auto simp: vote_kept_def)

lemma vote_kept_step:
  assumes "raft_step d s ev s'" and "keeps_votes s ev" and "in_int64 (current_term (node s))"
  shows "vote_kept (node s) (node s')"
  using assms
proof (induction rule: raft_step.induct)
  case (elect s r)
  then show ?case by (simp add: vote_kept_def keeps_votes_def wrap64_Suc)
next
  case (request s r args)
  then show ?case by (auto simp: vote_kept_def vote_granted_when_def)
next
  case (append_entries s r args)
  then show ?case by (auto simp: vote_kept_def keeps_votes_def)
next
  case (compact s i data re err)
  then show ?case by (simp add: vote_kept_def compact_log_frame)
qed (simp_all add: vote_kept_def)

lemma int64_max_of [simp]: "in_int64 a \<Longrightarrow> in_int64 b \<Longrightarrow> in_int64 (max a b)"
  by (simp add: max_def)

lemma term64_step: "raft_step d s ev s' \<Longrightarrow> in_int64 (current_term (node s)) \<Longrightarrow> in_int64 (current_term (node s'))"
  by (induction rule: raft_step.induct) (simp_all add: compact_log_frame)

lemma vote_kept_run:
  assumes "raft_run keeps_votes d s evs s'" and "in_int64 (current_term (node s))"
  shows "vote_kept (node s) (node s') \<and> in_int64 (current_term (node s'))"
  using assms
proof (induction rule: raft_run.induct)
  case (run_nil s)
  then show ?case by simp
next
  case (run_cons s ev s' evs s'')
  then show ?case by (meson vote_kept_step vote_kept_trans term64_step)
qed

lemma granted_vote_recorded:
  assumes "raft_step d s (EvRequest args r reply) s'" and "vr_granted reply"
  shows "current_term (node s') = rv_term args \<and> voted_for (node s') = rv_candidate_id args"
  using assms by (auto elim!: request_stepE simp: handle_request_vote_reply vote_granted_when_def)

text \<open>
  On a run in which no candidate is told of a leader of its own term and no election wraps the
  term, a node grants at most one candidate its vote in a term, whatever lies between the two
  requests.
\<close>

theorem one_vote_per_term:
  assumes "raft_run keeps_votes d s (xs @ EvRequest a r p # ys @ EvRequest b q u # zs) s'"
    and "in_int64 (current_term (node s))"
    and "vr_granted p" and "vr_granted u" and "rv_term a = rv_term b" and "rv_candidate_id a \<noteq> []"
  shows "rv_candidate_id a = rv_candidate_id b"
proof -
  from assms(1) obtain s1 s2 s3 s4 where
    runs: "raft_run keeps_votes d s xs s1" "raft_run keeps_votes d s2 ys s3" and
    first: "raft_step d s1 (EvRequest a r p) s2" and second: "raft_step d s3 (EvRequest b q u) s4"
    by (auto simp: raft_run_append raft_run_Cons)
  have b64: "in_int64 (current_term (node s1))" using vote_kept_run [OF runs(1) assms(2)] by blast
  have mid: "vote_kept (node s2) (node s3)" "in_int64 (current_term (node s3))"
    using vote_kept_run [OF runs(2) term64_step [OF first b64]] by blast+
  have "vote_kept (node s3) (node s4)"
    by (rule vote_kept_step [OF second _ mid(2)]) (simp add: keeps_votes_def)
  with mid(1) have "vote_kept (node s2) (node s4)" by (rule vote_kept_trans)
  with granted_vote_recorded [OF first assms(3)] granted_vote_recorded [OF second assms(4)] assms(5,6)
  show ?thesis by (simp add: vote_kept_def)
qed

section \<open>How a node becomes leader\<close>

text \<open>Runs on a fixed peer list.\<close>

definition fixed_membership :: "'st raft_run_state \<Rightarrow> raft_event \<Rightarrow> bool" where
  "fixed_membership s ev = (case ev of EvMembership _ _ \<Rightarrow> False | _ \<Rightarrow> True)"

definition ballot_ok :: "nat \<Rightarrow> ballot \<Rightarrow> bool" where
  "ballot_ok n b \<longleftrightarrow> 1 \<le> ba_votes b \<and> ba_votes b + int (ba_pending b) \<le> 1 + int n"

definition leader_won :: "'st raft_run_state \<Rightarrow> bool" where
  "leader_won s \<longleftrightarrow> (role (node s) = RoleLeader \<longrightarrow> (\<exists>b \<in> set (ballots s).
     ba_term b = current_term (node s) \<and> int (length (peers (node s)) div 2) < ba_votes b \<and> 1 < ba_votes b))"

definition ballots_ok :: "nat \<Rightarrow> 'st raft_run_state \<Rightarrow> bool" where
  "ballots_ok n s \<longleftrightarrow> length (peers (node s)) = n \<and> (\<forall>b \<in> set (ballots s). ballot_ok n b)"

lemma ballot_ok_count:
  assumes "ballot_ok n b" and "0 < ba_pending b" and "int n < int64_max"
  shows "ba_votes (snd (count_vote re b)) = ba_votes b + 1" and "ballot_ok n (snd (count_vote re b))"
proof -
  have "in_int64 (ba_votes b + 1)"
    using assms by (simp add: ballot_ok_def int64_numerals int64_max_def)
  then show "ba_votes (snd (count_vote re b)) = ba_votes b + 1" by simp
  with assms show "ballot_ok n (snd (count_vote re b))" by (simp add: ballot_ok_def of_nat_diff)
qed

lemma in_set_update_other: "b \<in> set xs \<Longrightarrow> b \<noteq> xs ! k \<Longrightarrow> b \<in> set (xs[k := x])"
  by (metis in_set_conv_nth length_list_update nth_list_update_neq)

lemma ballots_ok_step:
  assumes "raft_step d s ev s'" and "fixed_membership s ev" and "int n < int64_max" and "ballots_ok n s"
  shows "ballots_ok n s'"
  using assms
proof (induction rule: raft_step.induct)
  case (elect s r)
  have "length (filter (\<lambda>p. p \<noteq> node_id (node s)) (peers (node s))) \<le> length (peers (node s))" by simp
  with elect show ?case by (auto simp: ballots_ok_def ballot_ok_def simp del: length_filter_le)
next
  case (vote s k)
  then have "ballot_ok n (snd (count_vote (node s) (ballots s ! k)))"
    by (intro ballot_ok_count) (simp_all add: ballots_ok_def)
  moreover have "set ((ballots s)[k := x]) \<subseteq> insert x (set (ballots s))" for x by (rule set_update_subset_insert)
  ultimately show ?case using vote by (fastforce simp: ballots_ok_def)
next
  case (compact s i data re err)
  then show ?case by (simp add: ballots_ok_def compact_log_frame)
qed (simp_all add: ballots_ok_def fixed_membership_def)

lemma leader_won_vote:
  assumes "leader_won s" and "ballots_ok n s" and "int n < int64_max" and "k < length (ballots s)"
    and "0 < ba_pending (ballots s ! k)"
  shows "leader_won (s\<lparr>node := fst (count_vote (node s) (ballots s ! k)),
     ballots := (ballots s)[k := snd (count_vote (node s) (ballots s ! k))]\<rparr>)"
proof -
  let ?b = "ballots s ! k" and ?b' = "snd (count_vote (node s) (ballots s ! k))"
  have b: "ballot_ok n ?b" using assms(2,4) by (simp add: ballots_ok_def)
  have votes: "ba_votes ?b' = ba_votes ?b + 1" by (rule ballot_ok_count(1) [OF b assms(5,3)])
  have one: "1 \<le> ba_votes ?b" using b by (simp add: ballot_ok_def)
  have mem: "?b' \<in> set ((ballots s)[k := ?b'])" using assms(4) by (rule set_update_memI)
  show ?thesis
  proof (cases "role (node s) = RoleLeader")
    case True
    with assms(1) obtain b0 where b0: "b0 \<in> set (ballots s)" "ba_term b0 = current_term (node s)"
      "int (length (peers (node s)) div 2) < ba_votes b0" "1 < ba_votes b0"
      by (auto simp: leader_won_def)
    show ?thesis
    proof (cases "b0 = ?b")
      case True
      then show ?thesis using b0 votes mem by (auto simp: leader_won_def intro!: bexI [of _ ?b'])
    next
      case False
      then have "b0 \<in> set ((ballots s)[k := ?b'])" using b0(1) by (intro in_set_update_other)
      then show ?thesis using b0 by (auto simp: leader_won_def)
    qed
  next
    case False
    have "int (length (peers (node s)) div 2) < ba_votes ?b' \<and> current_term (node s) = ba_term ?b"
      if "role (fst (count_vote (node s) ?b)) = RoleLeader"
      using that False by (auto simp: count_vote_def Let_def split: if_splits)
    then show ?thesis using mem votes one by (auto simp: leader_won_def intro!: bexI [of _ ?b'])
  qed
qed

lemma leader_won_step:
  assumes "raft_step d s ev s'" and "ev \<noteq> EvSetRole RoleLeader" and "fixed_membership s ev" and "int n < int64_max"
    and "ballots_ok n s" and "leader_won s"
  shows "leader_won s'"
  using assms
proof (induction rule: raft_step.induct)
  case (vote s k)
  then show ?case by (intro leader_won_vote)
next
  case (compact s i data re err)
  then show ?case by (simp add: leader_won_def compact_log_frame)
next
  case (request s r args)
  then show ?case by (auto simp: leader_won_def max_def)
next
  case (append_entries s r args)
  then show ?case by (auto simp: leader_won_def max_def)
qed (simp_all add: leader_won_def fixed_membership_def)

text \<open>A step from leader to leader keeps the term.\<close>

lemma leader_term_step:
  "raft_step d s ev s' \<Longrightarrow> role (node s) = RoleLeader \<Longrightarrow> role (node s') = RoleLeader \<Longrightarrow>
     current_term (node s') = current_term (node s)"
  by (induction rule: raft_step.induct) (auto simp: compact_log_frame max_def split: if_splits)

text \<open>The leader role was assigned by \<^verbatim>\<open>SetRole\<close> in the term the node is in now.\<close>

definition leader_assigned :: "'st raft_deps \<Rightarrow> 'st raft_run_state \<Rightarrow> raft_event list \<Rightarrow> 'st raft_run_state \<Rightarrow> bool" where
  "leader_assigned d s0 evs s \<longleftrightarrow> (\<exists>xs ys t. evs = xs @ EvSetRole RoleLeader # ys \<and> raft_run fixed_membership d s0 xs t \<and>
     current_term (node t) = current_term (node s))"

lemma leader_assigned_snoc:
  "leader_assigned d s0 evs s \<Longrightarrow> current_term (node s') = current_term (node s) \<Longrightarrow> leader_assigned d s0 (evs @ [ev]) s'"
  unfolding leader_assigned_def by (metis append.assoc append_Cons)

lemma leader_run:
  assumes "raft_run fixed_membership d s0 evs s" and "ballots_ok n s0" and "int n < int64_max" and "role (node s0) \<noteq> RoleLeader"
  shows "ballots_ok n s \<and> (leader_won s \<or> leader_assigned d s0 evs s)"
  using assms(1)
proof (induction evs arbitrary: s rule: rev_induct)
  case Nil
  then show ?case using assms(2,4) by (simp add: leader_won_def)
next
  case (snoc ev evs)
  then obtain t where t: "raft_run fixed_membership d s0 evs t" "fixed_membership t ev" "raft_step d t ev s"
    by (auto simp: raft_run_append raft_run_Cons)
  from snoc.IH [OF t(1)] have ih: "ballots_ok n t" "leader_won t \<or> leader_assigned d s0 evs t" by simp_all
  have ok: "ballots_ok n s" by (rule ballots_ok_step [OF t(3,2) assms(3) ih(1)])
  show ?case
  proof (cases "ev = EvSetRole RoleLeader")
    case True
    with t(3) have "current_term (node t) = current_term (node s)" by (auto elim: assign_role_stepE)
    with True t(1) have "leader_assigned d s0 (evs @ [ev]) s"
      unfolding leader_assigned_def by (intro exI [of _ evs] exI [of _ "[]"] exI [of _ t]) simp
    with ok show ?thesis by simp
  next
    case False
    show ?thesis
    proof (cases "leader_won t")
      case True
      with leader_won_step [OF t(3) False t(2) assms(3) ih(1)] ok show ?thesis by simp
    next
      case not_won: False
      then have "role (node t) = RoleLeader" by (auto simp: leader_won_def)
      moreover have "leader_won s" if "role (node s) \<noteq> RoleLeader" using that by (simp add: leader_won_def)
      ultimately show ?thesis
        using ok not_won ih(2) leader_term_step [OF t(3)] leader_assigned_snoc [of d s0 evs t s ev] by blast
    qed
  qed
qed

text \<open>
  C5: On a fixed peer list of a sane length, every state in which a node is leader has one of two
  causes: an election it started in its present term has counted more than half of the peer list,
  at least one of the votes by a goroutine for another peer; or \<^verbatim>\<open>SetRole\<close> made it leader, with no
  election, while it was in its present term. In particular a node whose peer list names nobody
  else becomes leader only by \<^verbatim>\<open>SetRole\<close>.
\<close>

theorem leader_has_majority_ballot:
  assumes "raft_run fixed_membership d (initial_run d nid ps store) evs s" and "int (length ps) < int64_max"
    and "role (node s) = RoleLeader"
  shows "(\<exists>b \<in> set (ballots s). ba_term b = current_term (node s) \<and>
       int (length ps div 2) < ba_votes b \<and> 1 < ba_votes b) \<or>
     (\<exists>xs ys t. evs = xs @ EvSetRole RoleLeader # ys \<and> raft_run fixed_membership d (initial_run d nid ps store) xs t \<and>
       current_term (node t) = current_term (node s))"
proof -
  have "ballots_ok (length ps) (initial_run d nid ps store)" "role (node (initial_run d nid ps store)) \<noteq> RoleLeader"
    by (simp_all add: ballots_ok_def initial_run_def)
  from leader_run [OF assms(1) this(1) assms(2) this(2)]
  have n: "length (peers (node s)) = length ps" and won: "leader_won s \<or> leader_assigned d (initial_run d nid ps store) evs s"
    by (simp_all add: ballots_ok_def)
  from won show ?thesis
  proof
    assume "leader_won s"
    with assms(3) n show ?thesis by (auto simp: leader_won_def)
  next
    assume "leader_assigned d (initial_run d nid ps store) evs s"
    then show ?thesis unfolding leader_assigned_def by (rule disjI2)
  qed
qed

section \<open>An election with no message\<close>

text \<open>
  The goroutines of one election run one after the other and nothing else happens: \<open>k\<close> votes of a
  ballot that has only its candidate's own vote.
\<close>

lemma votes_run:
  assumes "\<not> crashed s" and "i < length (ballots s)" and "ballots s ! i = b" and "k \<le> ba_pending b"
    and "role (node s) = RoleCandidate \<or> role (node s) = RoleLeader" and "current_term (node s) = ba_term b"
    and "1 \<le> ba_votes b" and "ba_votes b + int k < int64_max"
  shows "\<exists>s'. raft_run anything d s (replicate k (EvVote i)) s' \<and> current_term (node s') = current_term (node s) \<and>
     voted_for (node s') = voted_for (node s) \<and> (role (node s) = RoleLeader \<longrightarrow> role (node s') = RoleLeader) \<and>
     (0 < k \<longrightarrow> int (length (peers (node s)) div 2) < ba_votes b + int k \<longrightarrow> role (node s') = RoleLeader)"
  using assms
proof (induction k arbitrary: s b)
  case 0
  then show ?case by auto
next
  case (Suc k)
  let ?v = "count_vote (node s) b"
  let ?s = "s\<lparr>node := fst ?v, ballots := (ballots s)[i := snd ?v]\<rparr>"
  have step: "raft_step d s (EvVote i) ?s"
    using raft_step.vote [of s i d] Suc.prems by auto
  have "in_int64 (ba_votes b + 1)" using Suc.prems(7,8) by (simp add: int64_numerals int64_max_def)
  then have v: "ba_votes (snd ?v) = ba_votes b + 1" by simp
  have r: "role (fst ?v) = RoleCandidate \<or> role (fst ?v) = RoleLeader"
    "role (node s) = RoleLeader \<Longrightarrow> role (fst ?v) = RoleLeader"
    "int (length (peers (node s)) div 2) < ba_votes b + 1 \<Longrightarrow> role (fst ?v) = RoleLeader"
    using Suc.prems(5,6) v by (auto simp: count_vote_def Let_def)
  have "\<exists>s'. raft_run anything d ?s (replicate k (EvVote i)) s' \<and> current_term (node s') = current_term (node ?s) \<and>
     voted_for (node s') = voted_for (node ?s) \<and> (role (node ?s) = RoleLeader \<longrightarrow> role (node s') = RoleLeader) \<and>
     (0 < k \<longrightarrow> int (length (peers (node ?s)) div 2) < ba_votes (snd ?v) + int k \<longrightarrow> role (node s') = RoleLeader)"
    by (rule Suc.IH) (use Suc.prems r v in simp_all)
  then obtain s' where run: "raft_run anything d ?s (replicate k (EvVote i)) s'"
    and s': "current_term (node s') = current_term (node s)" "voted_for (node s') = voted_for (node s)"
      "role (fst ?v) = RoleLeader \<longrightarrow> role (node s') = RoleLeader"
      "0 < k \<longrightarrow> int (length (peers (node s)) div 2) < ba_votes b + 1 + int k \<longrightarrow> role (node s') = RoleLeader"
    using v by auto
  have "raft_run anything d s (replicate (Suc k) (EvVote i)) s'"
    using step run by (auto simp: raft_run_Cons anything_def)
  moreover have "role (node s') = RoleLeader" if "int (length (peers (node s)) div 2) < ba_votes b + int (Suc k)"
    using s'(3,4) r(3) that by (cases "k = 0") simp_all
  ultimately show ?case using s' r(2) by blast
qed

lemma lone_election:
  assumes "\<not> crashed s" and "pc s = Electing" and "0 \<le> r" and "r < 150"
    and "distinct (peers (node s))" and "node_id (node s) \<in> set (peers (node s))"
    and "2 \<le> length (peers (node s))" and "int (length (peers (node s))) < int64_max"
  shows "\<exists>s'. raft_run anything d s (EvElect r # replicate (length (peers (node s)) - 1) (EvVote (length (ballots s)))) s' \<and>
     role (node s') = RoleLeader \<and> current_term (node s') = wrap64 (current_term (node s) + 1) \<and>
     voted_for (node s') = node_id (node s)"
proof -
  let ?e = "start_election d r (node s)" and ?k = "length (peers (node s)) - 1"
  let ?s = "s\<lparr>node := fst ?e, ballots := ballots s @ [snd ?e], pc := AtTop\<rparr>"
  have step: "raft_step d s (EvElect r) ?s" by (rule raft_step.elect) fact+
  have k: "ba_pending (snd ?e) = ?k" using length_filter_neq [OF assms(5,6)] by simp
  have "\<exists>s'. raft_run anything d ?s (replicate ?k (EvVote (length (ballots s)))) s' \<and> current_term (node s') = current_term (node ?s) \<and>
     voted_for (node s') = voted_for (node ?s) \<and> (role (node ?s) = RoleLeader \<longrightarrow> role (node s') = RoleLeader) \<and>
     (0 < ?k \<longrightarrow> int (length (peers (node ?s)) div 2) < ba_votes (snd ?e) + int ?k \<longrightarrow> role (node s') = RoleLeader)"
    by (rule votes_run) (use assms k in \<open>simp_all add: of_nat_diff\<close>)
  then obtain s' where run: "raft_run anything d ?s (replicate ?k (EvVote (length (ballots s)))) s'"
    and s': "current_term (node s') = wrap64 (current_term (node s) + 1)" "voted_for (node s') = node_id (node s)"
      "0 < ?k \<longrightarrow> int (length (peers (node s)) div 2) < 1 + int ?k \<longrightarrow> role (node s') = RoleLeader"
    by auto
  have "role (node s') = RoleLeader" using s'(3) assms(7) by (simp add: of_nat_diff)
  with step run s'(1,2) show ?thesis by (auto simp: raft_run_Cons anything_def)
qed

text \<open>
  C34: Two nodes of one cluster that stand in the same term and whose loops are both about to call
  \<^verbatim>\<open>startElection\<close> can both become leader of the next term: each starts its election and runs the
  goroutines it has itself launched, one per other peer, and nothing else happens at either node. No
  message goes between them, and each has voted for itself.
\<close>

theorem two_leaders_in_one_term:
  assumes "\<not> crashed sa" and "pc sa = Electing" and "\<not> crashed sb" and "pc sb = Electing"
    and "0 \<le> ra" and "ra < 150" and "0 \<le> rb" and "rb < 150"
    and "peers (node sa) = ps" and "peers (node sb) = ps" and "distinct ps" and "int (length ps) < int64_max"
    and "node_id (node sa) \<in> set ps" and "node_id (node sb) \<in> set ps" and "node_id (node sa) \<noteq> node_id (node sb)"
    and "current_term (node sa) = current_term (node sb)"
  shows "\<exists>sa' sb'.
     raft_run anything da sa (EvElect ra # replicate (length ps - 1) (EvVote (length (ballots sa)))) sa' \<and>
     raft_run anything db sb (EvElect rb # replicate (length ps - 1) (EvVote (length (ballots sb)))) sb' \<and>
     role (node sa') = RoleLeader \<and> role (node sb') = RoleLeader \<and>
     current_term (node sa') = wrap64 (current_term (node sa) + 1) \<and> current_term (node sb') = current_term (node sa') \<and>
     voted_for (node sa') = node_id (node sa) \<and> voted_for (node sb') = node_id (node sb)"
proof -
  have "card {node_id (node sa), node_id (node sb)} \<le> card (set ps)" using assms(13,14) by (intro card_mono) auto
  then have two: "2 \<le> length ps" using assms(11,15) by (simp add: distinct_card)
  from lone_election [of sa ra da] lone_election [of sb rb db] two assms show ?thesis by (metis (no_types, lifting))
qed

section \<open>Panics\<close>

text \<open>Runs in which leaders are orderly and the log stays within 64-bit indices.\<close>

definition orderly :: "'st raft_run_state \<Rightarrow> raft_event \<Rightarrow> bool" where
  "orderly s ev = (case ev of EvAppend args _ _ \<Rightarrow> ae_orderly (node s) args
     | EvPropose _ _ \<Rightarrow> sn_last_index (snap (node s)) + int (length (log (node s))) < int64_max
     | _ \<Rightarrow> True)"

lemma log_wf_propose:
  assumes "log_wf re" and "sn_last_index (snap re) + int (length (log re)) < int64_max"
  shows "log_wf (fst (propose d data re))"
  using propose_outcome [OF assms, where d = d and data = data] assms(1) by (auto simp: case_prod_beta split: if_splits)

lemma orderly_step:
  assumes "raft_step d s ev s'" and "orderly s ev" and "\<not> crashed s \<and> log_wf (node s)"
  shows "\<not> crashed s' \<and> log_wf (node s')"
  using assms
proof (induction rule: raft_step.induct)
  case (append_entries s r args)
  then show ?case by (simp add: orderly_def log_wf_append_entries)
next
  case (proposal s data)
  then show ?case by (simp add: orderly_def log_wf_propose)
next
  case (compact s i data re err)
  then show ?case using log_wf_compact by auto
next
  case (compact_panic s i data)
  then show ?case using compact_log_outcome [of "node s" i d data] by (auto split: if_splits)
qed (auto simp: log_wf_def log_contiguous_def log_bounds_def get_last_log_index_def)

section \<open>Sample runs\<close>

definition sample_run :: "'st raft_deps \<Rightarrow> 'st raft_run_state" where
  "sample_run d = initial_run d ''n1'' [''n1'', ''n2'', ''n3''] None"

text \<open>A node starts, times out and counts the first of its own goroutines.\<close>

definition sample_events :: "raft_event list" where
  "sample_events = [EvStart 0, EvReadRole, EvTimerFires, EvTick, EvElect 0, EvVote 0]"

lemma node_sample_run: "node (sample_run d) = sample_node d"
  by (simp add: sample_run_def initial_run_def sample_node_def)

lemma sample_leader_run:
  fixes d :: "'st raft_deps"
  assumes "\<And>s ev. ev \<in> set sample_events \<Longrightarrow> g s ev"
  shows "\<exists>s. raft_run g d (sample_run d) sample_events s \<and> role (node s) = RoleLeader \<and> current_term (node s) = 1"
proof -
  let ?t = "\<lparr>tm_active = True, tm_pending = False, tm_timeout = 150\<rparr>"
  define s0 where "s0 = sample_run d"
  define s1 where "s1 = s0\<lparr>node := raft_start 0 (node s0), pc := AtTop\<rparr>"
  define s2 where "s2 = s1\<lparr>pc := loop_after_read (role (node s1))\<rparr>"
  define s3 where "s3 = s2\<lparr>node := (node s2)\<lparr>election_timer := Some (?t\<lparr>tm_active := False, tm_pending := True\<rparr>)\<rparr>\<rparr>"
  define s4 where "s4 = s3\<lparr>node := (node s3)\<lparr>election_timer :=
     Some (?t\<lparr>tm_active := False, tm_pending := True\<rparr>\<lparr>tm_pending := False\<rparr>)\<rparr>, pc := Electing\<rparr>"
  define s5 where "s5 = s4\<lparr>node := fst (start_election d 0 (node s4)),
     ballots := ballots s4 @ [snd (start_election d 0 (node s4))], pc := AtTop\<rparr>"
  define s6 where "s6 = s5\<lparr>node := fst (count_vote (node s5) (ballots s5 ! 0)),
     ballots := (ballots s5)[0 := snd (count_vote (node s5) (ballots s5 ! 0))]\<rparr>"
  have n0: "\<not> crashed s0" "pc s0 = NotStarted" "role (node s0) = RoleFollower" "ballots s0 = []"
    "current_term (node s0) = 0" "node_id (node s0) = ''n1''" "peers (node s0) = [''n1'', ''n2'', ''n3'']"
    by (simp_all add: s0_def sample_run_def initial_run_def new_raft_engine_def load_state_def)
  have n2: "\<not> crashed s2" "election_timer (node s2) = Some ?t" "pc s2 = WaitElection"
    by (simp_all add: s2_def s1_def n0 raft_start_def election_timeout_def loop_after_read_def)
  have n4: "\<not> crashed s4" "pc s4 = Electing" "ballots s4 = []" "current_term (node s4) = 0"
    "node_id (node s4) = ''n1''" "peers (node s4) = [''n1'', ''n2'', ''n3'']"
    by (simp_all add: s4_def s3_def s2_def s1_def n0)
  have w: "wrap64 1 = 1" "wrap64 2 = 2" by (simp_all add: int64_numerals)
  have n5: "\<not> crashed s5" "length (ballots s5) = 1" "ba_pending (ballots s5 ! 0) = 2" "ba_votes (ballots s5 ! 0) = 1"
    "ba_term (ballots s5 ! 0) = 1" "current_term (node s5) = 1" "role (node s5) = RoleCandidate"
    "peers (node s5) = [''n1'', ''n2'', ''n3'']"
    by (simp_all add: s5_def n4 w)
  have guards: "\<And>s. g s (EvStart 0)" "\<And>s. g s EvReadRole" "\<And>s. g s EvTimerFires" "\<And>s. g s EvTick"
    "\<And>s. g s (EvElect 0)" "\<And>s. g s (EvVote 0)"
    using assms by (simp_all add: sample_events_def)
  have "raft_step d s0 (EvStart 0) s1" unfolding s1_def by (rule raft_step.start) (simp_all add: n0)
  moreover have "raft_step d s1 EvReadRole s2" unfolding s2_def
    by (rule raft_step.read_role) (simp_all add: s1_def n0)
  moreover have "raft_step d s2 EvTimerFires s3" unfolding s3_def by (rule raft_step.timer_fires) (simp_all add: n2)
  moreover have "raft_step d s3 EvTick s4" unfolding s4_def by (rule raft_step.tick) (simp_all add: s3_def n2)
  moreover have "raft_step d s4 (EvElect 0) s5" unfolding s5_def by (rule raft_step.elect) (simp_all add: n4)
  moreover have "raft_step d s5 (EvVote 0) s6" unfolding s6_def by (rule raft_step.vote) (simp_all add: n5)
  ultimately have "raft_run g d s0 sample_events s6"
    unfolding sample_events_def using guards
    by - ((rule raft_run.run_cons, blast, assumption)+, rule raft_run.run_nil)
  moreover have "role (node s6) = RoleLeader" "current_term (node s6) = 1"
    by (simp_all add: s6_def n5 count_vote_def w)
  ultimately show ?thesis unfolding s0_def by blast
qed

theorem raft_timer_and_channel_invariant_witness:
  "\<forall>(d :: 'st raft_deps). \<exists>s. raft_run anything d (initial_run d ''n1'' [''n1'', ''n2'', ''n3''] None) sample_events s \<and>
     (case election_timer (node s) of None \<Rightarrow> pc s = NotStarted | Some t \<Rightarrow> tm_timeout t < 300)"
proof
  fix d :: "'st raft_deps"
  obtain s where s: "raft_run anything d (initial_run d ''n1'' [''n1'', ''n2'', ''n3''] None) sample_events s"
    using sample_leader_run [of anything d] by (auto simp: anything_def sample_run_def)
  from raft_timer_and_channel_invariant [OF s] s
  show "\<exists>s. raft_run anything d (initial_run d ''n1'' [''n1'', ''n2'', ''n3''] None) sample_events s \<and>
     (case election_timer (node s) of None \<Rightarrow> pc s = NotStarted | Some t \<Rightarrow> tm_timeout t < 300)"
    by (auto split: option.splits)
qed

theorem leader_has_majority_ballot_witness:
  "\<forall>(d :: 'st raft_deps). \<exists>s. raft_run fixed_membership d (initial_run d ''n1'' [''n1'', ''n2'', ''n3''] None) sample_events s \<and>
     role (node s) = RoleLeader \<and> (\<exists>b \<in> set (ballots s). 1 < ba_votes b)"
proof
  fix d :: "'st raft_deps"
  have guards: "fixed_membership s ev" if "ev \<in> set sample_events" for s :: "'st raft_run_state" and ev
    using that by (auto simp: fixed_membership_def sample_events_def)
  obtain s where s: "raft_run fixed_membership d (initial_run d ''n1'' [''n1'', ''n2'', ''n3''] None) sample_events s"
    "role (node s) = RoleLeader"
    using sample_leader_run [of fixed_membership d, OF guards] by (auto simp: sample_run_def)
  have "int (length [''n1'', ''n2'', ''n3'']) < int64_max" by (simp add: int64_max_def)
  moreover have "sample_events \<noteq> xs @ EvSetRole RoleLeader # ys" for xs ys
  proof
    assume "sample_events = xs @ EvSetRole RoleLeader # ys"
    then have "EvSetRole RoleLeader \<in> set sample_events" by (metis in_set_conv_decomp)
    then show False by (simp add: sample_events_def)
  qed
  ultimately show "\<exists>s. raft_run fixed_membership d (initial_run d ''n1'' [''n1'', ''n2'', ''n3''] None) sample_events s \<and>
     role (node s) = RoleLeader \<and> (\<exists>b \<in> set (ballots s). 1 < ba_votes b)"
    using leader_has_majority_ballot [OF s(1) _ s(2)] s by blast
qed

text \<open>A fresh node that starts and times out stands before its first election.\<close>

definition timeout_events :: "raft_event list" where
  "timeout_events = [EvStart 0, EvReadRole, EvTimerFires, EvTick]"

lemma timeout_run:
  fixes d :: "'st raft_deps"
  shows "\<exists>s. raft_run anything d (initial_run d nid ps None) timeout_events s \<and> \<not> crashed s \<and> pc s = Electing \<and>
     ballots s = [] \<and> node_id (node s) = nid \<and> peers (node s) = ps \<and> current_term (node s) = 0"
proof -
  let ?t = "\<lparr>tm_active = True, tm_pending = False, tm_timeout = 150\<rparr>"
  define s0 where "s0 = initial_run d nid ps None"
  define s1 where "s1 = s0\<lparr>node := raft_start 0 (node s0), pc := AtTop\<rparr>"
  define s2 where "s2 = s1\<lparr>pc := loop_after_read (role (node s1))\<rparr>"
  define s3 where "s3 = s2\<lparr>node := (node s2)\<lparr>election_timer := Some (?t\<lparr>tm_active := False, tm_pending := True\<rparr>)\<rparr>\<rparr>"
  define s4 where "s4 = s3\<lparr>node := (node s3)\<lparr>election_timer :=
     Some (?t\<lparr>tm_active := False, tm_pending := True\<rparr>\<lparr>tm_pending := False\<rparr>)\<rparr>, pc := Electing\<rparr>"
  have n0: "\<not> crashed s0" "pc s0 = NotStarted" "role (node s0) = RoleFollower" "ballots s0 = []"
    "current_term (node s0) = 0" "node_id (node s0) = nid" "peers (node s0) = ps"
    by (simp_all add: s0_def initial_run_def new_raft_engine_def load_state_def)
  have n2: "\<not> crashed s2" "election_timer (node s2) = Some ?t" "pc s2 = WaitElection"
    by (simp_all add: s2_def s1_def n0 raft_start_def election_timeout_def loop_after_read_def)
  have "raft_step d s0 (EvStart 0) s1" unfolding s1_def by (rule raft_step.start) (simp_all add: n0)
  moreover have "raft_step d s1 EvReadRole s2" unfolding s2_def
    by (rule raft_step.read_role) (simp_all add: s1_def n0)
  moreover have "raft_step d s2 EvTimerFires s3" unfolding s3_def by (rule raft_step.timer_fires) (simp_all add: n2)
  moreover have "raft_step d s3 EvTick s4" unfolding s4_def by (rule raft_step.tick) (simp_all add: s3_def n2)
  moreover have "anything s ev" for s :: "'st raft_run_state" and ev by (simp add: anything_def)
  ultimately have "raft_run anything d s0 timeout_events s4"
    unfolding timeout_events_def by - ((rule raft_run.run_cons, assumption, assumption)+, rule raft_run.run_nil)
  moreover have "\<not> crashed s4" "pc s4 = Electing" "ballots s4 = []" "node_id (node s4) = nid" "peers (node s4) = ps"
    "current_term (node s4) = 0"
    by (simp_all add: s4_def s3_def s2_def s1_def n0)
  ultimately show ?thesis unfolding s0_def by blast
qed

text \<open>Two nodes from their start, with no message in either run.\<close>

theorem two_leaders_in_one_term_witness:
  "\<forall>(d :: 'st raft_deps). \<exists>sa sb.
     raft_run anything d (initial_run d ''n1'' [''n1'', ''n2''] None) (timeout_events @ [EvElect 0, EvVote 0]) sa \<and>
     raft_run anything d (initial_run d ''n2'' [''n1'', ''n2''] None) (timeout_events @ [EvElect 0, EvVote 0]) sb \<and>
     role (node sa) = RoleLeader \<and> role (node sb) = RoleLeader \<and> current_term (node sb) = current_term (node sa)"
proof
  fix d :: "'st raft_deps"
  let ?ps = "[''n1'', ''n2'']"
  obtain ta where ta: "raft_run anything d (initial_run d ''n1'' ?ps None) timeout_events ta" "\<not> crashed ta" "pc ta = Electing"
    "ballots ta = []" "node_id (node ta) = ''n1''" "peers (node ta) = ?ps" "current_term (node ta) = 0"
    using timeout_run by blast
  obtain tb where tb: "raft_run anything d (initial_run d ''n2'' ?ps None) timeout_events tb" "\<not> crashed tb" "pc tb = Electing"
    "ballots tb = []" "node_id (node tb) = ''n2''" "peers (node tb) = ?ps" "current_term (node tb) = 0"
    using timeout_run by blast
  have r: "(0 :: int) \<le> 0" "(0 :: int) < 150" by simp_all
  have ps: "distinct ?ps" "int (length ?ps) < int64_max" by (simp_all add: int64_max_def)
  have ids: "node_id (node ta) \<in> set ?ps" "node_id (node tb) \<in> set ?ps" "node_id (node ta) \<noteq> node_id (node tb)"
    "current_term (node ta) = current_term (node tb)"
    using ta tb by simp_all
  from two_leaders_in_one_term [OF ta(2,3) tb(2,3) r r ta(6) tb(6) ps ids, of d d]
  obtain sa sb where "raft_run anything d ta [EvElect 0, EvVote 0] sa" "raft_run anything d tb [EvElect 0, EvVote 0] sb"
    "role (node sa) = RoleLeader" "role (node sb) = RoleLeader" "current_term (node sb) = current_term (node sa)"
    using ta(4) tb(4) by auto
  with ta(1) tb(1) show "\<exists>sa sb.
     raft_run anything d (initial_run d ''n1'' ?ps None) (timeout_events @ [EvElect 0, EvVote 0]) sa \<and>
     raft_run anything d (initial_run d ''n2'' ?ps None) (timeout_events @ [EvElect 0, EvVote 0]) sb \<and>
     role (node sa) = RoleLeader \<and> role (node sb) = RoleLeader \<and> current_term (node sb) = current_term (node sa)"
    unfolding raft_run_append by blast
qed

theorem one_vote_per_term_witness:
  "\<forall>(d :: 'st raft_deps). \<exists>p u s'. raft_run keeps_votes d (sample_run d)
       [EvRequest (sample_vote 1 ''n2'') 0 p, EvRequest (sample_vote 1 ''n2'') 0 u] s' \<and>
     vr_granted p \<and> vr_granted u"
proof
  fix d :: "'st raft_deps"
  let ?v = "sample_vote 1 ''n2''" and ?s = "sample_run d"
  let ?h = "handle_request_vote d 0 ?v (node ?s)"
  let ?s1 = "?s\<lparr>node := fst ?h\<rparr>"
  let ?h1 = "handle_request_vote d 0 ?v (node ?s1)"
  let ?s2 = "?s1\<lparr>node := fst ?h1\<rparr>"
  have c: "\<not> crashed ?s" by (simp add: sample_run_def initial_run_def)
  have n: "current_term (node ?s) = 0" "voted_for (node ?s) = []" "get_last_log_index (node ?s) = 0"
    by (simp_all add: node_sample_run) (simp_all add: sample_defs get_last_log_index_def)
  have v: "rv_term ?v = 1" "rv_last_log_index ?v = 0" "rv_candidate_id ?v = ''n2''" by (simp_all add: sample_vote_def)
  have "get_last_log_index (fst ?h) = 0"
    using n(3) get_last_log_index_cong [of "fst ?h" "node ?s"] by simp
  then have g: "vr_granted (snd ?h)" "vr_granted (snd ?h1)"
    using n v by (simp_all add: handle_request_vote_reply vote_granted_when_def)
  have "raft_step d ?s (EvRequest ?v 0 (snd ?h)) ?s1" "raft_step d ?s1 (EvRequest ?v 0 (snd ?h1)) ?s2"
    by (rule raft_step.request; simp add: c v int64_numerals)+
  then have run: "raft_run keeps_votes d ?s ([] @ EvRequest ?v 0 (snd ?h) # [] @ EvRequest ?v 0 (snd ?h1) # []) ?s2"
    unfolding append_Nil by (auto simp: raft_run_Cons keeps_votes_def)
  have "in_int64 (current_term (node ?s))" using n by (simp add: int64_numerals)
  from one_vote_per_term [OF run this g] run g v
  show "\<exists>p u s'. raft_run keeps_votes d ?s [EvRequest ?v 0 p, EvRequest ?v 0 u] s' \<and> vr_granted p \<and> vr_granted u"
    by fastforce
qed

end
