(* ===== verification/RaftPersistence.thy ===== *)
theory RaftPersistence
  imports RaftSystem
begin

text \<open>
  What survives a restart: \<^verbatim>\<open>persistState\<close> writes term, vote, log and snapshot under one key,
  \<^verbatim>\<open>NewRaftEngine\<close> reads them back. The storage is any key-value store, the JSON codec a
  parameter of which \<open>round_trips\<close> says that it returns the value it was given.
\<close>

section \<open>Writing and reading back\<close>

definition round_trips :: "'st raft_deps \<Rightarrow> raft_persisted \<Rightarrow> bool" where
  "round_trips d ps \<longleftrightarrow> (\<exists>data. rd_marshal d ps = Inr data \<and> rd_unmarshal d data = Inr ps)"

definition accepts_writes :: "'st raft_deps \<Rightarrow> bool" where
  "accepts_writes d \<longleftrightarrow> (\<forall>st data. snd (api_put (rd_api d) st raft_state_key data) = None)"

text \<open>The node's persistent fields are what its storage holds.\<close>

definition in_sync :: "'st raft_deps \<Rightarrow> 'st raft \<Rightarrow> bool" where
  "in_sync d re \<longleftrightarrow> (\<exists>st data. raft_storage re = Some st \<and> api_get (rd_api d) st raft_state_key = Inr data \<and>
     rd_unmarshal d data = Inr (persisted_part re))"

definition restart :: "'st raft_deps \<Rightarrow> 'st raft \<Rightarrow> 'st raft" where
  "restart d re = new_raft_engine d (node_id re) (peers re) (raft_storage re)"

lemma persisted_part_persist [simp]: "persisted_part (persist_state d re) = persisted_part re"
  by (simp add: persisted_part_def)

context key_value_store
begin

lemma in_sync_persist:
  assumes "rd_api d = api" and "accepts_writes d" and "round_trips d (persisted_part re)" and "raft_storage re = Some st"
  shows "in_sync d (persist_state d re)"
proof -
  from assms(3) obtain data where data: "rd_marshal d (persisted_part re) = Inr data"
    "rd_unmarshal d data = Inr (persisted_part re)" by (auto simp: round_trips_def)
  have "snd (api_put api st raft_state_key data) = None" using assms(1,2) by (simp add: accepts_writes_def)
  then obtain st' where put: "api_put api st raft_state_key data = (st', None)"
    by (cases "api_put api st raft_state_key data") simp
  have "persist_state d re = re\<lparr>raft_storage := Some st'\<rparr>"
    using assms(1,4) data(1) put by (simp add: persist_state_def)
  moreover have "api_get api st' raft_state_key = Inr data" by (rule get_after_put [OF put])
  moreover have "persisted_part (re\<lparr>raft_storage := Some st'\<rparr>) = persisted_part re" by (simp add: persisted_part_def)
  ultimately show ?thesis using assms(1) data(2) by (simp add: in_sync_def)
qed

end

lemma restart_in_sync:
  assumes "in_sync d re"
  shows "persisted_part (restart d re) = persisted_part re" and "raft_storage (restart d re) = raft_storage re"
    and "commit_index (restart d re) = 0" and "last_applied (restart d re) = 0" and "role (restart d re) = RoleFollower"
  using assms by (auto simp: in_sync_def restart_def new_raft_engine_def load_state_def persisted_part_def)

lemma persisted_part_fields:
  "persisted_part a = persisted_part b \<longleftrightarrow> current_term a = current_term b \<and> voted_for a = voted_for b \<and>
     log a = log b \<and> snap a = snap b"
  by (simp add: persisted_part_def)

lemma in_sync_cong: "persisted_part a = persisted_part b \<Longrightarrow> raft_storage a = raft_storage b \<Longrightarrow> in_sync d a = in_sync d b"
  by (simp add: in_sync_def)

section \<open>Votes survive, refused terms do not\<close>

text \<open>A vote request of a current term ends with the state written.\<close>

lemma request_vote_persists:
  assumes "\<not> rv_term args < current_term re"
  obtains re0 where "fst (handle_request_vote d draw args re) = persist_state d re0" "raft_storage re0 = raft_storage re"
proof (cases "vote_granted_when re args")
  case True
  let ?re1 = "if rv_term args > current_term re
     then re\<lparr>current_term := rv_term args, role := RoleFollower, voted_for := []\<rparr> else re"
  have "fst (handle_request_vote d draw args re) =
      persist_state d (reset_election_timeout draw (?re1\<lparr>voted_for := rv_candidate_id args\<rparr>))"
    using True by (auto simp: handle_request_vote_def vote_granted_when_def Let_def)
  then show ?thesis by (rule that) simp
next
  case False
  let ?re1 = "if rv_term args > current_term re
     then re\<lparr>current_term := rv_term args, role := RoleFollower, voted_for := []\<rparr> else re"
  have "fst (handle_request_vote d draw args re) = persist_state d ?re1"
    using False assms by (auto simp: handle_request_vote_def vote_granted_when_def Let_def)
  then show ?thesis by (rule that) simp
qed

text \<open>
  A vote outlives a crash: once \<^verbatim>\<open>HandleRequestVote\<close> has granted a vote, a node rebuilt from
  the same storage has the same term, vote, log and snapshot, and refuses every other candidate of
  that term.
\<close>

theorem granted_vote_survives_restart:
  assumes "key_value_store (rd_api d)" and "accepts_writes d" and "raft_storage re = Some st"
    and "round_trips d (persisted_part (fst (handle_request_vote d r args re)))"
    and "vr_granted (snd (handle_request_vote d r args re))" and "rv_candidate_id args \<noteq> []"
  shows "persisted_part (restart d (fst (handle_request_vote d r args re))) =
       persisted_part (fst (handle_request_vote d r args re)) \<and>
     (\<forall>other q. rv_term other = rv_term args \<longrightarrow> rv_candidate_id other \<noteq> rv_candidate_id args \<longrightarrow>
       \<not> vr_granted (snd (handle_request_vote d q other (restart d (fst (handle_request_vote d r args re))))))"
proof -
  let ?re' = "fst (handle_request_vote d r args re)"
  from assms(5) have g: "vote_granted_when re args" by (simp add: handle_request_vote_reply)
  then have "\<not> rv_term args < current_term re" by (simp add: vote_granted_when_def)
  then obtain re0 where re0: "?re' = persist_state d re0" "raft_storage re0 = raft_storage re"
    by (rule request_vote_persists)
  have "in_sync d (persist_state d re0)"
    by (rule key_value_store.in_sync_persist [OF assms(1) refl assms(2)]) (use assms(3,4) re0 in simp_all)
  then have p: "persisted_part (restart d ?re') = persisted_part ?re'" unfolding re0(1) by (rule restart_in_sync)
  have "current_term ?re' = rv_term args" "voted_for ?re' = rv_candidate_id args"
    using g by (simp_all add: vote_granted_when_def)
  with p assms(6) show ?thesis
    by (auto simp: persisted_part_fields handle_request_vote_reply vote_granted_when_def)
qed

text \<open>
  A term learnt from an \<^verbatim>\<open>AppendEntries\<close> that fails the consistency check is not written: after
  a restart the node is back in its older term, with the vote it had there.
\<close>

theorem refused_term_lost_at_restart:
  assumes "in_sync d re" and "current_term re < ae_term a" and "\<not> ar_success (snd (handle_append_entries d r a re))"
  shows "current_term (fst (handle_append_entries d r a re)) = ae_term a \<and>
     current_term (restart d (fst (handle_append_entries d r a re))) = current_term re \<and>
     voted_for (restart d (fst (handle_append_entries d r a re))) = voted_for re"
proof -
  have h: "fst (handle_append_entries d r a re) = ae_adopt r a re"
    using assms(2,3) by (simp add: handle_append_entries_shape)
  have "restart d (ae_adopt r a re) = restart d re"
    by (simp add: restart_def)
  with restart_in_sync(1) [OF assms(1)] show ?thesis
    using assms(2) by (simp add: h persisted_part_fields current_term_ae_adopt)
qed

section \<open>A concrete store and codec\<close>

definition sample_persisted :: raft_persisted where
  "sample_persisted = \<lparr>ps_current_term = 1, ps_voted_for = ''n2'', ps_log = [\<lparr>le_index = 0, le_term = 0, le_data = []\<rparr>],
     ps_snapshot = \<lparr>sn_last_index = 0, sn_last_term = 0, sn_data = []\<rparr>\<rparr>"

definition sample_deps :: "memory_storage raft_deps" where
  "sample_deps = \<lparr>rd_api = memory_api,
     rd_marshal = (\<lambda>ps. if ps = sample_persisted then Inr ''state'' else Inl (NewError ''json'')),
     rd_unmarshal = (\<lambda>s. if s = ''state'' then Inr sample_persisted else Inl (NewError ''json''))\<rparr>"

lemma sample_deps_laws: "key_value_store (rd_api sample_deps)" "accepts_writes sample_deps"
  using mem.key_value_store_axioms by (simp_all add: sample_deps_def accepts_writes_def)

theorem granted_vote_survives_restart_witness:
  "let re = new_raft_engine sample_deps ''n1'' [''n1'', ''n2''] (Some new_memory_storage);
       re1 = fst (handle_request_vote sample_deps 0 (sample_vote 1 ''n2'') re)
   in vr_granted (snd (handle_request_vote sample_deps 0 (sample_vote 1 ''n2'') re)) \<and>
      current_term (restart sample_deps re1) = 1 \<and>
      \<not> vr_granted (snd (handle_request_vote sample_deps 0 (sample_vote 1 ''n3'') (restart sample_deps re1)))"
proof -
  let ?re = "new_raft_engine sample_deps ''n1'' [''n1'', ''n2''] (Some new_memory_storage)" and ?v = "sample_vote 1 ''n2''"
  let ?re1 = "fst (handle_request_vote sample_deps 0 ?v ?re)"
  have re: "current_term ?re = 0" "voted_for ?re = []" "log ?re = [\<lparr>le_index = 0, le_term = 0, le_data = []\<rparr>]"
    "snap ?re = \<lparr>sn_last_index = 0, sn_last_term = 0, sn_data = []\<rparr>" "raft_storage ?re = Some new_memory_storage"
    by (simp_all add: new_raft_engine_def load_state_def sample_deps_def memory_get_def new_memory_storage_def)
  have g: "vote_granted_when ?re ?v" by (simp add: vote_granted_when_def re sample_vote_def get_last_log_index_def)
  then have granted: "vr_granted (snd (handle_request_vote sample_deps 0 ?v ?re))" by (simp add: handle_request_vote_reply)
  have "persisted_part ?re1 = sample_persisted"
    using g by (simp add: persisted_part_def re sample_persisted_def) (simp add: sample_vote_def)
  then have rt: "round_trips sample_deps (persisted_part ?re1)" and t: "current_term ?re1 = 1"
    by (simp_all add: round_trips_def sample_deps_def persisted_part_def sample_persisted_def)
  have "rv_candidate_id ?v \<noteq> []" by (simp add: sample_vote_def)
  from granted_vote_survives_restart [OF sample_deps_laws re(5) rt granted this] t granted
  have "current_term (restart sample_deps ?re1) = 1"
    "\<not> vr_granted (snd (handle_request_vote sample_deps 0 (sample_vote 1 ''n3'') (restart sample_deps ?re1)))"
    by (auto simp: persisted_part_fields sample_vote_def)
  with granted show ?thesis by (simp add: Let_def)
qed

theorem refused_term_lost_at_restart_witness:
  "\<exists>re. in_sync sample_deps re \<and>
     current_term (fst (handle_append_entries sample_deps 0 ((sample_append 9 [] 0)\<lparr>ae_term := 2\<rparr>) re)) = 2 \<and>
     current_term (restart sample_deps (fst (handle_append_entries sample_deps 0 ((sample_append 9 [] 0)\<lparr>ae_term := 2\<rparr>) re))) = 1"
proof -
  let ?st = "\<lparr>mem_data = [raft_state_key \<mapsto> ''state'']\<rparr>" and ?a = "(sample_append 9 [] 0)\<lparr>ae_term := 2\<rparr>"
  let ?re = "new_raft_engine sample_deps ''n1'' [''n1'', ''n2''] (Some ?st)"
  have re: "persisted_part ?re = sample_persisted" "raft_storage ?re = Some ?st"
    by (simp_all add: new_raft_engine_def load_state_def sample_deps_def memory_get_def persisted_part_def)
  then have sync: "in_sync sample_deps ?re"
    by (simp add: in_sync_def sample_deps_def memory_get_def)
  have f: "current_term ?re = 1" "log ?re = [\<lparr>le_index = 0, le_term = 0, le_data = []\<rparr>]"
    "snap ?re = \<lparr>sn_last_index = 0, sn_last_term = 0, sn_data = []\<rparr>"
    using re(1) by (simp_all add: persisted_part_def sample_persisted_def)
  have "\<not> ar_success (snd (handle_append_entries sample_deps 0 ?a ?re))"
    using f by (auto simp: handle_append_entries_def Let_def sample_append_def int64_numerals)
  moreover have "current_term ?re < ae_term ?a" using f by simp
  ultimately show ?thesis using refused_term_lost_at_restart [OF sync] sync f by fastforce
qed

end
