(* ===== verification/Replication.thy ===== *)
theory Replication
  imports RaftLog KvStore
begin

text \<open>
  The path of a command through the system: a leader proposes, the follower receives the new
  entries in one message, and both commit channels feed a state machine. The lemmas say what a
  series of proposals leaves in the log and the channel, and what the follower delivers.
\<close>

primrec propose_all :: "'st raft_deps \<Rightarrow> bytes list \<Rightarrow> 'st raft \<Rightarrow> 'st raft" where
  "propose_all d [] re = re"
| "propose_all d (x # xs) re = propose_all d xs (fst (propose d x re))"

text \<open>The entries a leader of the given term puts behind the given index.\<close>

primrec entries_from :: "int \<Rightarrow> int \<Rightarrow> bytes list \<Rightarrow> log_entry list" where
  "entries_from i t [] = []"
| "entries_from i t (x # xs) = \<lparr>le_index = i + 1, le_term = t, le_data = x\<rparr> # entries_from (i + 1) t xs"

lemma length_entries_from [simp]: "length (entries_from i t xs) = length xs"
  by (induction xs arbitrary: i) simp_all

lemma entries_from_nth:
  "k < length xs \<Longrightarrow> entries_from i t xs ! k = \<lparr>le_index = i + 1 + int k, le_term = t, le_data = xs ! k\<rparr>"
  by (induction xs arbitrary: i k) (auto simp: nth_Cons split: nat.splits)

lemma last_entries_from: "xs \<noteq> [] \<Longrightarrow> le_index (last (entries_from i t xs)) = i + int (length xs)"
  by (simp add: last_conv_nth entries_from_nth of_nat_diff Suc_le_eq flip: length_greater_0_conv)

lemma propose_all_outcome:
  assumes "log_wf re" and "role re = RoleLeader" and "sn_last_index (snap re) + int (length (log re)) + int (length xs) \<le> int64_max"
  shows "log (propose_all d xs re) = log re @ entries_from (get_last_log_index re) (current_term re) xs
     \<and> snap (propose_all d xs re) = snap re \<and> current_term (propose_all d xs re) = current_term re
     \<and> (xs \<noteq> [] \<longrightarrow> commit_index (propose_all d xs re) = get_last_log_index re + int (length xs))
     \<and> chan_buf (commit_chan (propose_all d xs re)) = chan_buf (commit_chan re) @
          take (chan_cap (commit_chan re) - length (chan_buf (commit_chan re))) xs"
  using assms
proof (induction xs arbitrary: re)
  case Nil
  then show ?case by simp
next
  case (Cons x xs)
  let ?re' = "fst (propose d x re)"
  have room: "sn_last_index (snap re) + int (length (log re)) < int64_max" using Cons.prems(3) by simp
  from propose_outcome [OF Cons.prems(1) room, where d = d and data = x] Cons.prems(2)
  have step: "log ?re' = log re @ [\<lparr>le_index = get_last_log_index re + 1, le_term = current_term re, le_data = x\<rparr>]"
    "commit_index ?re' = get_last_log_index re + 1" "log_wf ?re'"
    "chan_buf (commit_chan ?re') = chan_buf (commit_chan re) @
         (if length (chan_buf (commit_chan re)) < chan_cap (commit_chan re) then [x] else [])"
    by (simp_all add: case_prod_beta)
  have same: "snap ?re' = snap re" "current_term ?re' = current_term re" "role ?re' = role re"
    "chan_cap (commit_chan ?re') = chan_cap (commit_chan re)"
    by (simp_all add: propose_def Let_def)
  have last: "get_last_log_index ?re' = get_last_log_index re + 1"
    by (simp add: get_last_log_index_last step(1))
  have "sn_last_index (snap ?re') + int (length (log ?re')) + int (length xs) \<le> int64_max"
    using Cons.prems(3) by (simp add: step(1) same)
  from Cons.IH [OF step(3) _ this] Cons.prems(2) same last step
  show ?case by (cases "xs = []") (simp_all add: take_Cons')
qed

text \<open>
  A message with what the leader has added: the entries behind its old last index. The code has no
  sender for it, \<^verbatim>\<open>sendHeartbeats\<close> sends nothing; \<^verbatim>\<open>HandleAppendEntries\<close> takes it from whoever calls.
\<close>

definition replicates :: "append_entries_args \<Rightarrow> 'st raft \<Rightarrow> 'st raft \<Rightarrow> bool" where
  "replicates m before after \<longleftrightarrow> ae_term m = current_term after \<and>
     ae_prev_log_index m = get_last_log_index before \<and> ae_prev_log_term m = get_last_log_term before \<and>
     ae_entries m = drop (length (log before)) (log after) \<and> ae_leader_commit m = commit_index after"

lemma committed_data_entries:
  assumes "\<And>k. k < length xs \<Longrightarrow> \<exists>e. entry_at re (i + 1 + int k) = Some e \<and> le_data e = xs ! k"
    and "\<forall>x \<in> set xs. x \<noteq> []"
  shows "committed_data re i (i + int (length xs)) = xs"
  using assms
proof (induction xs arbitrary: i)
  case Nil
  then show ?case by (simp add: committed_data_empty)
next
  case (Cons x xs)
  have "committed_data re (i + 1) (i + 1 + int (length xs)) = xs"
  proof (rule Cons.IH)
    fix k assume "k < length xs"
    then show "\<exists>e. entry_at re (i + 1 + 1 + int k) = Some e \<and> le_data e = xs ! k"
      using Cons.prems(1) [of "Suc k"] by (simp add: algebra_simps)
  qed (use Cons.prems(2) in simp)
  moreover obtain e where "entry_at re (i + 1) = Some e" "le_data e = x" using Cons.prems(1) [of 0] by auto
  moreover have "x \<noteq> []" using Cons.prems(2) by simp
  ultimately show ?case by (simp add: committed_data_step algebra_simps)
qed

text \<open>
  A follower that stands where the leader stood before a series of proposals, and has delivered
  everything up to there.
\<close>

definition in_step_with :: "'st raft \<Rightarrow> 'st raft \<Rightarrow> bool" where
  "in_step_with f ld \<longleftrightarrow> log_wf f \<and> current_term f \<le> current_term ld \<and>
     (\<exists>e. entry_at f (get_last_log_index ld) = Some e \<and> le_term e = get_last_log_term ld) \<and>
     commit_index f = get_last_log_index ld \<and> last_applied f = get_last_log_index ld \<and>
     chan_cap (commit_chan f) = chan_cap (commit_chan ld) \<and> chan_buf (commit_chan f) = chan_buf (commit_chan ld)"

lemma follower_delivers_same:
  assumes "log_wf ld" and "role ld = RoleLeader" and "sn_last_index (snap ld) + int (length (log ld)) + int (length xs) < int64_max"
    and "in_step_with f ld" and "sn_last_index (snap f) \<le> sn_last_index (snap ld)" and "xs \<noteq> []" and "\<forall>x \<in> set xs. x \<noteq> []"
    and "replicates m ld (propose_all d xs ld)"
  shows "chan_buf (commit_chan (fst (handle_append_entries d' r m f))) =
     chan_buf (commit_chan (propose_all d xs ld))"
proof -
  let ?l = "get_last_log_index ld" and ?ld' = "propose_all d xs ld"
  let ?args = m and ?es = "entries_from (get_last_log_index ld) (current_term ld) xs"
  from propose_all_outcome [OF assms(1,2), of xs d] assms(3)
  have ld': "log ?ld' = log ld @ ?es" "current_term ?ld' = current_term ld" "commit_index ?ld' = ?l + int (length xs)"
    "chan_buf (commit_chan ?ld') = chan_buf (commit_chan ld) @
       take (chan_cap (commit_chan ld) - length (chan_buf (commit_chan ld))) xs"
    using assms(6) by simp_all
  have args: "ae_term ?args = current_term ld" "ae_prev_log_index ?args = ?l" "ae_prev_log_term ?args = get_last_log_term ld"
    "ae_entries ?args = ?es" "ae_leader_commit ?args = ?l + int (length xs)"
    using assms(8) by (simp_all add: replicates_def ld')
  from assms(1) have wf: "log_contiguous ld" "log_bounds ld" by (simp_all add: log_wf_def)
  have l: "?l = sn_last_index (snap ld) + int (length (log ld)) - 1" by (rule last_index_contiguous [OF wf(1)])
  have f: "log_contiguous f" "log_bounds f" "commit_index f = ?l" "last_applied f = ?l"
    using assms(4) by (simp_all add: in_step_with_def log_wf_def)
  from assms(4) obtain e where e: "entry_at f ?l = Some e" "le_term e = get_last_log_term ld" "current_term f \<le> current_term ld"
    by (auto simp: in_step_with_def)
  have acc: "ae_accepts f ?args" using e by (simp add: ae_accepts_def args)
  have range: "in_int64 ?l" "in_int64 (?l + int (length xs))"
    using l wf(2) assms(3) by (simp_all add: int64_numerals log_bounds_def int64_max_def)
  have p: "in_int64 (ae_prev_log_index ?args)" using range(1) by (simp add: args)
  let ?f' = "fst (handle_append_entries d' r ?args f)"
  let ?w = "ae_write d' r ?args f"
  have f': "?f' = advance_commit (?l + int (length xs)) ?w" by (simp add: handle_ae_accept [OF f(2) p acc] args)
  have "get_last_log_index ?w = ?l + int (length xs)"
    using last_index_ae_write [of f ?args e d' r] e(1) assms(6) last_entries_from [OF assms(6)]
    by (simp add: args) (metis length_0_conv length_entries_from)
  then have commit: "commit_index ?f' = ?l + int (length xs)"
    using f(3) assms(6) by (simp add: f' commit_index_advance)
  have at: "entry_at ?f' i = entry_at ?w i" for i by (rule entry_at_cong) (simp_all add: f')
  have data: "committed_data ?f' ?l (?l + int (length xs)) = xs"
  proof (rule committed_data_entries)
    fix k assume k: "k < length xs"
    have "entry_at ?w (?l + 1 + int k) = Some (?es ! k)"
      using k entry_at_ae_write [of f ?args e d' r "?l + 1 + int k"] e(1) by (simp add: args nat_add_distrib)
    then show "\<exists>e. entry_at ?f' (?l + 1 + int k) = Some e \<and> le_data e = xs ! k"
      using k by (simp add: at entries_from_nth)
  qed fact
  have bounds: "log_bounds ?f'"
  proof -
    have "log_bounds ?w"
      using e(1) f(2) l assms(3) wf(2) by (auto simp: log_bounds_def args entry_at_def Let_def split: if_splits)
    then show ?thesis using log_bounds_cong [of ?f' ?w] by (simp add: f')
  qed
  have "commit_index f < ae_leader_commit ?args" using f(3) assms(6) by (simp add: args)
  from append_entries_delivery [OF f(2) p acc bounds _ _ this] range f(4) data commit assms(4)
  show ?thesis by (simp add: args ld'(4) in_step_with_def)
qed

end
