(* ===== verification/Utf8.thy ===== *)
theory Utf8
  imports Prelude
begin

text \<open>
  UTF-8 as Go reads and writes it (\<^verbatim>\<open>unicode/utf8\<close>) and the quoted strings of \<^verbatim>\<open>encoding/json\<close>. A
  byte that does not begin a well-formed sequence decodes to the replacement character with
  width 1, so every byte sequence can be read; \<open>sanitize\<close> is what reading and writing again makes
  of it. The main lemma is that unquoting a quoted string gives the sanitized string.
\<close>

section \<open>Runes\<close>

abbreviation code :: "char \<Rightarrow> nat" where "code c \<equiv> of_char c"

definition rune_error :: nat where "rune_error = 0xFFFD"

definition surrogate :: "nat \<Rightarrow> bool" where "surrogate r \<longleftrightarrow> 0xD800 \<le> r \<and> r \<le> 0xDFFF"

definition encode_rune :: "nat \<Rightarrow> bytes" where
  "encode_rune r =
     (if r < 0x80 then [char_of r]
      else if r < 0x800 then [char_of (0xC0 + r div 64), char_of (0x80 + r mod 64)]
      else if surrogate r \<or> r > 0x10FFFF then [CHR 0xEF, CHR 0xBF, CHR 0xBD]
      else if r < 0x10000 then [char_of (0xE0 + r div 4096), char_of (0x80 + r div 64 mod 64), char_of (0x80 + r mod 64)]
      else [char_of (0xF0 + r div 262144), char_of (0x80 + r div 4096 mod 64), char_of (0x80 + r div 64 mod 64),
            char_of (0x80 + r mod 64)])"

definition cont :: "char \<Rightarrow> bool" where "cont c \<longleftrightarrow> 0x80 \<le> code c \<and> code c \<le> 0xBF"

text \<open>The range of the second byte depends on the first.\<close>

definition second_ok :: "nat \<Rightarrow> char \<Rightarrow> bool" where
  "second_ok b c \<longleftrightarrow> cont c \<and> (b = 0xE0 \<longrightarrow> 0xA0 \<le> code c) \<and> (b = 0xED \<longrightarrow> code c \<le> 0x9F) \<and>
     (b = 0xF0 \<longrightarrow> 0x90 \<le> code c) \<and> (b = 0xF4 \<longrightarrow> code c \<le> 0x8F)"

definition low6 :: "char \<Rightarrow> nat" where "low6 c = code c mod 64"

text \<open>The first rune of a non-empty input and the input behind it.\<close>

fun decode_rune :: "bytes \<Rightarrow> nat \<times> bytes" where
  "decode_rune [] = (rune_error, [])"
| "decode_rune (c # cs) =
     (let b = code c; bad = (rune_error, cs)
      in if b < 0x80 then (b, cs)
         else if b < 0xC2 then bad
         else if b < 0xE0 then
           (case cs of c1 # r \<Rightarrow> if cont c1 then (b mod 32 * 64 + low6 c1, r) else bad | [] \<Rightarrow> bad)
         else if b < 0xF0 then
           (case cs of c1 # c2 # r \<Rightarrow> if second_ok b c1 \<and> cont c2 then (b mod 16 * 4096 + low6 c1 * 64 + low6 c2, r) else bad
            | _ \<Rightarrow> bad)
         else if b < 0xF5 then
           (case cs of c1 # c2 # c3 # r \<Rightarrow> if second_ok b c1 \<and> cont c2 \<and> cont c3
                then (b mod 8 * 262144 + low6 c1 * 4096 + low6 c2 * 64 + low6 c3, r) else bad
            | _ \<Rightarrow> bad)
         else bad)"

lemma decode_rune_suffix: "\<exists>p. p \<noteq> [] \<and> c # cs = p @ snd (decode_rune (c # cs))"
proof -
  have "\<exists>p. c # cs = c # p @ snd (decode_rune (c # cs))"
    by (auto simp: Let_def split: list.splits)
  then show ?thesis by (metis append_Cons list.distinct(1))
qed

lemma decode_rune_shorter: "s \<noteq> [] \<Longrightarrow> length (snd (decode_rune s)) < length s"
  using decode_rune_suffix by (metis length_append length_greater_0_conv less_add_same_cancel2 neq_Nil_conv)

declare decode_rune.simps(2) [simp del]

text \<open>A well-formed sequence is read the same whatever follows it.\<close>

lemma decode_rune_local:
  assumes "decode_rune (c # cs) = (r, rest)" and "length rest < length cs \<or> code c < 0x80"
  shows "\<exists>p. c # cs = (c # p) @ rest \<and> (\<forall>u. decode_rune ((c # p) @ u) = (r, u))"
  using assms
  by (auto simp: decode_rune.simps(2) Let_def split: if_splits list.splits)

text \<open>Only a bad byte is one byte long beyond ASCII.\<close>

lemma decode_rune_bad:
  assumes "decode_rune (c # cs) = (r, rest)" and "\<not> length rest < length cs" and "\<not> code c < 0x80"
  shows "r = rune_error"
  using assms by (auto simp: decode_rune.simps(2) Let_def split: if_splits list.splits)

lemma decode_rune_ascii: "code c < 0x80 \<Longrightarrow> decode_rune (c # cs) = (code c, cs)"
  by (simp add: decode_rune.simps(2) Let_def)

function sanitize :: "bytes \<Rightarrow> bytes" where
  "sanitize s = (if s = [] then [] else (let (r, rest) = decode_rune s in encode_rune r @ sanitize rest))"
  by pat_completeness auto
termination
  by (relation "measure length") (auto dest: decode_rune_shorter simp: prod_eq_iff)

declare sanitize.simps [simp del]

lemma sanitize_Nil [simp]: "sanitize [] = []"
  by (simp add: sanitize.simps)

lemma sanitize_step: "decode_rune (c # cs) = (r, rest) \<Longrightarrow> sanitize (c # cs) = encode_rune r @ sanitize rest"
  by (subst sanitize.simps) simp

definition ascii :: "bytes \<Rightarrow> bool" where "ascii s \<longleftrightarrow> (\<forall>c \<in> set s. code c < 0x80)"

lemma ascii_simps [simp]: "ascii []" "ascii (c # s) \<longleftrightarrow> code c < 0x80 \<and> ascii s"
  by (auto simp: ascii_def)

lemma ascii_append [simp]: "ascii (s @ t) \<longleftrightarrow> ascii s \<and> ascii t"
  by (auto simp: ascii_def)

text \<open>ASCII is read as it is.\<close>

lemma sanitize_ascii [simp]: "ascii s \<Longrightarrow> sanitize s = s"
  by (induction s) (simp_all add: sanitize_step [OF decode_rune_ascii] encode_rune_def)

section \<open>Quoting\<close>

text \<open>\<^verbatim>\<open>appendString\<close> of \<^verbatim>\<open>encoding/json\<close> with HTML escaping, which \<^verbatim>\<open>Marshal\<close> uses.\<close>

definition html_safe :: "char \<Rightarrow> bool" where
  "html_safe c \<longleftrightarrow> 0x20 \<le> code c \<and> code c < 0x80 \<and> c \<notin> set [CHR 0x22, CHR 0x5C, CHR ''<'', CHR ''>'', CHR ''&'']"

definition hex4 :: "nat \<Rightarrow> string" where
  "hex4 n = [hex_digit (n div 4096 mod 16), hex_digit (n div 256 mod 16), hex_digit (n div 16 mod 16), hex_digit (n mod 16)]"

definition escape_ascii :: "char \<Rightarrow> string" where
  "escape_ascii c =
     (if html_safe c then [c]
      else if c = CHR 0x22 \<or> c = CHR 0x5C then [CHR 0x5C, c]
      else if c = CHR 0x08 then [CHR 0x5C, CHR ''b'']
      else if c = CHR 0x0C then [CHR 0x5C, CHR ''f'']
      else if c = CHR 0x0A then [CHR 0x5C, CHR ''n'']
      else if c = CHR 0x0D then [CHR 0x5C, CHR ''r'']
      else if c = CHR 0x09 then [CHR 0x5C, CHR ''t'']
      else CHR 0x5C # CHR ''u'' # hex4 (code c))"

function quote_body :: "bytes \<Rightarrow> string" where
  "quote_body [] = []"
| "quote_body (c # cs) =
     (let (r, rest) = decode_rune (c # cs)
      in (if code c < 0x80 then escape_ascii c
          else if \<not> length rest < length cs then CHR 0x5C # CHR ''u'' # hex4 rune_error
          else if r = 0x2028 \<or> r = 0x2029 then CHR 0x5C # CHR ''u'' # hex4 r
          else take (length (c # cs) - length rest) (c # cs)) @ quote_body rest)"
  by pat_completeness auto
termination
proof (relation "measure length")
  fix c cs p r rest assume "p = decode_rune (c # cs)" and "(r, rest) = p"
  then show "(rest, c # cs) \<in> measure length" using decode_rune_shorter [of "c # cs"] by (metis in_measure list.distinct(1) snd_conv)
qed simp

declare quote_body.simps(2) [simp del]

section \<open>Unquoting\<close>

definition hex_value :: "char \<Rightarrow> nat option" where
  "hex_value c = (let n = code c in
     if 48 \<le> n \<and> n \<le> 57 then Some (n - 48)
     else if 97 \<le> n \<and> n \<le> 102 then Some (n - 87)
     else if 65 \<le> n \<and> n \<le> 70 then Some (n - 55) else None)"

fun read_hex4 :: "string \<Rightarrow> (nat \<times> string) option" where
  "read_hex4 (a # b # c # d # s) = (case (hex_value a, hex_value b, hex_value c, hex_value d) of
      (Some a', Some b', Some c', Some d') \<Rightarrow> Some (4096 * a' + 256 * b' + 16 * c' + d', s)
    | _ \<Rightarrow> None)"
| "read_hex4 _ = None"

definition simple_escape :: "char \<Rightarrow> char option" where
  "simple_escape c =
     (if c = CHR 0x22 \<or> c = CHR 0x5C \<or> c = CHR ''/'' then Some c
      else if c = CHR ''b'' then Some (CHR 0x08)
      else if c = CHR ''f'' then Some (CHR 0x0C)
      else if c = CHR ''n'' then Some (CHR 0x0A)
      else if c = CHR ''r'' then Some (CHR 0x0D)
      else if c = CHR ''t'' then Some (CHR 0x09)
      else None)"

text \<open>Behind a first surrogate: a second one completes the pair, anything else is left for the next step.\<close>

definition low_half :: "nat \<Rightarrow> string \<Rightarrow> (nat \<times> string) option" where
  "low_half r s = (case s of
      b # u # es \<Rightarrow> if b = CHR 0x5C \<and> u = CHR ''u'' then
          (case read_hex4 es of
             Some (r2, rest) \<Rightarrow> if r < 0xDC00 \<and> 0xDC00 \<le> r2 \<and> r2 \<le> 0xDFFF
               then Some (0x10000 + (r - 0xD800) * 1024 + (r2 - 0xDC00), rest) else None
           | None \<Rightarrow> None)
        else None
    | _ \<Rightarrow> None)"

definition unquote_escape :: "string \<Rightarrow> (bytes \<times> string) option" where
  "unquote_escape es = (case es of
      [] \<Rightarrow> None
    | e # es' \<Rightarrow>
        if e = CHR ''u'' then
          (case read_hex4 es' of
             None \<Rightarrow> None
           | Some (r, s) \<Rightarrow>
               if surrogate r then
                 (case low_half r s of
                    Some (r', s') \<Rightarrow> Some (encode_rune r', s')
                  | None \<Rightarrow> Some (encode_rune rune_error, s))
               else Some (encode_rune r, s))
        else map_option (\<lambda>b. ([b], es')) (simple_escape e))"

text \<open>One step inside a string literal: the bytes it stands for and the input behind it.\<close>

definition unquote_step :: "char \<Rightarrow> string \<Rightarrow> (bytes \<times> string) option" where
  "unquote_step c cs =
     (if c = CHR 0x5C then unquote_escape cs
      else if code c < 0x20 then None
      else (let (r, rest) = decode_rune (c # cs) in Some (encode_rune r, rest)))"

lemma read_hex4_shorter: "read_hex4 s = Some (n, rest) \<Longrightarrow> length rest < length s"
  by (induction s rule: read_hex4.induct) (auto split: option.splits)

lemma low_half_shorter: "low_half r s = Some (n, rest) \<Longrightarrow> length rest < length s"
  by (auto simp: low_half_def split: list.splits if_splits option.splits dest!: read_hex4_shorter)

lemma unquote_step_shorter: "unquote_step c cs = Some (x, rest) \<Longrightarrow> length rest < length (c # cs)"
  using decode_rune_shorter [of "c # cs"]
  by (fastforce simp: unquote_step_def unquote_escape_def split: if_splits list.splits option.splits prod.splits
      dest: read_hex4_shorter low_half_shorter)

text \<open>The literal behind its opening quote: its bytes and the input behind the closing quote.\<close>

function unquote :: "string \<Rightarrow> (bytes \<times> string) option" where
  "unquote [] = None"
| "unquote (c # cs) =
     (if c = CHR 0x22 then Some ([], cs)
      else case unquote_step c cs of
          None \<Rightarrow> None
        | Some (x, rest) \<Rightarrow> map_option (\<lambda>(y, s). (x @ y, s)) (unquote rest))"
  by pat_completeness auto
termination
  by (relation "measure length") (auto dest: unquote_step_shorter)

declare unquote.simps(2) [simp del]

lemma unquote_shorter: "unquote s = Some (x, rest) \<Longrightarrow> length rest < length s"
proof (induction s arbitrary: x rule: unquote.induct)
  case (2 c cs)
  then show ?case
    by (fastforce simp: unquote.simps(2) split: if_splits option.splits prod.splits dest: unquote_step_shorter)
qed simp

section \<open>The round trip\<close>

lemma hex_value_digit: "n < 16 \<Longrightarrow> hex_value (hex_digit n) = Some n"
proof -
  have "\<forall>k \<in> set [0..<16]. hex_value (hex_digit k) = Some k"
    by (simp add: upt_rec hex_value_def hex_digit_def)
  then show "n < 16 \<Longrightarrow> ?thesis" by simp
qed

lemma read_hex4_hex4: "n < 65536 \<Longrightarrow> read_hex4 (hex4 n @ s) = Some (n, s)"
proof -
  assume n: "n < 65536"
  have "4096 * (n div 4096) + 256 * (n div 256 mod 16) + 16 * (n div 16 mod 16) + n mod 16 = n"
  proof -
    have "n = 16 * (n div 16) + n mod 16" by simp
    moreover have "n div 16 = 16 * (n div 256) + n div 16 mod 16" using div_mult2_eq [of n 16 16] by simp
    moreover have "n div 256 = 16 * (n div 4096) + n div 256 mod 16" using div_mult2_eq [of n 256 16] by simp
    ultimately show ?thesis by linarith
  qed
  moreover have "n div 4096 < 16" using n by (simp add: less_mult_imp_div_less)
  ultimately show ?thesis by (simp add: hex4_def hex_value_digit)
qed

lemma unquote_piece:
  assumes "unquote_step c p = Some (x, u)" and "c \<noteq> CHR 0x22"
  shows "unquote (c # p) = map_option (\<lambda>(y, s). (x @ y, s)) (unquote u)"
  using assms by (simp add: unquote.simps(2))

lemma escape_u:
  assumes "r < 65536" and "\<not> surrogate r"
  shows "unquote_step (CHR 0x5C) (CHR ''u'' # hex4 r @ u) = Some (encode_rune r, u)"
  using assms by (simp add: unquote_step_def unquote_escape_def read_hex4_hex4)

lemma escape_ascii_piece:
  assumes "code c < 0x80"
  shows "\<exists>d p. escape_ascii c = d # p \<and> d \<noteq> CHR 0x22 \<and> (\<forall>u. unquote_step d (p @ u) = Some (encode_rune (code c), u))"
proof (cases "html_safe c")
  case True
  then have c: "c \<noteq> CHR 0x22" "c \<noteq> CHR 0x5C" "\<not> code c < 0x20" by (auto simp: html_safe_def)
  have "unquote_step c ([] @ u) = Some (encode_rune (code c), u)" for u
    using c assms by (simp add: unquote_step_def decode_rune_ascii)
  with True c(1) show ?thesis by (intro exI [of _ c] exI [of _ "[]"]) (simp add: escape_ascii_def)
next
  case False
  have u: "unquote_step (CHR 0x5C) (CHR ''u'' # hex4 (code c) @ u) = Some (encode_rune (code c), u)" for u
    using assms by (intro escape_u) (simp_all add: surrogate_def)
  show ?thesis
  proof (cases "c \<in> set [CHR 0x22, CHR 0x5C, CHR 0x08, CHR 0x0C, CHR 0x0A, CHR 0x0D, CHR 0x09]")
    case True
    then have "\<exists>b. escape_ascii c = [CHR 0x5C, b] \<and> simple_escape b = Some c \<and> b \<noteq> CHR ''u''"
      by (auto simp: escape_ascii_def html_safe_def simple_escape_def)
    then obtain b where b: "escape_ascii c = [CHR 0x5C, b]" "simple_escape b = Some c" "b \<noteq> CHR ''u''" by blast
    have "unquote_step (CHR 0x5C) ([b] @ u) = Some (encode_rune (code c), u)" for u
      using b assms by (simp add: unquote_step_def unquote_escape_def encode_rune_def)
    then show ?thesis using b(1) by simp
  next
    case False
    then have "escape_ascii c = CHR 0x5C # CHR ''u'' # hex4 (code c)" using \<open>\<not> html_safe c\<close> by (simp add: escape_ascii_def)
    then show ?thesis using u by simp
  qed
qed

lemma unquote_quote_body: "unquote (quote_body s @ CHR 0x22 # t) = Some (sanitize s, t)"
proof (induction s rule: quote_body.induct)
  case 1
  then show ?case by (simp add: unquote.simps(2))
next
  case (2 c cs)
  obtain r rest where d: "decode_rune (c # cs) = (r, rest)" by (cases "decode_rune (c # cs)")
  from "2.IH" [OF refl, of r rest] d have IH: "unquote (quote_body rest @ CHR 0x22 # t) = Some (sanitize rest, t)" by simp
  let ?piece = "if code c < 0x80 then escape_ascii c
          else if \<not> length rest < length cs then CHR 0x5C # CHR ''u'' # hex4 rune_error
          else if r = 0x2028 \<or> r = 0x2029 then CHR 0x5C # CHR ''u'' # hex4 r
          else take (length (c # cs) - length rest) (c # cs)"
  have "\<exists>a p. ?piece = a # p \<and> a \<noteq> CHR 0x22 \<and> (\<forall>u. unquote_step a (p @ u) = Some (encode_rune r, u))"
  proof -
    consider (ascii) "code c < 0x80" | (bad) "\<not> code c < 0x80" "\<not> length rest < length cs"
      | (line) "\<not> code c < 0x80" "length rest < length cs" "r = 0x2028 \<or> r = 0x2029"
      | (raw) "\<not> code c < 0x80" "length rest < length cs" "\<not> (r = 0x2028 \<or> r = 0x2029)" by blast
    then show ?thesis
    proof cases
      case ascii
      then show ?thesis using escape_ascii_piece [OF ascii] decode_rune_ascii [OF ascii] d by simp
    next
      case bad
      then show ?thesis using decode_rune_bad [OF d] escape_u [of rune_error] by (simp add: rune_error_def surrogate_def)
    next
      case line
      then show ?thesis using escape_u [of r] by (auto simp: surrogate_def)
    next
      case raw
      obtain p where p: "c # cs = (c # p) @ rest" "\<forall>u. decode_rune ((c # p) @ u) = (r, u)"
        using decode_rune_local [OF d] raw(2) by blast
      then have "take (length (c # cs) - length rest) (c # cs) = c # p" by simp
      moreover have "c \<noteq> CHR 0x22" "c \<noteq> CHR 0x5C" "\<not> code c < 0x20" using raw(1) by auto
      ultimately show ?thesis using raw p(2) by (simp add: unquote_step_def)
    qed
  qed
  then obtain a p where p: "?piece = a # p" "a \<noteq> CHR 0x22" "\<forall>u. unquote_step a (p @ u) = Some (encode_rune r, u)" by blast
  have "quote_body (c # cs) = (a # p) @ quote_body rest" unfolding p(1) [symmetric] by (simp add: quote_body.simps(2) d)
  then have "unquote (quote_body (c # cs) @ CHR 0x22 # t)
      = map_option (\<lambda>(y, s). (encode_rune r @ y, s)) (unquote (quote_body rest @ CHR 0x22 # t))"
    using unquote_piece [of a "p @ quote_body rest @ CHR 0x22 # t"] p(2,3) by simp
  then show ?case by (simp add: IH sanitize_step [OF d])
qed

definition quote :: "bytes \<Rightarrow> string" where
  "quote s = CHR 0x22 # quote_body s @ [CHR 0x22]"

text \<open>Whether the text of a string needs an escape.\<close>

definition escapes :: "bytes \<Rightarrow> bool" where
  "escapes s \<longleftrightarrow> CHR 0x5C \<in> set (quote_body s)"

lemma quote_body_safe: "\<forall>c \<in> set s. html_safe c \<Longrightarrow> quote_body s = s"
  by (induction s) (simp_all add: quote_body.simps(2) decode_rune_ascii html_safe_def escape_ascii_def)

lemma escapes_safe: "\<forall>c \<in> set s. html_safe c \<Longrightarrow> \<not> escapes s"
  by (auto simp: escapes_def quote_body_safe html_safe_def)

section \<open>What is unquoted is well-formed\<close>

text \<open>An encoded rune is read back, so that sanitizing changes nothing the second time.\<close>

lemma two_digits: "\<exists>a b. (r :: nat) = 64 * a + b \<and> b < 64 \<and> r div 64 = a \<and> r mod 64 = b"
  by (intro exI [of _ "r div 64"] exI [of _ "r mod 64"]) simp

lemma three_digits: "\<exists>a b c. (r :: nat) = 4096 * a + 64 * b + c \<and> b < 64 \<and> c < 64 \<and> r div 4096 = a \<and> r div 64 mod 64 = b \<and> r mod 64 = c"
proof -
  have d: "r div 64 div 64 = r div 4096" by (simp add: div_mult2_eq [symmetric])
  have "r = 64 * (64 * (r div 64 div 64) + r div 64 mod 64) + r mod 64" by (simp only: mult_div_mod_eq)
  moreover have "x = 64 * (64 * a + b) + c \<Longrightarrow> x = 4096 * a + 64 * b + c" for x a b c :: nat by simp
  ultimately have "r = 4096 * (r div 4096) + 64 * (r div 64 mod 64) + r mod 64" unfolding d by blast
  moreover have "r div 64 mod 64 < 64" "r mod 64 < 64" by simp_all
  ultimately show ?thesis by blast
qed

lemma four_digits: "\<exists>a b c d. (r :: nat) = 262144 * a + 4096 * b + 64 * c + d \<and> b < 64 \<and> c < 64 \<and> d < 64 \<and>
     r div 262144 = a \<and> r div 4096 mod 64 = b \<and> r div 64 mod 64 = c \<and> r mod 64 = d"
proof -
  have d: "r div 64 div 64 = r div 4096" "r div 4096 div 64 = r div 262144" by (simp_all add: div_mult2_eq [symmetric])
  have "r = 64 * (64 * (64 * (r div 64 div 64 div 64) + r div 64 div 64 mod 64) + r div 64 mod 64) + r mod 64"
    by (simp only: mult_div_mod_eq)
  moreover have "x = 64 * (64 * (64 * a + b) + c) + e \<Longrightarrow> x = 262144 * a + 4096 * b + 64 * c + e" for x a b c e :: nat by simp
  ultimately have "r = 262144 * (r div 262144) + 4096 * (r div 4096 mod 64) + 64 * (r div 64 mod 64) + r mod 64" unfolding d by blast
  moreover have "r div 4096 mod 64 < 64" "r div 64 mod 64 < 64" "r mod 64 < 64" by simp_all
  ultimately show ?thesis by blast
qed

lemma cont_code: "b < 64 \<Longrightarrow> cont (char_of (0x80 + b)) \<and> low6 (char_of (0x80 + b)) = b \<and> code (char_of (0x80 + b)) = 0x80 + b"
proof -
  assume "b < 64"
  then have "(128 + b) mod 256 = 128 + b" "(128 + b) mod 64 = b" by (simp_all add: mod_add_left_eq [symmetric, of 128 b 64])
  then show ?thesis by (simp add: cont_def low6_def)
qed

lemma lead_code: "b + n < 256 \<Longrightarrow> code (char_of (b + n)) = b + n" for b n :: nat
  by simp

lemma decode_encode_rune:
  "decode_rune (encode_rune r @ s) = (if surrogate r \<or> 0x10FFFF < r then rune_error else r, s)"
proof -
  consider "r < 0x80" | "0x80 \<le> r" "r < 0x800" | "0x800 \<le> r" "surrogate r \<or> 0x10FFFF < r"
    | "0x800 \<le> r" "r < 0x10000" "\<not> surrogate r" | "0x10000 \<le> r" "r \<le> 0x10FFFF" by linarith
  then show ?thesis
  proof cases
    case 1
    then show ?thesis by (simp add: encode_rune_def decode_rune.simps(2) surrogate_def)
  next
    case 2
    obtain a b where r: "r = 64 * a + b" "b < 64" "r div 64 = a" "r mod 64 = b" using two_digits by blast
    then have a: "2 \<le> a" "a < 32" using 2 by simp_all
    have e: "encode_rune r = [char_of (0xC0 + a), char_of (0x80 + b)]" using 2 by (simp add: encode_rune_def r(3,4))
    have "(192 + a) mod 32 = a" using a by (simp add: mod_add_left_eq [symmetric, of 192 a 32])
    then show ?thesis unfolding e using 2 a cont_code [OF r(2)] lead_code [of 192 a] r(1)
      by (simp add: decode_rune.simps(2) Let_def surrogate_def)
  next
    case 3
    then show ?thesis by (auto simp: encode_rune_def decode_rune.simps(2) Let_def rune_error_def cont_def second_ok_def low6_def)
  next
    case 4
    obtain a b c where r: "r = 4096 * a + 64 * b + c" "b < 64" "c < 64" "r div 4096 = a" "r div 64 mod 64 = b" "r mod 64 = c"
      using three_digits by blast
    have a: "a < 16" "a = 0 \<Longrightarrow> 32 \<le> b" "a = 13 \<Longrightarrow> b < 32" using 4 r(1-3) by (auto simp: surrogate_def)
    have e: "encode_rune r = [char_of (0xE0 + a), char_of (0x80 + b), char_of (0x80 + c)]" using 4 by (simp add: encode_rune_def r(4-6))
    have "(224 + a) mod 16 = a" using a by (simp add: mod_add_left_eq [symmetric, of 224 a 16])
    then show ?thesis unfolding e using 4 a cont_code [OF r(2)] cont_code [OF r(3)] lead_code [of 224 a] r(1)
      by (auto simp: decode_rune.simps(2) Let_def second_ok_def)
  next
    case 5
    obtain a b c d where r: "r = 262144 * a + 4096 * b + 64 * c + d" "b < 64" "c < 64" "d < 64"
      "r div 262144 = a" "r div 4096 mod 64 = b" "r div 64 mod 64 = c" "r mod 64 = d" using four_digits by blast
    have a: "a < 5" "a = 0 \<Longrightarrow> 16 \<le> b" "a = 4 \<Longrightarrow> b < 16" using 5 r(1-4) by auto
    have e: "encode_rune r = [char_of (0xF0 + a), char_of (0x80 + b), char_of (0x80 + c), char_of (0x80 + d)]"
      using 5 by (simp add: encode_rune_def r(5-8) surrogate_def)
    have "(240 + a) mod 8 = a" using a by (simp add: mod_add_left_eq [symmetric, of 240 a 8])
    then show ?thesis unfolding e using 5 a cont_code [OF r(2)] cont_code [OF r(3)] cont_code [OF r(4)] lead_code [of 240 a] r(1)
      by (auto simp: decode_rune.simps(2) Let_def second_ok_def surrogate_def)
  qed
qed

lemma encode_rune_nonempty: "encode_rune r \<noteq> []"
  by (simp add: encode_rune_def)

lemma encode_replaced: "encode_rune (if surrogate r \<or> 0x10FFFF < r then rune_error else r) = encode_rune r"
  by (auto simp: encode_rune_def rune_error_def surrogate_def char_of_def bit_Suc_0_iff)

lemma sanitize_encode: "sanitize (encode_rune r @ s) = encode_rune r @ sanitize s"
proof -
  obtain c cs where c: "encode_rune r @ s = c # cs" using encode_rune_nonempty [of r] by (cases "encode_rune r") auto
  show ?thesis using sanitize_step [OF decode_encode_rune [of r s, unfolded c]] by (simp add: c encode_replaced)
qed

lemma sanitize_idem: "sanitize (sanitize s) = sanitize s"
proof (induction s rule: sanitize.induct)
  case (1 s)
  show ?case
  proof (cases s)
    case (Cons c cs)
    obtain r rest where d: "decode_rune (c # cs) = (r, rest)" by (cases "decode_rune (c # cs)")
    then have "sanitize (sanitize rest) = sanitize rest" using 1 Cons by auto
    then show ?thesis unfolding Cons sanitize_step [OF d] by (simp add: sanitize_encode)
  qed simp
qed

lemma unquote_step_encodes: "unquote_step c cs = Some (x, rest) \<Longrightarrow> \<exists>r. x = encode_rune r"
proof -
  have simple: "simple_escape e = Some b \<Longrightarrow> code b < 0x80" for e b by (auto simp: simple_escape_def split: if_splits)
  have one: "code b < 0x80 \<Longrightarrow> [b] = encode_rune (code b)" for b by (simp add: encode_rune_def)
  assume "unquote_step c cs = Some (x, rest)"
  then show ?thesis
    by (fastforce simp: unquote_step_def unquote_escape_def split: if_splits list.splits option.splits prod.splits dest: simple one)
qed

lemma unquote_sanitized: "unquote s = Some (x, rest) \<Longrightarrow> sanitize x = x"
proof (induction s arbitrary: x rule: unquote.induct)
  case (2 c cs)
  show ?case
  proof (cases "c = CHR 0x22")
    case True
    with 2 show ?thesis by (simp add: unquote.simps(2))
  next
    case False
    with 2 obtain y z r where "unquote_step c cs = Some (y, r)" "unquote r = Some (z, rest)" "x = y @ z"
      by (auto simp: unquote.simps(2) split: option.splits)
    with 2 False show ?thesis using unquote_step_encodes [of c cs y r] by (auto simp: sanitize_encode)
  qed
qed simp

end
