(* ===== verification/Json.thy ===== *)
theory Json
  imports Utf8
begin

text \<open>
  JSON as \<^verbatim>\<open>encoding/json\<close> reads and writes it. Reading splits the text into tokens and runs a
  machine with a stack of open arrays and objects over them, as the scanner of the package does,
  with its limit on nesting. Writing is compact (\<^verbatim>\<open>Marshal\<close>) or indented (\<^verbatim>\<open>MarshalIndent\<close>). Numbers
  are kept as their text, and a string carries, when it was read, whether its text has an escape,
  which the decoder of a time asks for. The theorems say that either output reads back as the value it was
  made from, with its strings sanitized.
\<close>

section \<open>Values and tokens\<close>

datatype json = JNull | JBool bool | JNum string | JStr bool bytes | JArr "json list" | JObj "(bytes \<times> json) list"

datatype token = TOpenObj | TCloseObj | TOpenArr | TCloseArr | TColon | TComma | TNull | TTrue | TFalse | TNum string | TStr bool bytes

text \<open>A string to be written; whether it needs an escape is found by writing it.\<close>

abbreviation jstr :: "bytes \<Rightarrow> json" where "jstr s \<equiv> JStr False s"

definition is_ws :: "char \<Rightarrow> bool" where "is_ws c \<longleftrightarrow> c \<in> set [CHR 0x20, CHR 0x09, CHR 0x0A, CHR 0x0D]"

definition is_digit :: "char \<Rightarrow> bool" where "is_digit c \<longleftrightarrow> 48 \<le> code c \<and> code c \<le> 57"

section \<open>Numbers\<close>

definition digits :: "string \<Rightarrow> string \<times> string" where
  "digits s = (takeWhile is_digit s, dropWhile is_digit s)"

text \<open>An optional sign.\<close>

definition opt_char :: "char list \<Rightarrow> string \<Rightarrow> string \<times> string" where
  "opt_char signs s = (case s of c # cs \<Rightarrow> if c \<in> set signs then ([c], cs) else ([], s) | [] \<Rightarrow> ([], s))"

definition int_part :: "string \<Rightarrow> (string \<times> string) option" where
  "int_part s = (case s of
      [] \<Rightarrow> None
    | c # cs \<Rightarrow> if c = CHR ''0'' then Some ([c], cs)
                else if is_digit c then Some (c # fst (digits cs), snd (digits cs)) else None)"

definition frac_part :: "string \<Rightarrow> (string \<times> string) option" where
  "frac_part s = (case s of
      c # cs \<Rightarrow> if c = CHR ''.'' then (if fst (digits cs) = [] then None else Some (c # fst (digits cs), snd (digits cs)))
                else Some ([], s)
    | [] \<Rightarrow> Some ([], s))"

definition exp_part :: "string \<Rightarrow> (string \<times> string) option" where
  "exp_part s = (case s of
      c # cs \<Rightarrow> if c = CHR ''e'' \<or> c = CHR ''E'' then
          (let (sign, ds) = opt_char ''+-'' cs
           in if fst (digits ds) = [] then None else Some (c # sign @ fst (digits ds), snd (digits ds)))
        else Some ([], s)
    | [] \<Rightarrow> Some ([], s))"

definition lex_number :: "string \<Rightarrow> (string \<times> string) option" where
  "lex_number s =
     (let (sign, s1) = opt_char ''-'' s
      in case int_part s1 of
           None \<Rightarrow> None
         | Some (i, s2) \<Rightarrow> (case frac_part s2 of
             None \<Rightarrow> None
           | Some (f, s3) \<Rightarrow> (case exp_part s3 of
               None \<Rightarrow> None
             | Some (e, s4) \<Rightarrow> Some (sign @ i @ f @ e, s4))))"

lemma digits_shorter: "length (snd (digits s)) \<le> length s"
  by (simp add: digits_def length_dropWhile_le)

lemma opt_char_shorter: "length (snd (opt_char signs s)) \<le> length s"
  by (simp add: opt_char_def split: list.split)

lemma int_part_shorter: "int_part s = Some (x, r) \<Longrightarrow> length r < length s"
  using digits_shorter by (fastforce simp: int_part_def split: list.splits if_splits intro: le_imp_less_Suc)

lemma frac_part_shorter: "frac_part s = Some (x, r) \<Longrightarrow> length r \<le> length s"
  using digits_shorter by (fastforce simp: frac_part_def split: list.splits if_splits intro: le_SucI)

lemma exp_part_shorter: "exp_part s = Some (x, r) \<Longrightarrow> length r \<le> length s"
proof (cases s)
  case (Cons c cs)
  assume e: "exp_part s = Some (x, r)"
  have "length (snd (opt_char ''+-'' cs)) \<le> length cs" by (rule opt_char_shorter)
  moreover have "r = s \<or> r = snd (digits (snd (opt_char ''+-'' cs)))"
    using e Cons by (auto simp: exp_part_def Let_def case_prod_beta split: if_splits)
  ultimately show ?thesis using Cons digits_shorter [of "snd (opt_char ''+-'' cs)"] by auto
qed (simp add: exp_part_def)

lemma lex_number_shorter: "lex_number s = Some (x, r) \<Longrightarrow> length r < length s"
  using opt_char_shorter [of "''-''" s]
  by (fastforce simp: lex_number_def Let_def case_prod_beta split: option.splits
      dest: int_part_shorter frac_part_shorter exp_part_shorter)

section \<open>The lexer\<close>

definition literal :: "string \<Rightarrow> token \<Rightarrow> string \<Rightarrow> (token \<times> string) option" where
  "literal w t cs = (if has_prefix cs w then Some (t, drop (length w) cs) else None)"

definition punctuation :: "char \<Rightarrow> token option" where
  "punctuation c =
     (if c = CHR 0x7B then Some TOpenObj
      else if c = CHR 0x7D then Some TCloseObj
      else if c = CHR 0x5B then Some TOpenArr
      else if c = CHR 0x5D then Some TCloseArr
      else if c = CHR '':'' then Some TColon
      else if c = CHR '','' then Some TComma else None)"

definition keyword_of :: "char \<Rightarrow> (string \<times> token) option" where
  "keyword_of c =
     (if c = CHR ''n'' then Some (''ull'', TNull)
      else if c = CHR ''t'' then Some (''rue'', TTrue)
      else if c = CHR ''f'' then Some (''alse'', TFalse) else None)"

definition lex_token :: "char \<Rightarrow> string \<Rightarrow> (token \<times> string) option" where
  "lex_token c cs = (case punctuation c of
      Some t \<Rightarrow> Some (t, cs)
    | None \<Rightarrow> (case keyword_of c of
        Some (w, t) \<Rightarrow> literal w t cs
      | None \<Rightarrow>
          if c = CHR 0x22 then map_option (\<lambda>(x, r). (TStr (CHR 0x5C \<in> set (take (length cs - length r) cs)) x, r)) (unquote cs)
          else if c = CHR ''-'' \<or> is_digit c then map_option (\<lambda>(x, r). (TNum x, r)) (lex_number (c # cs))
          else None))"

lemma literal_shorter: "literal w t cs = Some (t', rest) \<Longrightarrow> length rest \<le> length cs"
  by (auto simp: literal_def split: if_splits)

lemma lex_token_shorter:
  assumes "lex_token c cs = Some (t, rest)"
  shows "length rest < length (c # cs)"
proof -
  from assms consider "rest = cs" | w t' where "literal w t' cs = Some (t, rest)" | x where "unquote cs = Some (x, rest)"
    | x where "lex_number (c # cs) = Some (x, rest)"
    by (auto simp: lex_token_def split: option.splits if_splits)
  then show ?thesis by cases (auto dest: literal_shorter unquote_shorter lex_number_shorter)
qed

function tokenize :: "string \<Rightarrow> token list option" where
  "tokenize [] = Some []"
| "tokenize (c # cs) =
     (if is_ws c then tokenize cs
      else case lex_token c cs of
          None \<Rightarrow> None
        | Some (t, rest) \<Rightarrow> map_option (\<lambda>ts. t # ts) (tokenize rest))"
  by pat_completeness auto
termination
  by (relation "measure length") (auto dest: lex_token_shorter)

declare tokenize.simps(2) [simp del]

section \<open>The machine\<close>

datatype frame = FArr "json list" | FKey "(bytes \<times> json) list" | FVal "(bytes \<times> json) list" bytes

datatype mode = BeginValue | ValueOrClose | KeyOrClose | BeginKey | WantColon | EndValue json

definition max_nesting :: nat where "max_nesting = 10000"

definition begin_value :: "token \<Rightarrow> frame list \<Rightarrow> (mode \<times> frame list) option" where
  "begin_value t stk = (case t of
      TNull \<Rightarrow> Some (EndValue JNull, stk)
    | TTrue \<Rightarrow> Some (EndValue (JBool True), stk)
    | TFalse \<Rightarrow> Some (EndValue (JBool False), stk)
    | TNum s \<Rightarrow> Some (EndValue (JNum s), stk)
    | TStr e s \<Rightarrow> Some (EndValue (JStr e s), stk)
    | TOpenArr \<Rightarrow> if length stk < max_nesting then Some (ValueOrClose, FArr [] # stk) else None
    | TOpenObj \<Rightarrow> if length stk < max_nesting then Some (KeyOrClose, FKey [] # stk) else None
    | _ \<Rightarrow> None)"

definition begin_key :: "token \<Rightarrow> frame list \<Rightarrow> (mode \<times> frame list) option" where
  "begin_key t stk = (case (t, stk) of
      (TStr e k, FKey acc # stk') \<Rightarrow> Some (WantColon, FVal acc k # stk')
    | _ \<Rightarrow> None)"

definition end_value :: "json \<Rightarrow> token \<Rightarrow> frame list \<Rightarrow> (mode \<times> frame list) option" where
  "end_value v t stk = (case stk of
      FArr acc # stk' \<Rightarrow>
        if t = TComma then Some (BeginValue, FArr (v # acc) # stk')
        else if t = TCloseArr then Some (EndValue (JArr (rev (v # acc))), stk') else None
    | FVal acc k # stk' \<Rightarrow>
        if t = TComma then Some (BeginKey, FKey ((k, v) # acc) # stk')
        else if t = TCloseObj then Some (EndValue (JObj (rev ((k, v) # acc))), stk') else None
    | _ \<Rightarrow> None)"

fun machine_step :: "mode \<Rightarrow> frame list \<Rightarrow> token \<Rightarrow> (mode \<times> frame list) option" where
  "machine_step BeginValue stk t = begin_value t stk"
| "machine_step ValueOrClose stk t = (if t = TCloseArr then
      (case stk of FArr acc # stk' \<Rightarrow> Some (EndValue (JArr (rev acc)), stk') | _ \<Rightarrow> None) else begin_value t stk)"
| "machine_step KeyOrClose stk t = (if t = TCloseObj then
      (case stk of FKey acc # stk' \<Rightarrow> Some (EndValue (JObj (rev acc)), stk') | _ \<Rightarrow> None) else begin_key t stk)"
| "machine_step BeginKey stk t = begin_key t stk"
| "machine_step WantColon stk t = (if t = TColon then Some (BeginValue, stk) else None)"
| "machine_step (EndValue v) stk t = end_value v t stk"

fun machine :: "mode \<Rightarrow> frame list \<Rightarrow> token list \<Rightarrow> json option" where
  "machine m stk [] = (case m of EndValue v \<Rightarrow> if stk = [] then Some v else None | _ \<Rightarrow> None)"
| "machine m stk (t # ts) = (case machine_step m stk t of None \<Rightarrow> None | Some (m', stk') \<Rightarrow> machine m' stk' ts)"

definition json_parse :: "string \<Rightarrow> json option" where
  "json_parse s = (case tokenize s of None \<Rightarrow> None | Some ts \<Rightarrow> machine BeginValue [] ts)"

section \<open>Writing\<close>

fun commas :: "token list list \<Rightarrow> token list" where
  "commas [] = []"
| "commas [x] = x"
| "commas (x # y # xs) = x @ TComma # commas (y # xs)"

fun tokens_of :: "json \<Rightarrow> token list" where
  "tokens_of JNull = [TNull]"
| "tokens_of (JBool b) = [if b then TTrue else TFalse]"
| "tokens_of (JNum s) = [TNum s]"
| "tokens_of (JStr e s) = [TStr e s]"
| "tokens_of (JArr js) = TOpenArr # commas (map tokens_of js) @ [TCloseArr]"
| "tokens_of (JObj ms) = TOpenObj # commas (map (\<lambda>(k, v). TStr False k # TColon # tokens_of v) ms) @ [TCloseObj]"

fun token_text :: "token \<Rightarrow> string" where
  "token_text TOpenObj = [CHR 0x7B]"
| "token_text TCloseObj = [CHR 0x7D]"
| "token_text TOpenArr = [CHR 0x5B]"
| "token_text TCloseArr = [CHR 0x5D]"
| "token_text TColon = '':''"
| "token_text TComma = '',''"
| "token_text TNull = ''null''"
| "token_text TTrue = ''true''"
| "token_text TFalse = ''false''"
| "token_text (TNum s) = s"
| "token_text (TStr e s) = quote s"

datatype piece = Tok token | Ws string

fun piece_text :: "piece \<Rightarrow> string" where
  "piece_text (Tok t) = token_text t"
| "piece_text (Ws w) = w"

definition newline :: "nat \<Rightarrow> piece" where
  "newline d = Ws (CHR 0x0A # concat (replicate d ''  ''))"

text \<open>The loop of \<^verbatim>\<open>json.Indent\<close> with an empty prefix and two blanks, by token instead of by byte.\<close>

fun indent :: "bool \<Rightarrow> nat \<Rightarrow> token list \<Rightarrow> piece list" where
  "indent need d [] = []"
| "indent need d (t # ts) =
     (let closes = (t = TCloseObj \<or> t = TCloseArr);
          d1 = (if need \<and> \<not> closes then d + 1 else d);
          pre = (if need \<and> \<not> closes then [newline d1] else [])
      in pre @
         (if t = TOpenObj \<or> t = TOpenArr then Tok t # indent True d1 ts
          else if t = TComma then Tok t # newline d1 # indent False d1 ts
          else if t = TColon then Tok t # Ws '' '' # indent False d1 ts
          else if closes then
            (if need then Tok t # indent False d1 ts else newline (d1 - 1) # Tok t # indent False (d1 - 1) ts)
          else Tok t # indent False d1 ts))"

definition json_print :: "json \<Rightarrow> string" where
  "json_print j = concat (map token_text (tokens_of j))"

definition json_print_indent :: "json \<Rightarrow> string" where
  "json_print_indent j = concat (map piece_text (indent False 0 (tokens_of j)))"

section \<open>The machine reads the tokens of a value\<close>

text \<open>
  A string is read as the lexer finds it in its text: sanitized, and with an escape when writing it
  needs one.
\<close>

fun san_token :: "token \<Rightarrow> token" where
  "san_token (TStr e s) = TStr (escapes s) (sanitize s)"
| "san_token t = t"

fun sanitize_json :: "json \<Rightarrow> json" where
  "sanitize_json (JStr e s) = JStr (escapes s) (sanitize s)"
| "sanitize_json (JArr js) = JArr (map sanitize_json js)"
| "sanitize_json (JObj ms) = JObj (map (\<lambda>m. (sanitize (fst m), sanitize_json (snd m))) ms)"
| "sanitize_json j = j"

abbreviation read_tokens :: "json \<Rightarrow> token list" where "read_tokens j \<equiv> map san_token (tokens_of j)"

abbreviation read_member :: "bytes \<times> json \<Rightarrow> bytes \<times> json" where
  "read_member m \<equiv> (sanitize (fst m), sanitize_json (snd m))"

fun height :: "json \<Rightarrow> nat" where
  "height (JArr js) = Suc (foldr (\<lambda>j n. max (height j) n) js 0)"
| "height (JObj ms) = Suc (foldr (\<lambda>m n. max (height (snd m)) n) ms 0)"
| "height _ = 0"

lemma le_foldr_max: "x \<in> set xs \<Longrightarrow> h x \<le> foldr (\<lambda>x n. max (h x) n) xs (0 :: nat)"
  by (induction xs) auto

lemma map_commas: "f TComma = TComma \<Longrightarrow> map f (commas xs) = commas (map (map f) xs)"
  by (induction xs rule: commas.induct) auto

lemma tokens_of_head:
  "\<exists>t ts. read_tokens j = t # ts \<and> t \<noteq> TCloseArr"
  by (cases j) auto

lemma value_or_close: "machine ValueOrClose stk (read_tokens j @ ts) = machine BeginValue stk (read_tokens j @ ts)"
  using tokens_of_head [of j] by auto

lemma commas_Cons: "xs \<noteq> [] \<Longrightarrow> commas (x # xs) = x @ TComma # commas xs"
  by (cases xs) auto

lemma machine_elements:
  assumes "js \<noteq> []"
    and "\<And>j stk ts. j \<in> set js \<Longrightarrow> length stk = n \<Longrightarrow>
      machine BeginValue stk (read_tokens j @ ts) = machine (EndValue (sanitize_json j)) stk ts"
    and "Suc (length stk) = n"
  shows "machine BeginValue (FArr acc # stk) (commas (map read_tokens js) @ TCloseArr # ts)
    = machine (EndValue (JArr (rev acc @ map sanitize_json js))) stk ts"
  using assms
proof (induction js arbitrary: acc)
  case (Cons j js)
  show ?case
  proof (cases "js = []")
    case True
    with Cons.prems(2) [of j "FArr acc # stk"] Cons.prems(3) show ?thesis by (simp add: end_value_def)
  next
    case False
    then have "machine BeginValue (FArr (sanitize_json j # acc) # stk) (commas (map read_tokens js) @ TCloseArr # ts)
        = machine (EndValue (JArr (rev (sanitize_json j # acc) @ map sanitize_json js))) stk ts"
      using Cons.prems by (intro Cons.IH) auto
    with False Cons.prems(2) [of j "FArr acc # stk"] Cons.prems(3) show ?thesis by (simp add: commas_Cons end_value_def)
  qed
qed simp

definition member_tokens :: "bytes \<times> json \<Rightarrow> token list" where
  "member_tokens m = TStr False (fst m) # TColon # tokens_of (snd m)"

abbreviation read_member_tokens :: "bytes \<times> json \<Rightarrow> token list" where
  "read_member_tokens m \<equiv> map san_token (member_tokens m)"

lemma tokens_of_JObj: "tokens_of (JObj ms) = TOpenObj # commas (map member_tokens ms) @ [TCloseObj]"
proof -
  have "(\<lambda>(k, v). TStr False k # TColon # tokens_of v) = member_tokens" by (auto simp: member_tokens_def)
  then show ?thesis by simp
qed

lemma machine_members:
  assumes "ms \<noteq> []"
    and "\<And>m stk ts. m \<in> set ms \<Longrightarrow> length stk = n \<Longrightarrow>
      machine BeginValue stk (read_tokens (snd m) @ ts) = machine (EndValue (sanitize_json (snd m))) stk ts"
    and "Suc (length stk) = n"
  shows "machine BeginKey (FKey acc # stk) (commas (map read_member_tokens ms) @ TCloseObj # ts)
    = machine (EndValue (JObj (rev acc @ map read_member ms))) stk ts"
  using assms
proof (induction ms arbitrary: acc)
  case (Cons m ms)
  show ?case
  proof (cases "ms = []")
    case True
    with Cons.prems(2) [of m "FVal acc (sanitize (fst m)) # stk"] Cons.prems(3) show ?thesis
      by (simp add: end_value_def begin_key_def member_tokens_def)
  next
    case False
    then have "machine BeginKey (FKey (read_member m # acc) # stk) (commas (map read_member_tokens ms) @ TCloseObj # ts)
        = machine (EndValue (JObj (rev (read_member m # acc) @ map read_member ms))) stk ts"
      using Cons.prems by (intro Cons.IH) auto
    with False Cons.prems(2) [of m "FVal acc (sanitize (fst m)) # stk"] Cons.prems(3) show ?thesis
      by (simp add: commas_Cons end_value_def begin_key_def member_tokens_def [of m])
  qed
qed simp

lemma key_or_close:
  assumes "ms \<noteq> []"
  shows "machine KeyOrClose stk (commas (map read_member_tokens ms) @ ts)
    = machine BeginKey stk (commas (map read_member_tokens ms) @ ts)"
proof -
  obtain m ms' where "ms = m # ms'" using assms by (cases ms) auto
  then show ?thesis by (cases ms') (simp_all add: member_tokens_def)
qed

lemma machine_value:
  "height j + length stk \<le> max_nesting \<Longrightarrow>
     machine BeginValue stk (read_tokens j @ ts) = machine (EndValue (sanitize_json j)) stk ts"
proof (induction j arbitrary: stk ts)
  case (JArr js)
  have deep: "length stk < max_nesting" using JArr.prems by simp
  show ?case
  proof (cases "js = []")
    case True
    then show ?thesis using deep by (simp add: begin_value_def)
  next
    case False
    have "machine BeginValue stk' (read_tokens j @ ts') = machine (EndValue (sanitize_json j)) stk' ts'"
      if "j \<in> set js" "length stk' = Suc (length stk)" for j stk' ts'
      using JArr.IH [OF that(1), of stk' ts'] JArr.prems le_foldr_max [OF that(1), of height] that(2) by simp
    from machine_elements [OF False this refl, of stk "[]" ts] False
    have "machine BeginValue (FArr [] # stk) (commas (map read_tokens js) @ TCloseArr # ts)
        = machine (EndValue (sanitize_json (JArr js))) stk ts" by simp
    moreover have "machine ValueOrClose (FArr [] # stk) (commas (map read_tokens js) @ TCloseArr # ts)
        = machine BeginValue (FArr [] # stk) (commas (map read_tokens js) @ TCloseArr # ts)"
    proof -
      obtain j js' where "js = j # js'" using False by (cases js) auto
      then show ?thesis using value_or_close [of "FArr [] # stk" j] by (cases js') simp_all
    qed
    ultimately show ?thesis using deep by (simp add: begin_value_def map_commas comp_def)
  qed
next
  case (JObj ms)
  have deep: "length stk < max_nesting" using JObj.prems by simp
  show ?case
  proof (cases "ms = []")
    case True
    then show ?thesis using deep by (simp add: begin_value_def)
  next
    case False
    have "machine BeginValue stk' (read_tokens (snd m) @ ts') = machine (EndValue (sanitize_json (snd m))) stk' ts'"
      if "m \<in> set ms" "length stk' = Suc (length stk)" for m stk' ts'
    proof (rule JObj.IH [OF that(1)])
      show "snd m \<in> Basic_BNFs.snds m" by (cases m) simp
      show "height (snd m) + length stk' \<le> max_nesting"
        using JObj.prems le_foldr_max [OF that(1), of "\<lambda>m. height (snd m)"] that(2) by simp
    qed
    from machine_members [OF False this refl, of stk "[]" ts]
    have "machine BeginKey (FKey [] # stk) (commas (map read_member_tokens ms) @ TCloseObj # ts)
        = machine (EndValue (sanitize_json (JObj ms))) stk ts" by simp
    with key_or_close [OF False] deep show ?thesis
      by (simp add: tokens_of_JObj begin_value_def map_commas comp_def del: tokens_of.simps(6))
  qed
qed (simp_all add: begin_value_def)

section \<open>The lexer reads the text of tokens\<close>

text \<open>What may follow a number, and the texts that are numbers.\<close>

definition number_end :: "string \<Rightarrow> bool" where
  "number_end u \<longleftrightarrow> (case u of [] \<Rightarrow> True | c # _ \<Rightarrow> \<not> is_digit c \<and> c \<notin> set ''.eE'')"

definition is_number :: "string \<Rightarrow> bool" where
  "is_number s \<longleftrightarrow> (\<exists>c cs. s = c # cs \<and> (c = CHR ''-'' \<or> is_digit c)) \<and>
     (\<forall>u. number_end u \<longrightarrow> lex_number (s @ u) = Some (s, u))"

lemma tokenize_ws: "\<forall>c \<in> set w. is_ws c \<Longrightarrow> tokenize (w @ u) = tokenize u"
  by (induction w) (auto simp: tokenize.simps(2))

definition stop_token :: "token \<Rightarrow> bool" where
  "stop_token t \<longleftrightarrow> t = TComma \<or> t = TCloseArr \<or> t = TCloseObj"

fun token_ok :: "token \<Rightarrow> bool" where
  "token_ok (TNum s) = is_number s"
| "token_ok t = True"

lemma digit_plain: "is_digit c \<Longrightarrow> c \<notin> set [CHR 0x7B, CHR 0x7D, CHR 0x5B, CHR 0x5D, CHR '':'', CHR '','', CHR ''n'',
    CHR ''t'', CHR ''f'', CHR 0x22, CHR 0x20, CHR 0x09, CHR 0x0A, CHR 0x0D]"
  by (auto simp: is_digit_def)

lemma tokenize_token:
  assumes "token_ok t" and "\<And>s. t = TNum s \<Longrightarrow> number_end u"
  shows "tokenize (token_text t @ u) = map_option ((#) (san_token t)) (tokenize u)"
proof (cases t)
  case (TNum s)
  have "is_number s" using assms(1) unfolding TNum token_ok.simps .
  then obtain c cs where s: "s = c # cs" "c = CHR ''-'' \<or> is_digit c" "lex_number (s @ u) = Some (s, u)"
    using assms(2) [OF TNum] unfolding is_number_def by blast
  have "punctuation c = None" "keyword_of c = None" "c \<noteq> CHR 0x22" "\<not> is_ws c"
    using s(2) digit_plain [of c] by (elim disjE; simp add: punctuation_def keyword_of_def is_ws_def)+
  then have "tokenize (s @ u) = map_option ((#) (TNum s)) (tokenize u)"
    using s(2,3) unfolding s(1) by (simp add: tokenize.simps(2) lex_token_def)
  then show ?thesis using TNum by simp
next
  case (TStr e s)
  have "lex_token (CHR 0x22) (quote_body s @ CHR 0x22 # u) = Some (TStr (escapes s) (sanitize s), u)"
    using unquote_quote_body [of s u] by (simp add: lex_token_def punctuation_def keyword_of_def escapes_def)
  then show ?thesis using TStr by (simp add: quote_def tokenize.simps(2) is_ws_def)
qed (simp_all add: tokenize.simps(2) lex_token_def punctuation_def keyword_of_def literal_def has_prefix_def is_ws_def)

text \<open>Pieces that can be told apart: blanks are blanks, and something ends each number.\<close>

fun ends_number :: "piece list \<Rightarrow> bool" where
  "ends_number [] = True"
| "ends_number (Ws w # ps) = True"
| "ends_number (Tok t # ps) = stop_token t"

fun pieces_ok :: "piece list \<Rightarrow> bool" where
  "pieces_ok [] = True"
| "pieces_ok (Ws w # ps) = (w \<noteq> [] \<and> (\<forall>c \<in> set w. is_ws c) \<and> pieces_ok ps)"
| "pieces_ok (Tok t # ps) = (token_ok t \<and> ((\<exists>s. t = TNum s) \<longrightarrow> ends_number ps) \<and> pieces_ok ps)"

fun tokens_in :: "piece list \<Rightarrow> token list" where
  "tokens_in [] = []"
| "tokens_in (Ws w # ps) = tokens_in ps"
| "tokens_in (Tok t # ps) = t # tokens_in ps"

lemma number_end_pieces:
  assumes "pieces_ok ps" and "ends_number ps"
  shows "number_end (concat (map piece_text ps))"
proof (cases ps rule: ends_number.cases)
  case 1
  then show ?thesis by (simp add: number_end_def)
next
  case (2 w ps')
  with assms obtain c cs where "w = c # cs" "is_ws c" by (cases w) auto
  then show ?thesis using 2 by (auto simp: number_end_def is_ws_def is_digit_def)
next
  case (3 t ps')
  then show ?thesis using assms by (auto simp: number_end_def stop_token_def is_digit_def)
qed

lemma tokenize_pieces: "pieces_ok ps \<Longrightarrow> tokenize (concat (map piece_text ps)) = Some (map san_token (tokens_in ps))"
proof (induction ps rule: pieces_ok.induct)
  case (2 w ps)
  then show ?case by (simp add: tokenize_ws)
next
  case (3 t ps)
  have "number_end (concat (map piece_text ps))" if "t = TNum s" for s
    using 3 that by (intro number_end_pieces) auto
  then show ?case using 3 by (simp add: tokenize_token)
qed simp

fun numbers_ok :: "json \<Rightarrow> bool" where
  "numbers_ok (JNum s) = is_number s"
| "numbers_ok (JArr js) = (\<forall>j \<in> set js. numbers_ok j)"
| "numbers_ok (JObj ms) = (\<forall>m \<in> set ms. numbers_ok (snd m))"
| "numbers_ok _ = True"

fun separated :: "token list \<Rightarrow> bool" where
  "separated [] = True"
| "separated (t # ts) = (token_ok t \<and> ((\<exists>s. t = TNum s) \<longrightarrow> ts = [] \<or> stop_token (hd ts)) \<and> separated ts)"

abbreviation stops :: "token list \<Rightarrow> bool" where "stops ts \<equiv> ts = [] \<or> stop_token (hd ts)"

lemma separated_commas:
  assumes "\<And>x ts. x \<in> set xs \<Longrightarrow> separated ts \<Longrightarrow> stops ts \<Longrightarrow> separated (x @ ts)"
    and "separated ts" and "stops ts"
  shows "separated (commas xs @ ts)"
  using assms
proof (induction xs rule: commas.induct)
  case (3 x y xs)
  have "separated (commas (y # xs) @ ts)" by (rule "3.IH") (use 3 in auto)
  then show ?case using "3.prems"(1) [of x "TComma # commas (y # xs) @ ts"] by (simp add: stop_token_def)
qed simp_all

lemma separated_tokens_of: "numbers_ok j \<Longrightarrow> separated ts \<Longrightarrow> stops ts \<Longrightarrow> separated (tokens_of j @ ts)"
proof (induction j arbitrary: ts)
  case (JArr js)
  have "separated (commas (map tokens_of js) @ TCloseArr # ts)"
    by (rule separated_commas) (use JArr in \<open>auto simp: stop_token_def\<close>)
  then show ?case by simp
next
  case (JObj ms)
  have member: "separated (member_tokens m @ ts')" if "m \<in> set ms" "separated ts'" "stops ts'" for m ts'
  proof -
    have "separated (tokens_of (snd m) @ ts')"
    proof (rule JObj.IH [OF that(1)])
      show "snd m \<in> Basic_BNFs.snds m" by (cases m) simp
    qed (use JObj.prems(1) that in auto)
    then show ?thesis by (simp add: member_tokens_def)
  qed
  have "separated (commas (map member_tokens ms) @ TCloseObj # ts)"
    by (rule separated_commas) (use member JObj.prems in \<open>auto simp: stop_token_def\<close>)
  then show ?case unfolding tokens_of_JObj by simp
qed simp_all

lemma pieces_ok_compact: "separated ts \<Longrightarrow> pieces_ok (map Tok ts) \<and> tokens_in (map Tok ts) = ts"
proof (induction ts)
  case (Cons t ts)
  then show ?case by (cases ts) auto
qed simp

lemma newline_ok [simp]: "pieces_ok (newline d # ps) = pieces_ok ps" "tokens_in (newline d # ps) = tokens_in ps"
  "ends_number (newline d # ps)"
  by (auto simp: newline_def is_ws_def)

lemma ends_number_indent: "stops ts \<Longrightarrow> ends_number (indent False d ts)"
  by (cases ts) (auto simp: stop_token_def Let_def)

lemma indent_ok: "separated ts \<Longrightarrow> pieces_ok (indent need d ts) \<and> tokens_in (indent need d ts) = ts"
proof (induction ts arbitrary: need d)
  case (Cons t ts)
  then show ?case using ends_number_indent [of ts] by (auto simp: Let_def is_ws_def)
qed simp

section \<open>The round trips\<close>

lemma parse_of_pieces:
  assumes "pieces_ok ps" and "tokens_in ps = tokens_of j" and "height j \<le> max_nesting"
  shows "json_parse (concat (map piece_text ps)) = Some (sanitize_json j)"
proof -
  have "json_parse (concat (map piece_text ps)) = machine BeginValue [] (read_tokens j @ [])"
    using tokenize_pieces [OF assms(1)] by (simp add: json_parse_def assms(2))
  also have "\<dots> = machine (EndValue (sanitize_json j)) [] []"
    by (rule machine_value) (simp add: assms(3))
  finally show ?thesis by simp
qed

lemma parse_print:
  assumes "numbers_ok j" and "height j \<le> max_nesting"
  shows "json_parse (json_print j) = Some (sanitize_json j)"
proof -
  have "separated (tokens_of j)" using separated_tokens_of [OF assms(1), of "[]"] by simp
  from pieces_ok_compact [OF this] have "pieces_ok (map Tok (tokens_of j))" "tokens_in (map Tok (tokens_of j)) = tokens_of j" by simp_all
  from parse_of_pieces [OF this assms(2)] show ?thesis by (simp add: json_print_def comp_def)
qed

lemma parse_print_indent:
  assumes "numbers_ok j" and "height j \<le> max_nesting"
  shows "json_parse (json_print_indent j) = Some (sanitize_json j)"
proof -
  have "separated (tokens_of j)" using separated_tokens_of [OF assms(1), of "[]"] by simp
  from indent_ok [OF this] show ?thesis
    unfolding json_print_indent_def by (intro parse_of_pieces [OF _ _ assms(2)]) simp_all
qed

text \<open>Decimal integers are numbers.\<close>

lemma is_digit_fmt_nat: "c \<in> set (fmt_nat n) \<Longrightarrow> is_digit c"
proof (induction n rule: fmt_nat.induct)
  case (1 n)
  then show ?case
    by (subst (asm) fmt_nat.simps) (auto simp: is_digit_def of_char_digit split: if_splits)
qed

lemma fmt_nat_zero: "fmt_nat n = CHR ''0'' # cs \<Longrightarrow> n = 0 \<and> cs = []"
proof (induction n arbitrary: cs rule: fmt_nat.induct)
  case (1 n)
  show ?case
  proof (cases "n < 10")
    case True
    with "1.prems" have "digit_char n = CHR ''0'' \<and> cs = []" by (subst (asm) fmt_nat.simps) simp
    then have "48 + n = (of_char (CHR ''0'') :: nat)" using of_char_digit [OF True] by simp
    then show ?thesis using \<open>digit_char n = CHR ''0'' \<and> cs = []\<close> by simp
  next
    case False
    with "1.prems" have "fmt_nat (n div 10) @ [digit_char (n mod 10)] = CHR ''0'' # cs" by (subst (asm) fmt_nat.simps) simp
    then obtain cs' where "fmt_nat (n div 10) = CHR ''0'' # cs'" by (cases "fmt_nat (n div 10)") auto
    with "1.IH" False have "n div 10 = 0" by blast
    with False show ?thesis by simp
  qed
qed

lemma number_end_parts:
  assumes "number_end u"
  shows "digits u = ([], u)" and "frac_part u = Some ([], u)" and "exp_part u = Some ([], u)"
  using assms by (auto simp: number_end_def digits_def frac_part_def exp_part_def split: list.splits)

lemma int_part_fmt_nat: "number_end u \<Longrightarrow> int_part (fmt_nat n @ u) = Some (fmt_nat n, u)"
proof -
  assume u: "number_end u"
  obtain c cs where c: "fmt_nat n = c # cs" by (cases "fmt_nat n") auto
  have ds: "is_digit c" "\<forall>d \<in> set cs. is_digit d" using is_digit_fmt_nat [of _ n] c by simp_all
  have "takeWhile is_digit u = [] \<and> dropWhile is_digit u = u" using number_end_parts(1) [OF u] by (simp add: digits_def)
  then have "digits (cs @ u) = (cs, u)" using ds(2) by (simp add: digits_def)
  then show ?thesis
    using c ds(1) fmt_nat_zero [of n cs] by (cases "c = CHR ''0''") (auto simp: int_part_def)
qed

lemma is_number_fmt_d: "is_number (fmt_d i)"
proof -
  have nat: "lex_number (fmt_nat n @ u) = Some (fmt_nat n, u)" if "number_end u" for n u
  proof -
    obtain c cs where "fmt_nat n = c # cs" "c \<noteq> CHR ''-''" using fmt_nat_no_sign [of _ n] by (cases "fmt_nat n") auto
    then have "opt_char ''-'' (fmt_nat n @ u) = ([], fmt_nat n @ u)" by (simp add: opt_char_def)
    then show ?thesis using int_part_fmt_nat [OF that] number_end_parts [OF that] by (simp add: lex_number_def)
  qed
  have neg: "lex_number (CHR ''-'' # fmt_nat n @ u) = Some (CHR ''-'' # fmt_nat n, u)" if "number_end u" for n u
    using int_part_fmt_nat [OF that] number_end_parts [OF that] by (simp add: lex_number_def opt_char_def)
  have head: "\<exists>c cs. fmt_nat n = c # cs \<and> (c = CHR ''-'' \<or> is_digit c)" for n
    using is_digit_fmt_nat [of _ n] by (cases "fmt_nat n") auto
  show ?thesis
  proof (cases "i < 0")
    case True
    then show ?thesis by (simp add: is_number_def fmt_d_def neg)
  next
    case False
    then show ?thesis using head [of "nat i"] by (simp add: is_number_def fmt_d_def nat)
  qed
qed

end
