(* ===== verification/Base64.thy ===== *)
theory Base64
  imports Prelude
begin

text \<open>
  The standard base64 encoding with padding (\<^verbatim>\<open>encoding/base64\<close>), in which \<^verbatim>\<open>encoding/json\<close> writes
  a byte slice. Reading skips line breaks, wants the padding, and does not look at the unused
  bits of the last digit.
\<close>

definition b64_digit :: "nat \<Rightarrow> char" where
  "b64_digit n = (if n < 26 then char_of (65 + n) else if n < 52 then char_of (71 + n)
     else if n < 62 then char_of (n - 4) else if n = 62 then CHR ''+'' else CHR ''/'')"

definition b64_value :: "char \<Rightarrow> nat option" where
  "b64_value c = (let n = of_char c in
     if 65 \<le> n \<and> n \<le> 90 then Some (n - 65)
     else if 97 \<le> n \<and> n \<le> 122 then Some (n - 71)
     else if 48 \<le> n \<and> n \<le> 57 then Some (n + 4)
     else if c = CHR ''+'' then Some 62 else if c = CHR ''/'' then Some 63 else None)"

fun b64_encode :: "bytes \<Rightarrow> string" where
  "b64_encode [] = []"
| "b64_encode [a] = [b64_digit (of_char a div 4), b64_digit (of_char a mod 4 * 16), CHR ''='', CHR ''='']"
| "b64_encode [a, b] = [b64_digit (of_char a div 4), b64_digit (of_char a mod 4 * 16 + of_char b div 16),
     b64_digit (of_char b mod 16 * 4), CHR ''='']"
| "b64_encode (a # b # c # cs) = b64_digit (of_char a div 4) # b64_digit (of_char a mod 4 * 16 + of_char b div 16)
     # b64_digit (of_char b mod 16 * 4 + of_char c div 64) # b64_digit (of_char c mod 64) # b64_encode cs"

fun b64_groups :: "string \<Rightarrow> bytes option" where
  "b64_groups [] = Some []"
| "b64_groups (a # b # c # d # cs) =
     (case (b64_value a, b64_value b) of
        (Some x, Some y) \<Rightarrow>
          if c = CHR ''='' then (if d = CHR ''='' \<and> cs = [] then Some [char_of (x * 4 + y div 16)] else None)
          else (case b64_value c of
              None \<Rightarrow> None
            | Some z \<Rightarrow>
                if d = CHR ''='' then
                  (if cs = [] then Some [char_of (x * 4 + y div 16), char_of (y mod 16 * 16 + z div 4)] else None)
                else (case b64_value d of
                    None \<Rightarrow> None
                  | Some w \<Rightarrow> map_option (\<lambda>r. char_of (x * 4 + y div 16) # char_of (y mod 16 * 16 + z div 4)
                        # char_of (z mod 4 * 64 + w) # r) (b64_groups cs)))
      | _ \<Rightarrow> None)"
| "b64_groups _ = None"

definition b64_decode :: "string \<Rightarrow> bytes option" where
  "b64_decode s = b64_groups (filter (\<lambda>c. c \<noteq> CHR 0x0A \<and> c \<noteq> CHR 0x0D) s)"

section \<open>The round trip\<close>

lemma of_char_b64_digit: "n < 64 \<Longrightarrow> (of_char (b64_digit n) :: nat) =
    (if n < 26 then 65 + n else if n < 52 then 71 + n else if n < 62 then n - 4 else if n = 62 then 43 else 47)"
  by (simp add: b64_digit_def)

lemma b64_value_digit: "n < 64 \<Longrightarrow> b64_value (b64_digit n) = Some n"
proof -
  assume n: "n < 64"
  consider "n < 26" | "26 \<le> n" "n < 52" | m where "n = m + 4" "48 \<le> m" "m \<le> 57" | "n = 62" | "n = 63"
  proof -
    have "n < 26 \<or> 26 \<le> n \<and> n < 52 \<or> (n = (n - 4) + 4 \<and> 48 \<le> n - 4 \<and> n - 4 \<le> 57) \<or> n = 62 \<or> n = 63" using n by arith
    then show thesis using that by blast
  qed
  then show ?thesis by cases (simp_all add: b64_value_def b64_digit_def Let_def)
qed

lemma b64_digit_plain:
  assumes "n < 64"
  shows "b64_digit n \<noteq> CHR ''=''" and "b64_digit n \<noteq> CHR 0x0A" and "b64_digit n \<noteq> CHR 0x0D"
  using of_char_b64_digit [OF assms] assms by (auto split: if_splits)

lemma sextets:
  fixes a b c :: nat
  assumes "a < 256" and "b < 256" and "c < 256"
  shows "a div 4 < 64" "a mod 4 * 16 < 64" "a mod 4 * 16 + b div 16 < 64" "b mod 16 * 4 < 64"
    "b mod 16 * 4 + c div 64 < 64" "c mod 64 < 64"
  using assms by linarith+

lemma bytes_from_sextets:
  fixes a b c :: nat
  assumes "a < 256" and "b < 256" and "c < 256"
  shows "a div 4 * 4 + a mod 4 * 16 div 16 = a" "a div 4 * 4 + (a mod 4 * 16 + b div 16) div 16 = a"
    "(a mod 4 * 16 + b div 16) mod 16 * 16 + b mod 16 * 4 div 4 = b"
    "(a mod 4 * 16 + b div 16) mod 16 * 16 + (b mod 16 * 4 + c div 64) div 4 = b"
    "(b mod 16 * 4 + c div 64) mod 4 * 64 + c mod 64 = c"
proof -
  have "b div 16 < 16" "c div 64 < 4" using assms by linarith+
  then show "a div 4 * 4 + a mod 4 * 16 div 16 = a" "a div 4 * 4 + (a mod 4 * 16 + b div 16) div 16 = a"
    "(a mod 4 * 16 + b div 16) mod 16 * 16 + b mod 16 * 4 div 4 = b"
    "(a mod 4 * 16 + b div 16) mod 16 * 16 + (b mod 16 * 4 + c div 64) div 4 = b"
    "(b mod 16 * 4 + c div 64) mod 4 * 64 + c mod 64 = c"
    by simp_all
qed

lemma b64_groups_encode: "b64_groups (b64_encode bs) = Some bs"
proof (induction bs rule: b64_encode.induct)
  case 1
  then show ?case by simp
next
  case (2 a)
  note b = nat_of_char_less_256 [of a] nat_of_char_less_256 [of a] nat_of_char_less_256 [of a]
  show ?case using bytes_from_sextets [OF b] by (simp add: b64_value_digit sextets [OF b])
next
  case (3 a b)
  note b = nat_of_char_less_256 [of a] nat_of_char_less_256 [of b] nat_of_char_less_256 [of b]
  show ?case using bytes_from_sextets [OF b] by (simp add: b64_value_digit b64_digit_plain sextets [OF b])
next
  case (4 a b c cs)
  note b = nat_of_char_less_256 [of a] nat_of_char_less_256 [of b] nat_of_char_less_256 [of c]
  show ?case using bytes_from_sextets [OF b] 4 by (simp add: b64_value_digit b64_digit_plain sextets [OF b])
qed

lemma b64_encode_chars: "set (b64_encode bs) \<subseteq> insert (CHR ''='') (b64_digit ` {..<64})"
proof (induction bs rule: b64_encode.induct)
  case (4 a b c cs)
  note b = nat_of_char_less_256 [of a] nat_of_char_less_256 [of b] nat_of_char_less_256 [of c]
  show ?case using 4 by (simp add: sextets [OF b])
next
  case (2 a)
  note b = nat_of_char_less_256 [of a] nat_of_char_less_256 [of a] nat_of_char_less_256 [of a]
  show ?case by (simp add: sextets [OF b])
next
  case (3 a b)
  note b = nat_of_char_less_256 [of a] nat_of_char_less_256 [of b] nat_of_char_less_256 [of b]
  show ?case by (simp add: sextets [OF b])
qed simp

lemma b64_decode_encode [simp]: "b64_decode (b64_encode bs) = Some bs"
proof -
  have "filter (\<lambda>c. c \<noteq> CHR 0x0A \<and> c \<noteq> CHR 0x0D) (b64_encode bs) = b64_encode bs"
  proof (rule filter_True, rule ballI)
    fix c assume "c \<in> set (b64_encode bs)"
    then have "c = CHR ''='' \<or> (\<exists>n < 64. c = b64_digit n)" using b64_encode_chars [of bs] by blast
    then show "c \<noteq> CHR 0x0A \<and> c \<noteq> CHR 0x0D" using b64_digit_plain(2,3) by force
  qed
  then show ?thesis by (simp add: b64_decode_def b64_groups_encode)
qed

text \<open>Base64 text is ASCII.\<close>

lemma b64_encode_ascii: "c \<in> set (b64_encode bs) \<Longrightarrow> (of_char c :: nat) < 128"
proof -
  have "(of_char (b64_digit n) :: nat) < 128" if "n < 64" for n
    using of_char_b64_digit [OF that] that by (auto split: if_splits)
  moreover assume "c \<in> set (b64_encode bs)"
  then have "c = CHR ''='' \<or> (\<exists>n < 64. c = b64_digit n)" using b64_encode_chars [of bs] by blast
  ultimately show ?thesis by (elim disjE exE conjE) simp_all
qed

end
