(* ===== verification/JsonCodec.thy ===== *)
theory JsonCodec
  imports Json Base64
begin

text \<open>
  How \<^verbatim>\<open>json.Unmarshal\<close> fills a Go struct, as far as the structs of the repository need it, and how
  \<^verbatim>\<open>json.Marshal\<close> writes one. A decoder takes the JSON value and the Go value it decodes into: null
  leaves a string, a number or a struct as it is, members are matched by name, first exactly and
  then regardless of case, unknown members are skipped, and of two members for one field the
  later wins. The text of the library's own errors is not modelled. The locale \<open>json_codec\<close> is the
  contract of a pair of encoder and decoder; its lemmas are the round trips through text.
\<close>

section \<open>Scalars\<close>

type_synonym 'v decoder = "json \<Rightarrow> 'v \<Rightarrow> 'v option"

definition dec_string :: "bytes decoder" where
  "dec_string j old = (case j of JStr e s \<Rightarrow> Some s | JNull \<Rightarrow> Some old | _ \<Rightarrow> None)"

text \<open>\<^verbatim>\<open>strconv.ParseInt\<close> and \<^verbatim>\<open>ParseUint\<close> take digits only, no fraction and no exponent.\<close>

definition parse_int :: "string \<Rightarrow> int option" where
  "parse_int lit = (let (sign, ds) = opt_char ''-'' lit; n = int (read_nat 0 ds); i = (if sign = [] then n else - n)
     in if ds \<noteq> [] \<and> list_all is_digit ds \<and> in_int64 i then Some i else None)"

definition parse_uint :: "string \<Rightarrow> 64 word option" where
  "parse_uint lit = (if lit \<noteq> [] \<and> list_all is_digit lit \<and> read_nat 0 lit < 2 ^ 64 then Some (of_nat (read_nat 0 lit)) else None)"

definition dec_int :: "int decoder" where
  "dec_int j old = (case j of JNum lit \<Rightarrow> parse_int lit | JNull \<Rightarrow> Some old | _ \<Rightarrow> None)"

definition dec_uint :: "64 word decoder" where
  "dec_uint j old = (case j of JNum lit \<Rightarrow> parse_uint lit | JNull \<Rightarrow> Some old | _ \<Rightarrow> None)"

definition enc_int :: "int \<Rightarrow> json" where "enc_int i = JNum (fmt_d i)"

definition enc_uint :: "64 word \<Rightarrow> json" where "enc_uint w = JNum (fmt_nat (unat w))"

section \<open>Slices, bytes, maps\<close>

text \<open>Elements are decoded into the elements that are there, then into zero values.\<close>

fun dec_elems :: "'a decoder \<Rightarrow> 'a \<Rightarrow> json list \<Rightarrow> 'a list \<Rightarrow> 'a list option" where
  "dec_elems d zero [] old = Some []"
| "dec_elems d zero (j # js) old =
     (case d j (case old of [] \<Rightarrow> zero | x # _ \<Rightarrow> x) of
        None \<Rightarrow> None
      | Some x \<Rightarrow> map_option ((#) x) (dec_elems d zero js (tl old)))"

definition dec_slice :: "'a decoder \<Rightarrow> 'a \<Rightarrow> 'a list decoder" where
  "dec_slice d zero j old = (case j of JArr js \<Rightarrow> dec_elems d zero js old | JNull \<Rightarrow> Some [] | _ \<Rightarrow> None)"

definition dec_byte :: "char decoder" where
  "dec_byte j old = (case j of
      JNum lit \<Rightarrow> (case parse_uint lit of None \<Rightarrow> None | Some w \<Rightarrow> if w < 256 then Some (char_of (unat w)) else None)
    | JNull \<Rightarrow> Some old | _ \<Rightarrow> None)"

text \<open>A byte slice is base64 text, or an array of numbers.\<close>

definition dec_bytes :: "bytes decoder" where
  "dec_bytes j old = (case j of JStr e s \<Rightarrow> b64_decode s | _ \<Rightarrow> dec_slice dec_byte (CHR 0x00) j old)"

text \<open>A nil slice is written as null; \<open>nil\<close> says whether an empty one is nil.\<close>

definition enc_bytes :: "bool \<Rightarrow> bytes \<Rightarrow> json" where
  "enc_bytes nil b = (if b = [] \<and> nil then JNull else jstr (b64_encode b))"

definition enc_slice :: "bool \<Rightarrow> ('a \<Rightarrow> json) \<Rightarrow> 'a list \<Rightarrow> json" where
  "enc_slice nil e xs = (if xs = [] \<and> nil then JNull else JArr (map e xs))"

text \<open>Every member of a map is decoded into a zero value.\<close>

fun dec_entries :: "(bytes \<times> json) list \<Rightarrow> (string \<rightharpoonup> string) \<Rightarrow> (string \<rightharpoonup> string) option" where
  "dec_entries [] m = Some m"
| "dec_entries ((k, v) # ms) m = (case dec_string v [] of None \<Rightarrow> None | Some s \<Rightarrow> dec_entries ms (m(k \<mapsto> s)))"

definition dec_string_map :: "(string \<rightharpoonup> string) decoder" where
  "dec_string_map j old = (case j of JObj ms \<Rightarrow> dec_entries ms old | JNull \<Rightarrow> Some Map.empty | _ \<Rightarrow> None)"

section \<open>Structs\<close>

text \<open>\<^verbatim>\<open>foldName\<close>: letters in upper case, with the two letters outside ASCII that fold to ASCII.\<close>

definition upper :: "char \<Rightarrow> char" where
  "upper c = (if 97 \<le> code c \<and> code c \<le> 122 then char_of (code c - 32) else c)"

fun fold_name :: "bytes \<Rightarrow> bytes" where
  "fold_name [] = []"
| "fold_name (c # cs) =
     (if c = CHR 0xE2 \<and> has_prefix cs [CHR 0x84, CHR 0xAA] then CHR ''K'' # fold_name (drop 2 cs)
      else if c = CHR 0xC5 \<and> has_prefix cs [CHR 0xBF] then CHR ''S'' # fold_name (drop 1 cs)
      else upper c # fold_name cs)"

type_synonym 'r field_table = "(bytes \<times> 'r decoder) list"

definition find_field :: "'r field_table \<Rightarrow> bytes \<Rightarrow> 'r decoder option" where
  "find_field fs k = (case map_of fs k of
      Some f \<Rightarrow> Some f
    | None \<Rightarrow> map_option snd (find (\<lambda>nf. fold_name (fst nf) = fold_name k) fs))"

definition field :: "'v decoder \<Rightarrow> ('r \<Rightarrow> 'v) \<Rightarrow> (('v \<Rightarrow> 'v) \<Rightarrow> 'r \<Rightarrow> 'r) \<Rightarrow> 'r decoder" where
  "field d get upd j r = map_option (\<lambda>v. upd (\<lambda>_. v) r) (d j (get r))"

fun dec_members :: "'r field_table \<Rightarrow> (bytes \<times> json) list \<Rightarrow> 'r \<Rightarrow> 'r option" where
  "dec_members fs [] r = Some r"
| "dec_members fs ((k, v) # ms) r =
     (case find_field fs k of
        None \<Rightarrow> dec_members fs ms r
      | Some f \<Rightarrow> (case f v r of None \<Rightarrow> None | Some r' \<Rightarrow> dec_members fs ms r'))"

definition dec_struct :: "'r field_table \<Rightarrow> 'r decoder" where
  "dec_struct fs j r = (case j of JObj ms \<Rightarrow> dec_members fs ms r | JNull \<Rightarrow> Some r | _ \<Rightarrow> None)"

definition json_unmarshal :: "'r decoder \<Rightarrow> 'r \<Rightarrow> bytes \<Rightarrow> 'r result" where
  "json_unmarshal d zero text = (case json_parse text of
      None \<Rightarrow> Inl (NewError ''json: syntax error'')
    | Some j \<Rightarrow> (case d j zero of None \<Rightarrow> Inl (NewError ''json: cannot unmarshal'') | Some r \<Rightarrow> Inr r))"

text \<open>A member that is omitted when its value is empty.\<close>

definition omit_empty :: "bytes \<Rightarrow> json \<Rightarrow> 'v list \<Rightarrow> (bytes \<times> json) list" where
  "omit_empty name j v = (if v = [] then [] else [(name, j)])"

section \<open>The contract of a codec\<close>

definition valid_text :: "bytes \<Rightarrow> bool" where "valid_text s \<longleftrightarrow> sanitize s = s"

lemma valid_text_ascii [simp]: "ascii s \<Longrightarrow> valid_text s"
  by (simp add: valid_text_def)

lemma valid_text_sanitize: "valid_text s \<Longrightarrow> sanitize s = s"
  by (simp add: valid_text_def)

locale json_codec =
  fixes enc :: "'a \<Rightarrow> json" and dec :: "'a decoder" and zero :: 'a and good :: "'a \<Rightarrow> bool"
  assumes enc_numbers: "good x \<Longrightarrow> numbers_ok (enc x)"
    and enc_height: "good x \<Longrightarrow> height (enc x) \<le> max_nesting"
    and dec_enc: "good x \<Longrightarrow> dec (sanitize_json (enc x)) zero = Some x"
begin

lemma unmarshal_marshal: "good x \<Longrightarrow> json_unmarshal dec zero (json_print (enc x)) = Inr x"
  by (simp add: json_unmarshal_def parse_print enc_numbers enc_height dec_enc)

lemma unmarshal_marshal_indent: "good x \<Longrightarrow> json_unmarshal dec zero (json_print_indent (enc x)) = Inr x"
  by (simp add: json_unmarshal_def parse_print_indent enc_numbers enc_height dec_enc)

lemma marshal_inj: "good x \<Longrightarrow> good y \<Longrightarrow> json_print (enc x) = json_print (enc y) \<Longrightarrow> x = y"
  by (metis unmarshal_marshal sum.inject(2))

end

section \<open>Scalars and slices go round\<close>

named_theorems codec "encoders and decoders of the fields of a struct"

declare sanitize_json.simps [codec] numbers_ok.simps [codec] height.simps [codec]

lemma list_all_digits_fmt_nat: "list_all is_digit (fmt_nat n)"
  using is_digit_fmt_nat by (auto simp: list_all_iff)

lemma parse_int_fmt_d: "in_int64 i \<Longrightarrow> parse_int (fmt_d i) = Some i"
proof -
  assume i: "in_int64 i"
  have "opt_char ''-'' (fmt_nat n) = ([], fmt_nat n)" for n
    using fmt_nat_no_sign [of _ n] by (cases "fmt_nat n") (auto simp: opt_char_def)
  moreover have "opt_char ''-'' (CHR ''-'' # s) = (''-'', s)" for s by (simp add: opt_char_def)
  ultimately show ?thesis using i
    by (auto simp: parse_int_def fmt_d_def read_fmt_nat list_all_digits_fmt_nat)
qed

lemma parse_uint_fmt_nat: "parse_uint (fmt_nat (unat w)) = Some w"
proof -
  have "unat w < 2 ^ LENGTH(64)" by (rule unsigned_less)
  then show ?thesis by (simp add: parse_uint_def read_fmt_nat list_all_digits_fmt_nat)
qed

lemma is_number_fmt_nat: "is_number (fmt_nat n)"
  using is_number_fmt_d [of "int n"] by (simp add: fmt_d_def)

lemma dec_string_enc [codec]: "valid_text s \<Longrightarrow> dec_string (JStr e (sanitize s)) old = Some s"
  by (simp add: dec_string_def valid_text_def)

lemma dec_int_enc [codec]: "in_int64 i \<Longrightarrow> dec_int (sanitize_json (enc_int i)) old = Some i"
  by (simp add: dec_int_def enc_int_def parse_int_fmt_d)

lemma dec_uint_enc [codec]: "dec_uint (sanitize_json (enc_uint w)) old = Some w"
  by (simp add: dec_uint_def enc_uint_def parse_uint_fmt_nat)

lemma ascii_b64: "ascii (b64_encode b)"
  using b64_encode_ascii by (simp add: ascii_def)

lemma dec_bytes_enc [codec]: "dec_bytes (sanitize_json (enc_bytes nil b)) old = Some b"
  by (simp add: dec_bytes_def enc_bytes_def dec_slice_def ascii_b64)

lemma enc_scalar_ok [codec]:
  "numbers_ok (enc_int i)" "numbers_ok (enc_uint w)" "numbers_ok (enc_bytes nil b)"
  "height (enc_int i) = 0" "height (enc_uint w) = 0" "height (enc_bytes nil b) = 0"
  by (simp_all add: enc_int_def enc_uint_def enc_bytes_def is_number_fmt_d is_number_fmt_nat)

lemma dec_elems_enc:
  assumes "\<And>x old. x \<in> set xs \<Longrightarrow> d (sanitize_json (e x)) old = Some x"
  shows "dec_elems d zero (map (\<lambda>x. sanitize_json (e x)) xs) old = Some xs"
  using assms by (induction xs arbitrary: old) auto

lemma dec_slice_enc:
  assumes "\<And>x old. x \<in> set xs \<Longrightarrow> d (sanitize_json (e x)) old = Some x"
  shows "dec_slice d zero (sanitize_json (enc_slice nil e xs)) old = Some xs"
  using dec_elems_enc [of xs d e zero old] assms by (simp add: dec_slice_def enc_slice_def comp_def)

lemma height_enc_slice: "\<forall>x \<in> set xs. height (e x) \<le> n \<Longrightarrow> height (enc_slice nil e xs) \<le> Suc n"
  by (induction xs) (auto simp: enc_slice_def split: if_splits)

lemma numbers_enc_slice: "\<forall>x \<in> set xs. numbers_ok (e x) \<Longrightarrow> numbers_ok (enc_slice nil e xs)"
  by (simp add: enc_slice_def)

text \<open>A struct decodes member by member.\<close>

declare dec_struct_def [codec] find_field_def [codec] field_def [codec]

end
