(* ===== verification/RaftJson.thy ===== *)
theory RaftJson
  imports JsonCodec RaftPersistence
begin

text \<open>
  The persisted state of a Raft node as the JSON text that \<^verbatim>\<open>persistState\<close> writes and \<^verbatim>\<open>loadState\<close>
  reads: the codec of \<open>raft_deps\<close> made concrete, and with it restarts of a node on the in-memory
  storage without any assumption on storage or codec.
\<close>

section \<open>The codec\<close>

definition log_entry_fields :: "log_entry field_table" where
  "log_entry_fields = [(''index'', field dec_int le_index le_index_update), (''term'', field dec_int le_term le_term_update),
     (''data'', field dec_bytes le_data le_data_update)]"

definition log_entry_zero :: log_entry where "log_entry_zero = \<lparr>le_index = 0, le_term = 0, le_data = []\<rparr>"

definition snapshot_fields :: "snapshot field_table" where
  "snapshot_fields = [(''last_included_index'', field dec_int sn_last_index sn_last_index_update),
     (''last_included_term'', field dec_int sn_last_term sn_last_term_update), (''data'', field dec_bytes sn_data sn_data_update)]"

definition raft_fields :: "raft_persisted field_table" where
  "raft_fields = [(''currentTerm'', field dec_int ps_current_term ps_current_term_update),
     (''votedFor'', field dec_string ps_voted_for ps_voted_for_update),
     (''log'', field (dec_slice (dec_struct log_entry_fields) log_entry_zero) ps_log ps_log_update),
     (''snapshot'', field (dec_struct snapshot_fields) ps_snapshot ps_snapshot_update)]"

definition raft_zero :: raft_persisted where
  "raft_zero = \<lparr>ps_current_term = 0, ps_voted_for = [], ps_log = [], ps_snapshot = \<lparr>sn_last_index = 0, sn_last_term = 0, sn_data = []\<rparr>\<rparr>"

definition raft_unmarshal :: "bytes \<Rightarrow> raft_persisted result" where
  "raft_unmarshal = json_unmarshal (dec_struct raft_fields) raft_zero"

text \<open>
  \<^verbatim>\<open>persistState\<close> marshals a map, whose keys are written in order; the three flags say which empty
  slices are nil: the log, the data of an entry, the data of the snapshot.
\<close>

definition enc_log_entry :: "bool \<Rightarrow> log_entry \<Rightarrow> json" where
  "enc_log_entry nil e = JObj [(''index'', enc_int (le_index e)), (''term'', enc_int (le_term e)), (''data'', enc_bytes nil (le_data e))]"

definition enc_snapshot :: "bool \<Rightarrow> snapshot \<Rightarrow> json" where
  "enc_snapshot nil s = JObj [(''last_included_index'', enc_int (sn_last_index s)), (''last_included_term'', enc_int (sn_last_term s)),
     (''data'', enc_bytes nil (sn_data s))]"

type_synonym nil_flags = "bool \<times> (log_entry \<Rightarrow> bool) \<times> bool"

definition enc_raft :: "nil_flags \<Rightarrow> raft_persisted \<Rightarrow> json" where
  "enc_raft nil ps = JObj [(''currentTerm'', enc_int (ps_current_term ps)),
     (''log'', enc_slice (fst nil) (\<lambda>e. enc_log_entry (fst (snd nil) e) e) (ps_log ps)),
     (''snapshot'', enc_snapshot (snd (snd nil)) (ps_snapshot ps)), (''votedFor'', jstr (ps_voted_for ps))]"

definition raft_marshal :: "nil_flags \<Rightarrow> raft_persisted \<Rightarrow> bytes result" where
  "raft_marshal nil ps = Inr (json_print (enc_raft nil ps))"

definition log_entry_good :: "log_entry \<Rightarrow> bool" where
  "log_entry_good e \<longleftrightarrow> in_int64 (le_index e) \<and> in_int64 (le_term e)"

definition raft_good :: "raft_persisted \<Rightarrow> bool" where
  "raft_good ps \<longleftrightarrow> in_int64 (ps_current_term ps) \<and> valid_text (ps_voted_for ps) \<and> (\<forall>e \<in> set (ps_log ps). log_entry_good e) \<and>
     in_int64 (sn_last_index (ps_snapshot ps)) \<and> in_int64 (sn_last_term (ps_snapshot ps))"

lemma dec_log_entry:
  "log_entry_good e \<Longrightarrow> dec_struct log_entry_fields (sanitize_json (enc_log_entry nil e)) old = Some e"
  by (simp add: enc_log_entry_def log_entry_fields_def log_entry_good_def codec)

lemma dec_snapshot:
  "in_int64 (sn_last_index s) \<Longrightarrow> in_int64 (sn_last_term s) \<Longrightarrow>
     dec_struct snapshot_fields (sanitize_json (enc_snapshot nil s)) old = Some s"
  by (simp add: enc_snapshot_def snapshot_fields_def codec)

lemma enc_log_ok:
  "numbers_ok (enc_slice nl (\<lambda>e. enc_log_entry (nd e) e) es)" "height (enc_slice nl (\<lambda>e. enc_log_entry (nd e) e) es) \<le> 2"
proof -
  have "numbers_ok (enc_log_entry n e)" "height (enc_log_entry n e) = 1" for n e
    by (simp_all add: enc_log_entry_def codec)
  then show "numbers_ok (enc_slice nl (\<lambda>e. enc_log_entry (nd e) e) es)" "height (enc_slice nl (\<lambda>e. enc_log_entry (nd e) e) es) \<le> 2"
    using height_enc_slice [of es "\<lambda>e. enc_log_entry (nd e) e" 1 nl] by (simp_all add: numbers_enc_slice numeral_2_eq_2)
qed

interpretation raft_codec: json_codec "enc_raft nil" "dec_struct raft_fields" raft_zero raft_good for nil
proof
  fix ps assume good: "raft_good ps"
  then have v: "in_int64 (ps_current_term ps)" "valid_text (ps_voted_for ps)" "\<And>e. e \<in> set (ps_log ps) \<Longrightarrow> log_entry_good e"
    "in_int64 (sn_last_index (ps_snapshot ps))" "in_int64 (sn_last_term (ps_snapshot ps))"
    by (simp_all add: raft_good_def)
  obtain nl nd ns where nil: "nil = (nl, nd, ns)" by (metis prod_cases3)
  show "numbers_ok (enc_raft nil ps)" by (simp add: enc_raft_def enc_snapshot_def enc_log_ok codec)
  show "height (enc_raft nil ps) \<le> max_nesting"
    using enc_log_ok(2) [of "fst nil" "fst (snd nil)" "ps_log ps"]
    by (simp add: enc_raft_def enc_snapshot_def codec max_nesting_def)
  have "dec_slice (dec_struct log_entry_fields) log_entry_zero (sanitize_json (enc_slice nl (\<lambda>e. enc_log_entry (nd e) e) (ps_log ps))) old
      = Some (ps_log ps)" for old
    by (rule dec_slice_enc) (simp add: dec_log_entry v(3))
  then show "dec_struct raft_fields (sanitize_json (enc_raft nil ps)) raft_zero = Some ps"
    unfolding dec_struct_def [of raft_fields]
    by (simp add: enc_raft_def nil raft_fields_def raft_zero_def codec v dec_snapshot del: dec_struct_def)
qed

section \<open>Restarts on memory and JSON\<close>

definition json_deps :: "nil_flags \<Rightarrow> memory_storage raft_deps" where
  "json_deps nil = \<lparr>rd_api = memory_api, rd_marshal = raft_marshal nil, rd_unmarshal = raft_unmarshal\<rparr>"

lemma json_deps_laws: "key_value_store (rd_api (json_deps nil))" "accepts_writes (json_deps nil)"
  using mem.key_value_store_axioms by (simp_all add: json_deps_def accepts_writes_def)

lemma json_round_trips: "raft_good ps \<Longrightarrow> round_trips (json_deps nil) ps"
  using raft_codec.unmarshal_marshal [of ps nil] by (simp add: round_trips_def json_deps_def raft_marshal_def raft_unmarshal_def)

text \<open>The operations keep a node's persistent state inside what JSON can carry.\<close>

definition node_good :: "'st raft \<Rightarrow> bool" where "node_good re \<longleftrightarrow> raft_good (persisted_part re)"

lemma node_good_fields:
  "node_good re \<longleftrightarrow> in_int64 (current_term re) \<and> valid_text (voted_for re) \<and> (\<forall>e \<in> set (log re). log_entry_good e) \<and>
     in_int64 (sn_last_index (snap re)) \<and> in_int64 (sn_last_term (snap re))"
  by (simp add: node_good_def raft_good_def persisted_part_def)

text \<open>
  \<open>ready\<close>: a node whose state JSON can carry and that has a storage; \<open>durable\<close>: besides, a restart
  gives the persistent part back.
\<close>

definition ready :: "'st raft \<Rightarrow> bool" where
  "ready re \<longleftrightarrow> node_good re \<and> valid_text (node_id re) \<and> raft_storage re \<noteq> None"

definition durable :: "nil_flags \<Rightarrow> memory_storage raft \<Rightarrow> bool" where
  "durable nil re \<longleftrightarrow> ready re \<and> persisted_part (restart (json_deps nil) re) = persisted_part re"

text \<open>What an operation that forgets nothing does: it ends with its state written, or changed nothing that is written.\<close>

definition written :: "nil_flags \<Rightarrow> memory_storage raft \<Rightarrow> memory_storage raft \<Rightarrow> bool" where
  "written nil re re' \<longleftrightarrow> ready re' \<and>
     (durable nil re' \<or> persisted_part re' = persisted_part re \<and> raft_storage re' = raft_storage re)"

lemma persisted_part_restart_cong:
  "raft_storage a = raft_storage b \<Longrightarrow> persisted_part (restart d a) = persisted_part (restart d b)"
  by (simp add: restart_def new_raft_engine_def load_state_def persisted_part_def split: option.split sum.split)

lemma ready_cong:
  "persisted_part a = persisted_part b \<Longrightarrow> raft_storage a = raft_storage b \<Longrightarrow> node_id a = node_id b \<Longrightarrow> ready a = ready b"
  by (simp add: ready_def node_good_def)

lemma durable_cong:
  assumes "persisted_part a = persisted_part b" and "raft_storage a = raft_storage b" and "node_id a = node_id b"
  shows "durable nil a = durable nil b"
  using assms persisted_part_restart_cong [OF assms(2)] ready_cong [OF assms] by (simp add: durable_def)

lemma written_same:
  "ready re \<Longrightarrow> persisted_part re' = persisted_part re \<Longrightarrow> raft_storage re' = raft_storage re \<Longrightarrow> node_id re' = node_id re
     \<Longrightarrow> written nil re re'"
  using ready_cong [of re' re] by (simp add: written_def)

lemma written_refl: "ready re \<Longrightarrow> written nil re re"
  by (rule written_same) simp_all

lemma written_durable: "durable nil re' \<Longrightarrow> written nil re re'"
  by (simp add: written_def durable_def)

lemma durable_persist:
  assumes "ready re"
  shows "durable nil (persist_state (json_deps nil) re)"
proof -
  obtain st where st: "raft_storage re = Some st" using assms by (auto simp: ready_def)
  have "round_trips (json_deps nil) (persisted_part re)" using assms by (simp add: json_round_trips node_good_def ready_def)
  then have sync: "in_sync (json_deps nil) (persist_state (json_deps nil) re)"
    by (rule key_value_store.in_sync_persist [OF json_deps_laws(1) refl json_deps_laws(2) _ st])
  then have "raft_storage (persist_state (json_deps nil) re) \<noteq> None" by (auto simp: in_sync_def)
  with restart_in_sync(1) [OF sync] assms show ?thesis by (simp add: durable_def ready_def node_good_def)
qed

text \<open>A result that agrees with a state just written is durable.\<close>

lemma written_persist:
  assumes "ready re0" and "persisted_part re' = persisted_part re0"
    and "raft_storage re' = raft_storage (persist_state (json_deps nil) re0)" and "node_id re' = node_id re0"
  shows "written nil re re'"
  using durable_cong [of re' "persist_state (json_deps nil) re0"] durable_persist [OF assms(1)] assms(2-4)
  by (intro written_durable) simp

lemma durable_new: "valid_text nid \<Longrightarrow> durable nil (new_raft_engine (json_deps nil) nid ps (Some new_memory_storage))"
  by (simp add: durable_def ready_def node_good_fields restart_def new_raft_engine_def load_state_def json_deps_def memory_get_def
      new_memory_storage_def persisted_part_def log_entry_good_def int64_numerals)

section \<open>Operations that write\<close>

lemma written_request_vote:
  assumes "ready re" and "in_int64 (rv_term args)" and "valid_text (rv_candidate_id args)"
  shows "written nil re (fst (handle_request_vote (json_deps nil) r args re))"
proof (cases "rv_term args < current_term re")
  case True
  then have "fst (handle_request_vote (json_deps nil) r args re) = re" by (simp add: handle_request_vote_def)
  then show ?thesis using assms(1) by (simp add: written_refl)
next
  case False
  then obtain re0 where re0: "fst (handle_request_vote (json_deps nil) r args re) = persist_state (json_deps nil) re0"
    "raft_storage re0 = raft_storage re" by (rule request_vote_persists)
  have "node_good (persist_state (json_deps nil) re0)" "node_id (persist_state (json_deps nil) re0) = node_id re"
    using assms unfolding re0(1) [symmetric] ready_def by (auto simp: node_good_fields)
  then have "ready re0" using assms(1) by (simp add: ready_def node_good_def re0(2))
  then show ?thesis unfolding re0(1) by (rule written_persist) simp_all
qed

lemma written_start_election:
  assumes "ready re"
  shows "written nil re (fst (start_election (json_deps nil) r re))"
proof -
  let ?re1 = "re\<lparr>role := RoleCandidate, current_term := wrap64 (current_term re + 1), voted_for := node_id re\<rparr>"
  have "ready ?re1" using assms by (simp add: ready_def node_good_fields)
  then show ?thesis by (rule written_persist) (simp_all add: start_election_def Let_def persisted_part_def)
qed

lemma written_propose:
  assumes "ready re"
  shows "written nil re (fst (propose (json_deps nil) data re))"
proof (cases "role re = RoleLeader")
  case True
  let ?re1 = "re\<lparr>log := log re @ [\<lparr>le_index = wrap64 (get_last_log_index re + 1), le_term = current_term re, le_data = data\<rparr>]\<rparr>"
  have "ready ?re1" using assms by (auto simp: ready_def node_good_fields log_entry_good_def)
  then show ?thesis by (rule written_persist) (use True in \<open>simp_all add: propose_def Let_def persisted_part_def\<close>)
next
  case False
  then show ?thesis using assms by (simp add: propose_def written_refl)
qed

lemma written_compact_log:
  assumes "ready re" and "compact_log (json_deps nil) i data re = Return (re', err)" and "in_int64 i"
  shows "written nil re re'"
proof (cases "re' = re")
  case False
  let ?j = "nat (wrap64 (i - sn_last_index (snap re)))"
  let ?re1 = "re\<lparr>snap := \<lparr>sn_last_index = i, sn_last_term = le_term (log re ! ?j), sn_data = data\<rparr>,
    log := \<lparr>le_index = i, le_term = le_term (log re ! ?j), le_data = []\<rparr> # drop (?j + 1) (log re)\<rparr>"
  from assms(2) False have re': "re' = persist_state (json_deps nil) ?re1" and j: "?j < length (log re)"
    by (auto simp: compact_log_def Let_def split: if_splits)
  have "in_int64 (le_term (log re ! ?j))" using assms(1) j nth_mem [OF j] by (auto simp: ready_def node_good_fields log_entry_good_def)
  then have "ready ?re1" using assms(1,3) by (auto simp: ready_def node_good_fields log_entry_good_def dest: in_set_dropD)
  then show ?thesis unfolding re' by (rule written_persist) simp_all
qed (use assms in \<open>simp add: written_refl\<close>)

lemma written_membership:
  assumes "ready re"
  shows "written nil re (fst (propose_membership_change (json_deps nil) change re))"
proof -
  have "fst (propose_membership_change (json_deps nil) change re) = re \<or>
      (\<exists>ps. fst (propose_membership_change (json_deps nil) change re) = persist_state (json_deps nil) (re\<lparr>peers := ps\<rparr>))"
    by (auto simp: propose_membership_change_def Let_def intro: exI [of _ "peers re"])
  moreover have "written nil re (persist_state (json_deps nil) (re\<lparr>peers := ps\<rparr>))" for ps
    by (rule written_persist [of "re\<lparr>peers := ps\<rparr>"]) (use assms in \<open>simp_all add: ready_def node_good_fields\<close>)
  ultimately show ?thesis using written_refl [OF assms] by metis
qed

text \<open>
  \<^verbatim>\<open>HandleAppendEntries\<close> returns on a failed consistency check without \<^verbatim>\<open>persistState\<close>, after it has
  adopted the term and cleared the vote: \<open>forgets_to_write\<close> says when there was something to write.
\<close>

definition forgets_to_write :: "'st raft \<Rightarrow> append_entries_args \<Rightarrow> append_entries_reply \<Rightarrow> bool" where
  "forgets_to_write re args reply \<longleftrightarrow> \<not> ar_success reply \<and>
     (current_term re < ae_term args \<or> current_term re = ae_term args \<and> role re = RoleCandidate)"

lemma written_append_entries:
  assumes "ready re" and "in_int64 (ae_term args)" and "\<forall>e \<in> set (ae_entries args). log_entry_good e"
    and "\<not> forgets_to_write re args (snd (handle_append_entries (json_deps nil) r args re))"
  shows "written nil re (fst (handle_append_entries (json_deps nil) r args re))"
proof (cases "ar_success (snd (handle_append_entries (json_deps nil) r args re))")
  case True
  let ?j = "nat (wrap64 (ae_prev_log_index args - sn_last_index (snap re)))"
  let ?re1 = "(ae_adopt r args re)\<lparr>log := take (?j + 1) (log re) @ ae_entries args\<rparr>"
  have h: "fst (handle_append_entries (json_deps nil) r args re) = advance_commit (ae_leader_commit args) (persist_state (json_deps nil) ?re1)"
    and t: "current_term re \<le> ae_term args"
    using True by (auto simp: handle_append_entries_def ae_adopt_def Let_def split: if_splits)
  have "in_int64 (current_term (ae_adopt r args re))" "valid_text (voted_for (ae_adopt r args re))"
    using assms(1,2) t by (auto simp: ready_def node_good_fields ae_adopt_def)
  then have "ready ?re1"
    using assms(1,3) by (auto simp: ready_def node_good_fields dest: in_set_takeD)
  then show ?thesis unfolding h by (rule written_persist) (simp_all add: persisted_part_def)
next
  case False
  then have "fst (handle_append_entries (json_deps nil) r args re) = re \<or>
      fst (handle_append_entries (json_deps nil) r args re) = reset_election_timeout r re"
    using assms(4) by (auto simp: forgets_to_write_def handle_append_entries_def Let_def split: if_splits)
  moreover have "written nil re (reset_election_timeout r re)"
    using assms(1) by (rule written_same) (simp_all add: persisted_part_def)
  ultimately show ?thesis using written_refl [OF assms(1), of nil] by auto
qed

lemma forgotten_append_entries:
  assumes "ready re" and "in_int64 (ae_term args)" and "forgets_to_write re args (snd (handle_append_entries d r args re))"
  defines "re' \<equiv> fst (handle_append_entries d r args re)"
  shows "ready re' \<and> raft_storage re' = raft_storage re \<and> log re' = log re \<and> snap re' = snap re \<and> current_term re \<le> current_term re'"
proof -
  have h: "re' = ae_adopt r args re"
    using assms(3) by (auto simp: re'_def forgets_to_write_def handle_append_entries_shape)
  have "in_int64 (current_term re')" "valid_text (voted_for re')" "current_term re \<le> current_term re'"
    using assms(1-3) by (auto simp: re'_def ready_def node_good_fields)
  then show ?thesis using assms(1) by (simp add: h ready_def node_good_fields)
qed

section \<open>Every run\<close>

text \<open>Messages with values JSON can carry: Go's integers, and identifiers that are valid UTF-8.\<close>

definition wire_event :: "'st raft_run_state \<Rightarrow> raft_event \<Rightarrow> bool" where
  "wire_event s ev = (case ev of
      EvRequest args r reply \<Rightarrow> valid_text (rv_candidate_id args)
    | EvAppend args r reply \<Rightarrow> (\<forall>e \<in> set (ae_entries args). log_entry_good e)
    | EvCompact i data err \<Rightarrow> in_int64 i
    | _ \<Rightarrow> True)"

definition forgets :: "'st raft_run_state \<Rightarrow> raft_event \<Rightarrow> bool" where
  "forgets s ev = (case ev of EvAppend args r reply \<Rightarrow> forgets_to_write (node s) args reply | _ \<Rightarrow> False)"

lemma write_step:
  assumes "raft_step (json_deps nil) s ev s'" and "wire_event s ev" and "ready (node s)" and "\<not> forgets s ev"
  shows "written nil (node s) (node s')"
  using assms
proof (induction rule: raft_step.induct)
  case (request s args r)
  then show ?case by (simp add: written_request_vote wire_event_def)
next
  case (append_entries s args r)
  then show ?case by (simp add: written_append_entries wire_event_def forgets_def)
next
  case (elect s r)
  then show ?case by (simp add: written_start_election)
next
  case (proposal s data)
  then show ?case by (simp add: written_propose)
next
  case (compact s i data re err)
  then show ?case by (auto simp: wire_event_def intro: written_compact_log)
next
  case (membership s change)
  then show ?case by (simp add: written_membership)
next
  case (start s r)
  from start.prems(2) show ?case by (rule written_same) (simp_all add: persisted_part_def raft_start_def)
next
  case (vote s k)
  from vote.prems(2) show ?case by (rule written_same) (simp_all add: persisted_part_def count_vote_def Let_def)
next
  case (stop s)
  from stop.prems(2) show ?case by (rule written_same) (simp_all add: persisted_part_def raft_stop_def Let_def)
next
  case (timer_fires s t)
  from timer_fires.prems(2) show ?case by (rule written_same) (simp_all add: persisted_part_def)
next
  case (tick s t)
  from tick.prems(2) show ?case by (rule written_same) (simp_all add: persisted_part_def)
next
  case (assign_role s r)
  from assign_role.prems(2) show ?case by (rule written_same) (simp_all add: persisted_part_def set_role_def)
next
  case (deliver s x ch)
  from deliver.prems(2) show ?case by (rule written_same) (simp_all add: persisted_part_def)
next
  case (heartbeat s)
  then show ?case by (simp add: written_refl)
qed (simp_all add: written_refl)

lemma forget_step:
  assumes "raft_step d s ev s'" and "ready (node s)" and "forgets s ev"
  shows "ready (node s') \<and> raft_storage (node s') = raft_storage (node s) \<and> log (node s') = log (node s) \<and>
     snap (node s') = snap (node s) \<and> current_term (node s) \<le> current_term (node s')"
  using assms
proof (induction rule: raft_step.induct)
  case (append_entries s args r)
  then show ?case using forgotten_append_entries [of "node s" args d r] by (simp add: forgets_def)
qed (simp_all add: forgets_def)

text \<open>What every event leaves true: the log and the snapshot are in the storage, and no later term.\<close>

definition log_durable :: "nil_flags \<Rightarrow> memory_storage raft \<Rightarrow> bool" where
  "log_durable nil re \<longleftrightarrow> ready re \<and> log (restart (json_deps nil) re) = log re \<and> snap (restart (json_deps nil) re) = snap re \<and>
     current_term (restart (json_deps nil) re) \<le> current_term re"

lemma durable_log_durable: "durable nil re \<Longrightarrow> log_durable nil re"
  by (simp add: durable_def log_durable_def persisted_part_fields)

lemma log_durable_step:
  assumes "raft_step (json_deps nil) s ev s'" and "wire_event s ev" and "log_durable nil (node s)"
  shows "log_durable nil (node s')"
proof -
  have re: "ready (node s)" using assms(3) by (simp add: log_durable_def)
  show ?thesis
  proof (cases "forgets s ev")
    case True
    from forget_step [OF assms(1) re True] assms(3) persisted_part_restart_cong [of "node s'" "node s" "json_deps nil"]
    show ?thesis by (simp add: log_durable_def persisted_part_fields)
  next
    case False
    from write_step [OF assms(1,2) re False] assms(3) persisted_part_restart_cong [of "node s'" "node s" "json_deps nil"]
    show ?thesis by (auto simp: written_def log_durable_def durable_def persisted_part_fields)
  qed
qed

lemma durable_step:
  assumes "raft_step (json_deps nil) s ev s'" and "wire_event s ev" and "\<not> forgets s ev" and "durable nil (node s)"
  shows "durable nil (node s')"
proof -
  have "ready (node s)" using assms(4) by (simp add: durable_def)
  from write_step [OF assms(1,2) this assms(3)] assms(4) persisted_part_restart_cong [of "node s'" "node s" "json_deps nil"]
  show ?thesis by (auto simp: written_def durable_def)
qed

text \<open>
  C7: What a crash loses, over every interleaving of calls, messages, timer ticks and goroutines
  from a fresh node on the in-memory storage, with the state written as JSON and identifiers that
  are valid UTF-8: a node rebuilt from the storage always has the log and the snapshot of the node
  that stopped, and no later term. It has the same term and the same vote as well, unless a
  message was received on the way that the code forgets to write: an \<^verbatim>\<open>AppendEntries\<close> that failed the
  consistency check after it had moved the term or met a candidate.
\<close>

theorem crash_loses_nothing:
  assumes "raft_run wire_event (json_deps nil) (initial_run (json_deps nil) nid ps (Some new_memory_storage)) evs s"
    and "valid_text nid"
  shows "log (restart (json_deps nil) (node s)) = log (node s) \<and> snap (restart (json_deps nil) (node s)) = snap (node s) \<and>
     current_term (restart (json_deps nil) (node s)) \<le> current_term (node s) \<and>
     (raft_run (\<lambda>t ev. wire_event t ev \<and> \<not> forgets t ev) (json_deps nil)
          (initial_run (json_deps nil) nid ps (Some new_memory_storage)) evs s \<longrightarrow>
        current_term (restart (json_deps nil) (node s)) = current_term (node s) \<and>
        voted_for (restart (json_deps nil) (node s)) = voted_for (node s))"
proof -
  let ?s0 = "initial_run (json_deps nil) nid ps (Some new_memory_storage)"
  have start: "durable nil (node ?s0)" by (simp add: initial_run_def durable_new assms(2))
  have "log_durable nil (node s)"
    by (rule raft_run_invariant [where P = "\<lambda>s. log_durable nil (node s)", OF assms(1) durable_log_durable [OF start]],
        rule log_durable_step)
  moreover have "durable nil (node s)"
    if "raft_run (\<lambda>t ev. wire_event t ev \<and> \<not> forgets t ev) (json_deps nil) ?s0 evs s"
    by (rule raft_run_invariant [where P = "\<lambda>s. durable nil (node s)", OF that start], rule durable_step) auto
  ultimately show ?thesis by (auto simp: log_durable_def durable_def persisted_part_fields)
qed

end
