(* ===== verification/RaftCrash.thy ===== *)
theory RaftCrash
  imports RaftJson
begin

text \<open>
  A node over several lives: \<open>Reboot\<close> ends the process at any moment between two steps and starts a
  new one on the same storage, with a peer list of its own. Everything that is not written is
  lost with the process: the elections that run, the loop, the commit index, the channel.
\<close>

datatype life_event = Ev raft_event | Reboot "string list"

definition reboot :: "'st raft_deps \<Rightarrow> string list \<Rightarrow> 'st raft_run_state \<Rightarrow> 'st raft_run_state" where
  "reboot d ps s = initial_run d (node_id (node s)) ps (raft_storage (node s))"

inductive life_run :: "('st raft_run_state \<Rightarrow> raft_event \<Rightarrow> bool) \<Rightarrow> 'st raft_deps \<Rightarrow>
    'st raft_run_state \<Rightarrow> life_event list \<Rightarrow> 'st raft_run_state \<Rightarrow> bool"
  for g :: "'st raft_run_state \<Rightarrow> raft_event \<Rightarrow> bool" and d :: "'st raft_deps" where
  life_nil: "life_run g d s [] s"
| life_step: "g s ev \<Longrightarrow> raft_step d s ev s' \<Longrightarrow> life_run g d s' evs s'' \<Longrightarrow> life_run g d s (Ev ev # evs) s''"
| life_reboot: "life_run g d (reboot d ps s) evs s'' \<Longrightarrow> life_run g d s (Reboot ps # evs) s''"

inductive_simps life_run_Nil [simp]: "life_run g d s [] s'"
inductive_simps life_run_Ev: "life_run g d s (Ev ev # evs) s''"
inductive_simps life_run_Reboot: "life_run g d s (Reboot ps # evs) s''"

lemma life_run_append: "life_run g d s (xs @ ys) s' \<longleftrightarrow> (\<exists>t. life_run g d s xs t \<and> life_run g d t ys s')"
proof (induction xs arbitrary: s)
  case (Cons x xs)
  then show ?case by (cases x) (auto simp: life_run_Ev life_run_Reboot)
qed simp

section \<open>What the storage carries over\<close>

lemma node_reboot: "node (reboot d ps s) = new_raft_engine d (node_id (node s)) ps (raft_storage (node s))"
  by (simp add: reboot_def initial_run_def)

lemma persisted_part_peers: "persisted_part (new_raft_engine d nid ps st) = persisted_part (new_raft_engine d nid' ps' st)"
  by (simp add: new_raft_engine_def load_state_def persisted_part_def split: option.split sum.split)

lemma raft_storage_new [simp]: "raft_storage (new_raft_engine d nid ps st) = st"
  by (simp add: new_raft_engine_def load_state_def split: option.split sum.split)

lemma reboot_sel [simp]:
  "raft_storage (node (reboot d ps s)) = raft_storage (node s)" "node_id (node (reboot d ps s)) = node_id (node s)"
  "commit_index (node (reboot d ps s)) = 0" "crashed (reboot d ps s) = False"
  by (simp_all add: node_reboot) (simp add: reboot_def initial_run_def)

lemma persisted_part_reboot: "persisted_part (node (reboot d ps s)) = persisted_part (restart d (node s))"
  unfolding node_reboot restart_def by (rule persisted_part_peers)

lemma restart_reboot: "persisted_part (restart d (node (reboot d ps s))) = persisted_part (restart d (node s))"
  by (rule persisted_part_restart_cong) simp

text \<open>The storage of a node holds a state JSON can carry, whatever the running node has become.\<close>

definition stored_good :: "nil_flags \<Rightarrow> memory_storage raft \<Rightarrow> bool" where
  "stored_good nil re \<longleftrightarrow> ready re \<and> node_good (restart (json_deps nil) re)"

lemma durable_stored_good: "durable nil re \<Longrightarrow> stored_good nil re"
  by (simp add: stored_good_def durable_def ready_def node_good_def)

lemma node_good_cong: "persisted_part a = persisted_part b \<Longrightarrow> node_good a = node_good b"
  by (simp add: node_good_def)

lemma stored_good_step:
  assumes "raft_step (json_deps nil) s ev s'" and "wire_event s ev" and "stored_good nil (node s)"
  shows "stored_good nil (node s')"
proof -
  have re: "ready (node s)" using assms(3) by (simp add: stored_good_def)
  have same: "stored_good nil (node s')" if "ready (node s')" and "raft_storage (node s') = raft_storage (node s)"
    using that assms(3) node_good_cong [OF persisted_part_restart_cong [OF that(2)]] by (simp add: stored_good_def)
  show ?thesis
  proof (cases "forgets s ev")
    case True
    from forget_step [OF assms(1) re True] same show ?thesis by blast
  next
    case False
    from write_step [OF assms(1,2) re False] same durable_stored_good [of nil "node s'"] show ?thesis by (auto simp: written_def)
  qed
qed

lemma stored_good_reboot:
  assumes "stored_good nil (node s)"
  shows "stored_good nil (node (reboot (json_deps nil) ps s))"
  using assms node_good_cong [OF persisted_part_reboot [of "json_deps nil" ps s]] node_good_cong [OF restart_reboot [of "json_deps nil" ps s]]
  by (simp add: stored_good_def ready_def)

text \<open>An invariant of steps and of reboots holds at the end of every life.\<close>

lemma life_run_invariant:
  assumes "life_run g d s evs s'" and "P s"
    and "\<And>t ev t'. g t ev \<Longrightarrow> raft_step d t ev t' \<Longrightarrow> P t \<Longrightarrow> P t'" and "\<And>t ps. P t \<Longrightarrow> P (reboot d ps t)"
  shows "P s'"
  using assms by (induction rule: life_run.induct) auto

section \<open>A vote over several lives\<close>

text \<open>
  A node that has voted for \<open>c\<close> in term \<open>T\<close>, whether it runs on or is rebuilt from its storage: it
  is past the term, or still has the vote.
\<close>

definition votes_for :: "int \<Rightarrow> string \<Rightarrow> 'st raft \<Rightarrow> bool" where
  "votes_for T c re \<longleftrightarrow> T \<le> current_term re \<and> (current_term re = T \<longrightarrow> voted_for re = c)"

definition vote_held :: "nil_flags \<Rightarrow> int \<Rightarrow> string \<Rightarrow> memory_storage raft \<Rightarrow> bool" where
  "vote_held nil T c re \<longleftrightarrow> stored_good nil re \<and> votes_for T c re \<and> votes_for T c (restart (json_deps nil) re)"

text \<open>
  The guard of these runs: values JSON can carry, and neither an election that wraps the term nor a
  leader of its own term that speaks to a candidate.
\<close>

definition careful :: "'st raft_run_state \<Rightarrow> raft_event \<Rightarrow> bool" where
  "careful s ev \<longleftrightarrow> keeps_votes s ev \<and> wire_event s ev"

lemma votes_for_cong: "persisted_part a = persisted_part b \<Longrightarrow> votes_for T c a = votes_for T c b"
  by (simp add: votes_for_def persisted_part_fields)

lemma votes_for_kept: "vote_kept a b \<Longrightarrow> votes_for T c a \<Longrightarrow> c \<noteq> [] \<Longrightarrow> votes_for T c b"
  by (auto simp: votes_for_def vote_kept_def)

lemma vote_held_step:
  assumes "raft_step (json_deps nil) s ev s'" and "careful s ev" and "vote_held nil T c (node s)" and "c \<noteq> []"
  shows "vote_held nil T c (node s')"
proof -
  have re: "ready (node s)" and good: "stored_good nil (node s')"
    using assms(1-3) stored_good_step by (auto simp: vote_held_def stored_good_def careful_def)
  have "vote_kept (node s) (node s')"
    by (rule vote_kept_step [OF assms(1)]) (use assms(2) re in \<open>simp_all add: careful_def ready_def node_good_fields\<close>)
  then have run: "votes_for T c (node s')" using assms(3,4) votes_for_kept by (auto simp: vote_held_def)
  have same: ?thesis if "raft_storage (node s') = raft_storage (node s)"
    using assms(3) run good votes_for_cong [OF persisted_part_restart_cong [OF that]] by (simp add: vote_held_def)
  show ?thesis
  proof (cases "forgets s ev")
    case True
    from forget_step [OF assms(1) re True] same show ?thesis by blast
  next
    case False
    have "wire_event s ev" using assms(2) by (simp add: careful_def)
    from write_step [OF assms(1) this re False] show ?thesis
    proof (auto simp: written_def intro: same)
      assume "durable nil (node s')"
      then have "votes_for T c (restart (json_deps nil) (node s'))"
        using run votes_for_cong by (auto simp: durable_def)
      with run good show ?thesis by (simp add: vote_held_def)
    qed
  qed
qed

lemma vote_held_reboot:
  assumes "vote_held nil T c (node s)"
  shows "vote_held nil T c (node (reboot (json_deps nil) ps s))"
  using assms stored_good_reboot votes_for_cong [OF persisted_part_reboot [of "json_deps nil" ps s]]
    votes_for_cong [OF restart_reboot [of "json_deps nil" ps s]]
  by (auto simp: vote_held_def)

lemma granted_vote_held:
  assumes "raft_step (json_deps nil) s (EvRequest a r p) s'" and "wire_event s (EvRequest a r p)"
    and "stored_good nil (node s)" and "vr_granted p"
  shows "vote_held nil (rv_term a) (rv_candidate_id a) (node s')"
proof -
  have re: "ready (node s)" using assms(3) by (simp add: stored_good_def)
  from assms(1) obtain p': "p = snd (handle_request_vote (json_deps nil) r a (node s))"
    and node: "node s' = fst (handle_request_vote (json_deps nil) r a (node s))" and t: "in_int64 (rv_term a)"
    by (auto elim: request_stepE)
  have "vote_granted_when (node s) a" using assms(4) by (simp add: p' handle_request_vote_reply)
  then have "\<not> rv_term a < current_term (node s)" by (simp add: vote_granted_when_def)
  then obtain re0 where re0: "node s' = persist_state (json_deps nil) re0" "raft_storage re0 = raft_storage (node s)"
    unfolding node by (rule request_vote_persists)
  have good: "stored_good nil (node s')" by (rule stored_good_step [OF assms(1-3)])
  then have "ready re0" using re re0 by (auto simp: stored_good_def ready_def node_good_def)
  then have "durable nil (node s')" unfolding re0(1) by (rule durable_persist)
  moreover have "votes_for (rv_term a) (rv_candidate_id a) (node s')"
    using granted_vote_recorded [OF assms(1,4)] by (simp add: votes_for_def)
  ultimately show ?thesis using good votes_for_cong by (auto simp: vote_held_def durable_def)
qed

text \<open>
  C1: One vote per term, over crashes: whatever a node on the in-memory storage goes through between
  two requests of one term, calls, messages that are accepted or refused, ticks, goroutines, any
  number of crashes and restarts with the state read back from its JSON text, it does not grant
  both to different candidates. The conditions: identifiers are valid UTF-8; the first candidate's is
  not empty, the empty text being the code's mark for no vote; no \<^verbatim>\<open>AppendEntries\<close> of its own term
  reaches the node while it is a candidate; and no election wraps the term.
\<close>

theorem one_vote_per_term_over_crashes:
  assumes "life_run careful (json_deps nil) (initial_run (json_deps nil) nid ps (Some new_memory_storage))
       (xs @ Ev (EvRequest a r p) # ys @ Ev (EvRequest b q u) # zs) s'"
    and "valid_text nid" and "vr_granted p" and "vr_granted u" and "rv_term a = rv_term b" and "rv_candidate_id a \<noteq> []"
  shows "rv_candidate_id a = rv_candidate_id b"
proof -
  let ?d = "json_deps nil" and ?T = "rv_term a" and ?c = "rv_candidate_id a"
  from assms(1) obtain s1 s2 s3 s4 where
    runs: "life_run careful ?d (initial_run ?d nid ps (Some new_memory_storage)) xs s1" "life_run careful ?d s2 ys s3" and
    first: "careful s1 (EvRequest a r p)" "raft_step ?d s1 (EvRequest a r p) s2" and
    second: "careful s3 (EvRequest b q u)" "raft_step ?d s3 (EvRequest b q u) s4"
    by (auto simp: life_run_append life_run_Ev)
  have "stored_good nil (node s1)"
    by (rule life_run_invariant [where P = "\<lambda>s. stored_good nil (node s)", OF runs(1)])
      (auto simp: initial_run_def careful_def intro: durable_stored_good durable_new [OF assms(2)] stored_good_reboot
        dest: stored_good_step)
  then have "vote_held nil ?T ?c (node s2)"
    using granted_vote_held [OF first(2) _ _ assms(3)] first(1) by (simp add: careful_def)
  then have "vote_held nil ?T ?c (node s3)"
    using life_run_invariant [where P = "\<lambda>s. vote_held nil ?T ?c (node s)", OF runs(2)] vote_held_step vote_held_reboot assms(6)
    by blast
  then have "vote_held nil ?T ?c (node s4)" by (rule vote_held_step [OF second(2,1) _ assms(6)])
  with granted_vote_recorded [OF second(2) assms(4)] assms(5) show ?thesis by (simp add: vote_held_def votes_for_def)
qed

section \<open>A vote, a crash, and the same vote again\<close>

definition sample_json_run :: "memory_storage raft_run_state" where
  "sample_json_run = initial_run (json_deps (False, \<lambda>_. False, False)) ''n1'' [''n1'', ''n2''] (Some new_memory_storage)"

lemma sample_vote_over_crash:
  defines "d \<equiv> json_deps (False, \<lambda>_. False, False)"
  shows "\<exists>p u s'. life_run careful d sample_json_run
     [Ev (EvRequest (sample_vote 1 ''n2'') 0 p), Reboot [''n1''], Ev (EvRequest (sample_vote 1 ''n2'') 0 u)] s' \<and> vr_granted p \<and> vr_granted u"
proof -
  let ?v = "sample_vote 1 ''n2''"
  let ?s1 = "sample_json_run\<lparr>node := fst (handle_request_vote d 0 ?v (node sample_json_run))\<rparr>"
  let ?s2 = "reboot d [''n1''] ?s1"
  let ?p = "snd (handle_request_vote d 0 ?v (node sample_json_run))" and ?u = "snd (handle_request_vote d 0 ?v (node ?s2))"
  let ?s3 = "?s2\<lparr>node := fst (handle_request_vote d 0 ?v (node ?s2))\<rparr>"
  have c: "\<not> crashed sample_json_run" "\<not> crashed ?s2" by (simp_all add: sample_json_run_def reboot_def initial_run_def)
  have n: "current_term (node sample_json_run) = 0" "voted_for (node sample_json_run) = []"
    "get_last_log_index (node sample_json_run) = 0"
    by (simp_all add: sample_json_run_def initial_run_def new_raft_engine_def load_state_def json_deps_def memory_get_def
        new_memory_storage_def get_last_log_index_def)
  have v: "rv_term ?v = 1" "rv_last_log_index ?v = 0" "rv_candidate_id ?v = ''n2''" by (simp_all add: sample_vote_def)
  have g: "vr_granted ?p" using n v by (simp add: handle_request_vote_reply vote_granted_when_def)
  have first: "raft_step d sample_json_run (EvRequest ?v 0 ?p) ?s1" by (rule raft_step.request; simp add: c v int64_numerals)
  have ok: "careful s (EvRequest ?v 0 reply)" for s :: "memory_storage raft_run_state" and reply
    by (simp add: careful_def keeps_votes_def wire_event_def v)
  have "durable (False, \<lambda>_. False, False) (node sample_json_run)" by (simp add: sample_json_run_def initial_run_def durable_new)
  then have "durable (False, \<lambda>_. False, False) (node ?s1)"
    using durable_step [OF first [unfolded d_def]] ok by (simp add: careful_def d_def forgets_def)
  then have "persisted_part (node ?s2) = persisted_part (node ?s1)"
    using persisted_part_reboot [of d "[''n1'']" ?s1] by (simp add: durable_def d_def)
  then have n2: "current_term (node ?s2) = 1" "voted_for (node ?s2) = ''n2''" "log (node ?s2) = log (node sample_json_run)"
    "snap (node ?s2) = snap (node sample_json_run)"
    using g n v by (simp_all add: persisted_part_fields handle_request_vote_reply)
  then have "get_last_log_index (node ?s2) = 0" using n(3) get_last_log_index_cong by metis
  then have g2: "vr_granted ?u" using n2 v by (simp add: handle_request_vote_reply vote_granted_when_def)
  have second: "raft_step d ?s2 (EvRequest ?v 0 ?u) ?s3" by (rule raft_step.request; simp add: c v int64_numerals)
  have "life_run careful d sample_json_run [Ev (EvRequest ?v 0 ?p), Reboot [''n1''], Ev (EvRequest ?v 0 ?u)] ?s3"
    unfolding life_run_Ev life_run_Reboot life_run_Nil
    by (rule conjI [OF ok], rule exI [of _ ?s1], rule conjI [OF first], rule conjI [OF ok],
        rule exI [of _ ?s3], rule conjI [OF second], rule refl)
  with g g2 show ?thesis by blast
qed

theorem one_vote_per_term_over_crashes_witness:
  "\<exists>p u s'. life_run careful (json_deps (False, \<lambda>_. False, False)) sample_json_run
     [Ev (EvRequest (sample_vote 1 ''n2'') 0 p), Reboot [''n1''], Ev (EvRequest (sample_vote 1 ''n2'') 0 u)] s' \<and> vr_granted p \<and> vr_granted u \<and>
     rv_candidate_id (sample_vote 1 ''n2'') = ''n2''"
proof -
  let ?v = "sample_vote 1 ''n2''"
  obtain p u s' where run: "life_run careful (json_deps (False, \<lambda>_. False, False)) sample_json_run
     [Ev (EvRequest ?v 0 p), Reboot [''n1''], Ev (EvRequest ?v 0 u)] s'" and g: "vr_granted p" "vr_granted u"
    using sample_vote_over_crash by blast
  have "valid_text ''n1''" "rv_candidate_id ?v \<noteq> []" by (simp_all add: sample_vote_def)
  from one_vote_per_term_over_crashes [of "(False, \<lambda>_. False, False)" "''n1''" "[''n1'', ''n2'']" "[]" ?v 0 p "[Reboot [''n1'']]" ?v 0 u "[]" s',
      unfolded sample_json_run_def [symmetric] append.simps, OF run this(1) g refl this(2)]
  show ?thesis using run g by (auto simp: sample_vote_def)
qed

text \<open>The run with one vote, for the theorem on a single life.\<close>

theorem crash_loses_nothing_witness:
  "\<exists>p s. raft_run wire_event (json_deps (False, \<lambda>_. False, False)) sample_json_run [EvRequest (sample_vote 1 ''n2'') 0 p] s \<and>
     voted_for (restart (json_deps (False, \<lambda>_. False, False)) (node s)) = voted_for (node s)"
proof -
  let ?d = "json_deps (False, \<lambda>_. False, False)"
  obtain p u s' where "life_run careful ?d sample_json_run
     [Ev (EvRequest (sample_vote 1 ''n2'') 0 p), Reboot [''n1''], Ev (EvRequest (sample_vote 1 ''n2'') 0 u)] s'"
    using sample_vote_over_crash by blast
  then obtain s where run: "raft_run wire_event ?d sample_json_run [EvRequest (sample_vote 1 ''n2'') 0 p] s"
    by (auto simp: life_run_Ev raft_run_Cons careful_def)
  then have "raft_run (\<lambda>t ev. wire_event t ev \<and> \<not> forgets t ev) ?d sample_json_run [EvRequest (sample_vote 1 ''n2'') 0 p] s"
    by (auto simp: raft_run_Cons forgets_def)
  moreover have "valid_text ''n1''" by simp
  ultimately show ?thesis
    using crash_loses_nothing [OF run [unfolded sample_json_run_def]] run by (auto simp: sample_json_run_def)
qed

section \<open>Panics\<close>

text \<open>Runs in which leaders are orderly and messages have values JSON can carry.\<close>

definition orderly_wire :: "'st raft_run_state \<Rightarrow> raft_event \<Rightarrow> bool" where
  "orderly_wire s ev \<longleftrightarrow> orderly s ev \<and> wire_event s ev"

lemma log_wf_commit_0:
  assumes "log_wf a" and "log b = log a" and "snap b = snap a" and "commit_index b = 0"
  shows "log_wf b"
proof -
  from assms(1) have wf: "log_contiguous a" "log_bounds a" by (simp_all add: log_wf_def)
  then have "0 \<le> get_last_log_index a" by (cases "log a") (auto simp: last_index_contiguous log_bounds_def log_contiguous_def)
  with wf assms(2-4) get_last_log_index_cong [OF assms(2,3)] show ?thesis
    by (simp add: log_wf_def log_contiguous_def log_bounds_def)
qed

lemma log_wf_new:
  assumes "store = None \<or> store = Some new_memory_storage"
  shows "log_wf (new_raft_engine (json_deps nil) nid ps store)"
  using assms by (auto simp: log_wf_def log_contiguous_def log_bounds_def get_last_log_index_def new_raft_engine_def load_state_def
      json_deps_def memory_get_def new_memory_storage_def int64_max_def)

lemma no_storage_step: "raft_step d s ev s' \<Longrightarrow> raft_storage (node s) = None \<Longrightarrow> raft_storage (node s') = None"
proof (induction rule: raft_step.induct)
  case (compact s i data re err)
  then show ?case by (auto simp: compact_log_def Let_def persist_state_def split: if_splits)
next
  case (append_entries s args r)
  then show ?case by (auto simp: handle_append_entries_shape ae_adopt_def persist_state_def)
qed (auto simp: raft_start_def count_vote_def start_election_def handle_request_vote_def propose_def set_role_def raft_stop_def
    propose_membership_change_def persist_state_def Let_def)

lemma log_durable_reboot:
  assumes "log_durable nil (node s)" and "stored_good nil (node s)"
  shows "log_durable nil (node (reboot (json_deps nil) ps s))"
    and "log (node (reboot (json_deps nil) ps s)) = log (node s)" and "snap (node (reboot (json_deps nil) ps s)) = snap (node s)"
  using assms stored_good_reboot [OF assms(2)] persisted_part_reboot [of "json_deps nil" ps s] restart_reboot [of "json_deps nil" ps s]
  by (simp_all add: log_durable_def stored_good_def persisted_part_fields)

text \<open>What holds along such a life: on the storage, or without one.\<close>

definition sound_node :: "nil_flags \<Rightarrow> memory_storage raft_run_state \<Rightarrow> bool" where
  "sound_node nil s \<longleftrightarrow> \<not> crashed s \<and> log_wf (node s) \<and>
     (raft_storage (node s) = None \<or> log_durable nil (node s) \<and> stored_good nil (node s))"

lemma sound_node_step:
  assumes "raft_step (json_deps nil) s ev s'" and "orderly_wire s ev" and "sound_node nil s"
  shows "sound_node nil s'"
  using assms orderly_step [OF assms(1)] no_storage_step [OF assms(1)] log_durable_step [OF assms(1)] stored_good_step [OF assms(1)]
  by (auto simp: sound_node_def orderly_wire_def)

lemma sound_node_reboot:
  assumes "sound_node nil s"
  shows "sound_node nil (reboot (json_deps nil) ps s)"
proof (cases "raft_storage (node s) = None")
  case True
  then have "log_wf (node (reboot (json_deps nil) ps s))" by (simp add: node_reboot log_wf_new)
  with True show ?thesis by (simp add: sound_node_def)
next
  case False
  with assms have s: "log_durable nil (node s)" "stored_good nil (node s)" "log_wf (node s)" by (simp_all add: sound_node_def)
  have "log_wf (node (reboot (json_deps nil) ps s))"
    by (rule log_wf_commit_0 [OF s(3) log_durable_reboot(2,3) [OF s(1,2)]]) simp
  then show ?thesis
    using log_durable_reboot(1) [OF s(1,2)] stored_good_reboot [OF s(2)] by (simp add: sound_node_def)
qed

text \<open>
  C6: A node with no storage, or one on the in-memory storage with its state written as JSON, that
  hears only of orderly leaders never panics, however the calls of \<^verbatim>\<open>CompactLog\<close>, proposals, votes,
  elections, crashes and restarts are interleaved: in every state every entry carries the index of
  its position behind the last snapshot, and the commit index does not pass the end of the log.
  A leader is orderly when the entries of each of its messages are numbered from the index the
  message names, fit in 64-bit indices, and reach the commit index of the node; a proposal finds
  room below the largest index. Identifiers are valid UTF-8.
\<close>

theorem orderly_run_never_panics:
  assumes "life_run orderly_wire (json_deps nil) (initial_run (json_deps nil) nid ps store) evs s"
    and "store = None \<or> store = Some new_memory_storage" and "valid_text nid"
  shows "\<not> crashed s \<and> log (node s) \<noteq> [] \<and>
     (\<forall>i < length (log (node s)). le_index (log (node s) ! i) = sn_last_index (snap (node s)) + int i) \<and>
     commit_index (node s) \<le> get_last_log_index (node s)"
proof -
  let ?s0 = "initial_run (json_deps nil) nid ps store"
  have "log_wf (node ?s0)" unfolding initial_run_def by (simp add: log_wf_new [OF assms(2)])
  moreover have "raft_storage (node ?s0) = None \<or> durable nil (node ?s0)"
    using assms(2) durable_new [OF assms(3), of nil ps] by (auto simp: initial_run_def)
  ultimately have "sound_node nil ?s0"
    using durable_log_durable [of nil] durable_stored_good [of nil] by (auto simp: sound_node_def initial_run_def)
  then have "sound_node nil s"
    using life_run_invariant [where P = "sound_node nil", OF assms(1)] sound_node_step sound_node_reboot by blast
  then show ?thesis by (simp add: sound_node_def log_wf_def log_contiguous_def)
qed

text \<open>A leader by \<^verbatim>\<open>SetRole\<close> that proposes and compacts, and is then rebuilt from its storage.\<close>

lemma propose_compact_life:
  assumes "\<not> crashed s" and "log_wf (node s)" and "get_last_log_index (node s) = 0"
    and "sn_last_index (snap (node s)) = 0" and "length (log (node s)) = 1"
  shows "\<exists>s'. life_run orderly_wire d s
     [Ev (EvSetRole RoleLeader), Ev (EvPropose ''x'' None), Ev (EvCompact 1 ''s'' None), Reboot ps] s'"
proof -
  define re1 where "re1 = set_role RoleLeader (node s)"
  obtain re2 err where p: "propose d ''x'' re1 = (re2, err)" by fastforce
  have n: "log_wf re1" "role re1 = RoleLeader" "sn_last_index (snap re1) + int (length (log re1)) < int64_max"
    "get_last_log_index re1 = 0" "sn_last_index (snap re1) = 0"
    using assms get_last_log_index_cong [of re1 "node s"] by (simp_all add: re1_def int64_max_def)
  from propose_outcome [OF n(1,3), where d = d and data = "''x''"] p n(2,4)
  have re2: "err = None" "log_wf re2" "commit_index re2 = 1" by simp_all
  have "snap re2 = snap re1" using p n(2) by (auto simp: propose_def Let_def)
  with compact_log_outcome [OF re2(2), of 1 d "''s''"] re2(3) n(5)
  obtain re3 where re3: "compact_log d 1 ''s'' re2 = Return (re3, None)" by auto
  let ?s1 = "s\<lparr>node := re1\<rparr>" and ?s2 = "s\<lparr>node := re2\<rparr>" and ?s3 = "s\<lparr>node := re3\<rparr>"
  have "raft_step d s (EvSetRole RoleLeader) ?s1" unfolding re1_def by (rule raft_step.assign_role) fact
  moreover have "raft_step d ?s1 (EvPropose ''x'' None) ?s2"
    using raft_step.proposal [of ?s1 d "''x''"] assms(1) p re2(1) by simp
  moreover have "raft_step d ?s2 (EvCompact 1 ''s'' None) ?s3"
    using raft_step.compact [of ?s2 d 1 "''s''" re3 None] assms(1) re3 by simp
  moreover have "orderly_wire s (EvSetRole RoleLeader)" "orderly_wire ?s1 (EvPropose ''x'' None)"
    "orderly_wire ?s2 (EvCompact 1 ''s'' None)"
    using n(3) by (simp_all add: orderly_wire_def orderly_def wire_event_def int64_numerals)
  ultimately show ?thesis unfolding life_run_Ev life_run_Reboot life_run_Nil by blast
qed

theorem orderly_run_never_panics_witness:
  "\<exists>s. life_run orderly_wire (json_deps (False, \<lambda>_. False, False)) sample_json_run
     [Ev (EvSetRole RoleLeader), Ev (EvPropose ''x'' None), Ev (EvCompact 1 ''s'' None), Reboot [''n1'']] s \<and> \<not> crashed s"
proof -
  let ?d = "json_deps (False, \<lambda>_. False, False)"
  have "\<not> crashed sample_json_run" "log_wf (node sample_json_run)"
    by (simp_all add: sample_json_run_def initial_run_def log_wf_new)
  moreover have "get_last_log_index (node sample_json_run) = 0" "sn_last_index (snap (node sample_json_run)) = 0"
    "length (log (node sample_json_run)) = 1"
    by (simp_all add: sample_json_run_def initial_run_def new_raft_engine_def load_state_def json_deps_def memory_get_def
        new_memory_storage_def get_last_log_index_def)
  ultimately obtain s where run: "life_run orderly_wire ?d sample_json_run
     [Ev (EvSetRole RoleLeader), Ev (EvPropose ''x'' None), Ev (EvCompact 1 ''s'' None), Reboot [''n1'']] s"
    using propose_compact_life by blast
  have "Some new_memory_storage = None \<or> Some new_memory_storage = Some new_memory_storage" "valid_text ''n1''" by simp_all
  from orderly_run_never_panics [OF run [unfolded sample_json_run_def] this] run show ?thesis by blast
qed

end
