(* ===== verification/ChannelConsensus.thy ===== *)
theory ChannelConsensus
  imports Blocks
begin

text \<open>
  The three consensus engines that are a commit channel: proof of work
  (\<^verbatim>\<open>modules/consensus/pow.go\<close>), the mock (\<^verbatim>\<open>mock.go\<close>) and the static-leader Raft (\<^verbatim>\<open>raft.go\<close>).
  A call of \<^verbatim>\<open>Propose\<close> that has to wait for room is the value \<open>None\<close>; in a \<^verbatim>\<open>select\<close> with two
  ready cases Go picks either, so the pick is part of the call's environment.
\<close>

section \<open>The contract of a commit channel\<close>

datatype 'e channel_event = Offer 'e bytes | Receive

text \<open>Runs offers and receives; returns the state, the data accepted and the data received.\<close>

fun channel_run :: "('e \<Rightarrow> 's \<Rightarrow> bytes \<Rightarrow> ('s \<times> go_error option) option) \<Rightarrow> ('s \<Rightarrow> (bytes \<times> 's) option) \<Rightarrow>
    's \<Rightarrow> 'e channel_event list \<Rightarrow> 's \<times> bytes list \<times> bytes list" where
  "channel_run offer take_one s [] = (s, [], [])"
| "channel_run offer take_one s (Offer e d # evs) =
     (case offer e s d of
        Some (s', None) \<Rightarrow> (case channel_run offer take_one s' evs of (s'', acc, got) \<Rightarrow> (s'', d # acc, got))
      | _ \<Rightarrow> channel_run offer take_one s evs)"
| "channel_run offer take_one s (Receive # evs) =
     (case take_one s of
        Some (x, s') \<Rightarrow> (case channel_run offer take_one s' evs of (s'', acc, got) \<Rightarrow> (s'', acc, x # got))
      | None \<Rightarrow> channel_run offer take_one s evs)"

locale commit_channel =
  fixes offer :: "'e \<Rightarrow> 's \<Rightarrow> bytes \<Rightarrow> ('s \<times> go_error option) option"
    and take_one :: "'s \<Rightarrow> (bytes \<times> 's) option"
    and queued :: "'s \<Rightarrow> bytes list"
  assumes accepted: "offer e s d = Some (s', None) \<Longrightarrow> queued s' = queued s @ [d]"
    and refused: "offer e s d = Some (s', Some err) \<Longrightarrow> s' = s"
    and taken: "take_one s = Some (x, s') \<Longrightarrow> queued s = x # queued s'"
begin

lemma first_in_first_out:
  "channel_run offer take_one s evs = (s', acc, got) \<Longrightarrow> got @ queued s' = queued s @ acc"
proof (induction evs arbitrary: s s' acc got)
  case Nil
  then show ?case by simp
next
  case (Cons ev evs)
  show ?case
  proof (cases ev)
    case (Offer e d)
    show ?thesis
    proof (cases "\<exists>s1. offer e s d = Some (s1, None)")
      case True
      then obtain s1 where s1: "offer e s d = Some (s1, None)" by blast
      obtain s2 acc2 got2 where run: "channel_run offer take_one s1 evs = (s2, acc2, got2)" by (metis prod_cases3)
      with Cons.prems Offer s1 have "s' = s2" "acc = d # acc2" "got = got2" by simp_all
      then show ?thesis using Cons.IH [OF run] accepted [OF s1] by simp
    next
      case False
      then have "channel_run offer take_one s evs = (s', acc, got)"
        using Cons.prems Offer by (auto split: option.splits)
      then show ?thesis by (rule Cons.IH)
    qed
  next
    case Receive
    show ?thesis
    proof (cases "take_one s")
      case None
      then show ?thesis using Cons Receive by simp
    next
      case (Some p)
      then obtain x s1 where s1: "take_one s = Some (x, s1)" by (cases p) simp
      obtain s2 acc2 got2 where run: "channel_run offer take_one s1 evs = (s2, acc2, got2)" by (metis prod_cases3)
      with Cons.prems Receive s1 have "s' = s2" "acc = acc2" "got = x # got2" by simp_all
      then show ?thesis using Cons.IH [OF run] taken [OF s1] by simp
    qed
  qed
qed

end

section \<open>The engines\<close>

text \<open>\<^verbatim>\<open>select { case ch <- x: return nil; case <-ctx.Done(): return ctx.Err() }\<close>.\<close>

definition select_send :: "go_error option \<times> bool \<Rightarrow> bytes chan \<Rightarrow> bytes \<Rightarrow> (bytes chan \<times> go_error option) option" where
  "select_send env ch x = (let (ctx_done, pick_send) = env; room = length (chan_buf ch) < chan_cap ch
     in case ctx_done of
          None \<Rightarrow> (if room then Some (try_send ch x, None) else None)
        | Some err \<Rightarrow> (if room \<and> pick_send then Some (try_send ch x, None) else Some (ch, Some err)))"

record pow_consensus =
  pow_difficulty :: int
  pow_chan :: "bytes chan"

definition new_pow_consensus :: "int \<Rightarrow> pow_consensus" where
  "new_pow_consensus difficulty = \<lparr>pow_difficulty = difficulty, pow_chan = make_chan 100\<rparr>"

definition pow_propose :: "go_error option \<times> bool \<Rightarrow> pow_consensus \<Rightarrow> bytes \<Rightarrow> (pow_consensus \<times> go_error option) option" where
  "pow_propose env pow data = map_option (\<lambda>(ch, err). (pow\<lparr>pow_chan := ch\<rparr>, err)) (select_send env (pow_chan pow) data)"

definition pow_commit :: "pow_consensus \<Rightarrow> (bytes \<times> pow_consensus) option" where
  "pow_commit pow = map_option (\<lambda>(x, ch). (x, pow\<lparr>pow_chan := ch\<rparr>)) (recv (pow_chan pow))"

record mock_consensus =
  mock_chan :: "bytes chan"

definition new_mock_consensus :: mock_consensus where
  "new_mock_consensus = \<lparr>mock_chan = make_chan 100\<rparr>"

definition mock_propose :: "unit \<Rightarrow> mock_consensus \<Rightarrow> bytes \<Rightarrow> (mock_consensus \<times> go_error option) option" where
  "mock_propose env m data = (if length (chan_buf (mock_chan m)) < chan_cap (mock_chan m)
     then Some (m\<lparr>mock_chan := try_send (mock_chan m) data\<rparr>, None) else None)"

definition mock_commit :: "mock_consensus \<Rightarrow> (bytes \<times> mock_consensus) option" where
  "mock_commit m = map_option (\<lambda>(x, ch). (x, m\<lparr>mock_chan := ch\<rparr>)) (recv (mock_chan m))"

record raft_consensus =
  rc_node_id :: string
  rc_chan :: "bytes chan"
  rc_is_leader :: bool

definition new_raft_consensus :: "string \<Rightarrow> bool \<Rightarrow> raft_consensus" where
  "new_raft_consensus nid leader = \<lparr>rc_node_id = nid, rc_chan = make_chan 1000, rc_is_leader = leader\<rparr>"

definition rc_propose :: "go_error option \<times> bool \<Rightarrow> raft_consensus \<Rightarrow> bytes \<Rightarrow> (raft_consensus \<times> go_error option) option" where
  "rc_propose env r data =
     (if \<not> rc_is_leader r then Some (r, Some (NewError (''node '' @ rc_node_id r @ '' is not the Raft leader'')))
      else map_option (\<lambda>(ch, err). (r\<lparr>rc_chan := ch\<rparr>, err)) (select_send env (rc_chan r) data))"

definition rc_commit :: "raft_consensus \<Rightarrow> (bytes \<times> raft_consensus) option" where
  "rc_commit r = map_option (\<lambda>(x, ch). (x, r\<lparr>rc_chan := ch\<rparr>)) (recv (rc_chan r))"

definition rc_set_leader :: "bool \<Rightarrow> raft_consensus \<Rightarrow> raft_consensus" where
  "rc_set_leader leader r = r\<lparr>rc_is_leader := leader\<rparr>"

lemma select_send_cases:
  "select_send env ch x = Some (ch', None) \<Longrightarrow> chan_buf ch' = chan_buf ch @ [x]"
  "select_send env ch x = Some (ch', Some err) \<Longrightarrow> ch' = ch"
  by (auto simp: select_send_def try_send_def Let_def split: prod.splits option.splits if_splits)

lemma recv_buf: "recv ch = Some (x, ch') \<Longrightarrow> chan_buf ch = x # chan_buf ch'"
  by (auto simp: recv_def split: list.splits)

interpretation pow: commit_channel pow_propose pow_commit "\<lambda>p. chan_buf (pow_chan p)"
  by unfold_locales (auto simp: pow_propose_def pow_commit_def select_send_cases recv_buf)

interpretation mock: commit_channel mock_propose mock_commit "\<lambda>m. chan_buf (mock_chan m)"
  by unfold_locales (auto simp: mock_propose_def mock_commit_def try_send_def recv_buf split: if_splits)

interpretation rc: commit_channel rc_propose rc_commit "\<lambda>r. chan_buf (rc_chan r)"
  by unfold_locales (auto simp: rc_propose_def rc_commit_def select_send_cases recv_buf split: if_splits)

text \<open>
  C28: The channel engines lose, duplicate and reorder nothing: after any interleaving of proposals
  and receives from a new engine, what was received followed by what is still queued is what the
  successful proposals carried, in their order. (The Raft engine differs: it drops data when its
  channel is full.)
\<close>

theorem channel_consensus_is_fifo:
  "(case channel_run pow_propose pow_commit (new_pow_consensus k) evs of (s, acc, got) \<Rightarrow> got @ chan_buf (pow_chan s) = acc) \<and>
   (case channel_run mock_propose mock_commit new_mock_consensus mevs of (s, acc, got) \<Rightarrow> got @ chan_buf (mock_chan s) = acc) \<and>
   (case channel_run rc_propose rc_commit (new_raft_consensus nid leader) evs of (s, acc, got) \<Rightarrow> got @ chan_buf (rc_chan s) = acc)"
  using pow.first_in_first_out [of "new_pow_consensus k" evs] mock.first_in_first_out [of new_mock_consensus mevs]
    rc.first_in_first_out [of "new_raft_consensus nid leader" evs]
  by (auto simp: new_pow_consensus_def new_mock_consensus_def new_raft_consensus_def)

end
