(* ===== verification/Registries.thy ===== *)
theory Registries
  imports Prelude
begin

text \<open>
  The tables in which the first registration of a name wins: the service registry of
  \<^verbatim>\<open>core/runtime/registry.go\<close>, the plugin manager of \<^verbatim>\<open>sdk/plugin/plugin.go\<close> and the asset ledger
  of \<^verbatim>\<open>plugins/rwa/ledger.go\<close>. The locale \<open>first_wins\<close> is their common contract.
\<close>

section \<open>The contract\<close>

fun register_all :: "('s \<Rightarrow> 'r \<Rightarrow> 's \<times> go_error option) \<Rightarrow> 's \<Rightarrow> 'r list \<Rightarrow> 's" where
  "register_all reg s [] = s"
| "register_all reg s (r # rs) = register_all reg (fst (reg s r)) rs"

locale first_wins =
  fixes register :: "'s \<Rightarrow> 'r \<Rightarrow> 's \<times> go_error option"
    and lookup :: "'s \<Rightarrow> 'k \<rightharpoonup> 'v"
    and key_of :: "'r \<Rightarrow> 'k"
    and value_of :: "'r \<Rightarrow> 'v"
  assumes register_new: "lookup s (key_of r) = None \<Longrightarrow>
      snd (register s r) = None \<and> lookup (fst (register s r)) = (lookup s)(key_of r \<mapsto> value_of r)"
    and register_taken: "lookup s (key_of r) = Some w \<Longrightarrow> fst (register s r) = s \<and> snd (register s r) \<noteq> None"
begin

lemma lookup_register:
  "lookup (fst (register s r)) =
     (case lookup s (key_of r) of None \<Rightarrow> (lookup s)(key_of r \<mapsto> value_of r) | Some _ \<Rightarrow> lookup s)"
  by (cases "lookup s (key_of r)") (simp_all add: register_new register_taken)

lemma lookup_register_all:
  "lookup (register_all register s rs) k =
     (case lookup s k of Some v \<Rightarrow> Some v | None \<Rightarrow> map_option value_of (find (\<lambda>r. key_of r = k) rs))"
proof (induction rs arbitrary: s)
  case Nil
  then show ?case by (simp split: option.split)
next
  case (Cons r rs)
  show ?case using Cons.IH [of "fst (register s r)"] by (auto simp: lookup_register split: option.splits)
qed

lemma registered_stays: "lookup s k = Some v \<Longrightarrow> lookup (register_all register s rs) k = Some v"
  by (simp add: lookup_register_all)

lemma register_fails_iff: "snd (register s r) \<noteq> None \<longleftrightarrow> lookup s (key_of r) \<noteq> None"
  using register_new register_taken by (cases "lookup s (key_of r)") auto

end

section \<open>Services\<close>

text \<open>A service: its name, and its methods as functions on the state of the world outside.\<close>

record 'w service =
  svc_name :: string
  svc_init :: "'w \<Rightarrow> 'w \<times> go_error option"
  svc_start :: "'w \<Rightarrow> 'w \<times> go_error option"
  svc_stop :: "'w \<Rightarrow> 'w \<times> go_error option"
  svc_health :: "'w \<Rightarrow> go_error option"

record 'w service_registry =
  services :: "string \<rightharpoonup> 'w service"

definition new_service_registry :: "'w service_registry" where
  "new_service_registry = \<lparr>services = Map.empty\<rparr>"

definition register_service :: "'w service_registry \<Rightarrow> 'w service \<Rightarrow> 'w service_registry \<times> go_error option" where
  "register_service r svc =
     (if services r (svc_name svc) \<noteq> None
      then (r, Some (NewError (''service already registered: '' @ svc_name svc)))
      else (r\<lparr>services := (services r)(svc_name svc \<mapsto> svc)\<rparr>, None))"

definition get_service :: "'w service_registry \<Rightarrow> string \<Rightarrow> 'w service option" where
  "get_service r name = services r name"

definition health_check_all :: "'w \<Rightarrow> 'w service_registry \<Rightarrow> (string \<rightharpoonup> go_error option)" where
  "health_check_all w r = (\<lambda>name. map_option (\<lambda>svc. svc_health svc w) (services r name))"

interpretation registry: first_wins register_service get_service svc_name "\<lambda>svc. svc"
  by unfold_locales (auto simp: register_service_def get_service_def fun_eq_iff)

section \<open>Plugins\<close>

record 'st plugin =
  pl_name :: string
  pl_version :: string
  pl_init :: "'st \<Rightarrow> 'st \<times> go_error option"

record 'st plugin_manager =
  plugins :: "string \<rightharpoonup> 'st plugin"

definition new_plugin_manager :: "'st plugin_manager" where
  "new_plugin_manager = \<lparr>plugins = Map.empty\<rparr>"

definition register_plugin :: "'st plugin_manager \<Rightarrow> 'st plugin \<Rightarrow> 'st plugin_manager \<times> go_error option" where
  "register_plugin pm p =
     (if plugins pm (pl_name p) \<noteq> None
      then (pm, Some (NewError (''plugin '' @ pl_name p @ '' already registered'')))
      else (pm\<lparr>plugins := (plugins pm)(pl_name p \<mapsto> p)\<rparr>, None))"

definition get_plugin :: "'st plugin_manager \<Rightarrow> string \<Rightarrow> 'st plugin option" where
  "get_plugin pm name = plugins pm name"

interpretation plugin: first_wins register_plugin get_plugin pl_name "\<lambda>p. p"
  by unfold_locales (auto simp: register_plugin_def get_plugin_def fun_eq_iff)

section \<open>The asset ledger\<close>

record rwa_state_transition =
  rwa_asset_id :: string
  rwa_total_shares :: "64 word"
  rwa_issuer :: string

record ledger =
  assets :: "string \<rightharpoonup> 64 word"

definition new_ledger :: ledger where
  "new_ledger = \<lparr>assets = Map.empty\<rparr>"

definition ledger_execute :: "(bytes \<Rightarrow> rwa_state_transition result) \<Rightarrow> ledger \<Rightarrow> bytes \<Rightarrow> ledger \<times> go_error option" where
  "ledger_execute unmarshal l payload =
     (case unmarshal payload of
        Inl _ \<Rightarrow> (l, Some (NewError ''RWA_FAULT: Invalid payload serialization''))
      | Inr transition \<Rightarrow>
          if assets l (rwa_asset_id transition) \<noteq> None
          then (l, Some (NewError ''RWA_FAULT: Asset ID already registered in sovereign ledger''))
          else (l\<lparr>assets := (assets l)(rwa_asset_id transition \<mapsto> rwa_total_shares transition)\<rparr>, None))"

text \<open>A ledger is a first-wins table for the transitions its payloads decode to.\<close>

definition ledger_register :: "ledger \<Rightarrow> rwa_state_transition \<Rightarrow> ledger \<times> go_error option" where
  "ledger_register l t = ledger_execute (\<lambda>_. Inr t) l []"

interpretation rwa: first_wins ledger_register assets rwa_asset_id rwa_total_shares
  by unfold_locales (auto simp: ledger_register_def ledger_execute_def fun_eq_iff)

lemma ledger_execute_decoded:
  "unmarshal payload = Inr t \<Longrightarrow> ledger_execute unmarshal l payload = ledger_register l t"
  by (simp add: ledger_register_def ledger_execute_def)

lemma ledger_execute_undecoded:
  "unmarshal payload = Inl e \<Longrightarrow> fst (ledger_execute unmarshal l payload) = l"
  by (simp add: ledger_execute_def)

definition decoded_transitions :: "(bytes \<Rightarrow> rwa_state_transition result) \<Rightarrow> bytes list \<Rightarrow> rwa_state_transition list" where
  "decoded_transitions unmarshal ps = concat (map (\<lambda>p. case unmarshal p of Inl _ \<Rightarrow> [] | Inr t \<Rightarrow> [t]) ps)"

lemma ledger_run:
  "register_all (ledger_execute unmarshal) l ps = register_all ledger_register l (decoded_transitions unmarshal ps)"
proof (induction ps arbitrary: l)
  case Nil
  then show ?case by (simp add: decoded_transitions_def)
next
  case (Cons p ps)
  then show ?case
    by (cases "unmarshal p")
       (simp_all add: ledger_execute_decoded ledger_execute_undecoded decoded_transitions_def)
qed

text \<open>
  An asset is issued once: after any run of payloads the ledger holds for an asset the share
  count of the first payload that decodes to it, and payloads that do not decode or name a known
  asset change nothing; a payload fails exactly in these two cases.
\<close>

theorem ledger_issues_assets_once:
  "assets (register_all (ledger_execute unmarshal) new_ledger ps) a =
     map_option rwa_total_shares (find (\<lambda>t. rwa_asset_id t = a) (decoded_transitions unmarshal ps)) \<and>
   (snd (ledger_execute unmarshal l p) \<noteq> None \<longleftrightarrow>
     (case unmarshal p of Inl _ \<Rightarrow> True | Inr t \<Rightarrow> assets l (rwa_asset_id t) \<noteq> None))"
proof
  show "assets (register_all (ledger_execute unmarshal) new_ledger ps) a =
      map_option rwa_total_shares (find (\<lambda>t. rwa_asset_id t = a) (decoded_transitions unmarshal ps))"
    by (simp add: ledger_run rwa.lookup_register_all) (simp add: new_ledger_def)
  show "snd (ledger_execute unmarshal l p) \<noteq> None \<longleftrightarrow>
      (case unmarshal p of Inl _ \<Rightarrow> True | Inr t \<Rightarrow> assets l (rwa_asset_id t) \<noteq> None)"
    using rwa.register_fails_iff by (cases "unmarshal p") (auto simp: ledger_execute_decoded ledger_execute_def)
qed

text \<open>
  The registry answers with the first service registered under a name, whatever is registered
  later, and the plugin manager likewise with the first plugin.
\<close>

theorem first_registration_wins:
  "get_service (register_all register_service new_service_registry svcs) name = find (\<lambda>s. svc_name s = name) svcs \<and>
   get_plugin (register_all register_plugin new_plugin_manager ps) name = find (\<lambda>p. pl_name p = name) ps"
  by (simp add: registry.lookup_register_all plugin.lookup_register_all)
     (simp add: option.map_ident get_service_def new_service_registry_def get_plugin_def new_plugin_manager_def)

end
