(* ===== verification/P2PNetwork.thy ===== *)
theory P2PNetwork
  imports Blocks Registries
begin

text \<open>
  \<^verbatim>\<open>modules/networking/p2p.go\<close>: the network node with its transaction and block channels, the
  HTTP handlers and the gossip listener that fill them, and the life cycle of the libp2p host.
  libp2p, HTTP and JSON are parameters: what a library call answers is a field of \<open>p2p_lib\<close> and
  may differ at every call, a body is the bytes it consists of, a decoder is a function.
\<close>

section \<open>The node\<close>

text \<open>
  The pointers of the Go struct are \<^verbatim>\<open>nil\<close> or not: \<open>p2p_pubsub\<close>, \<open>p2p_topic\<close>, \<open>p2p_sub\<close> and
  \<open>p2p_server\<close> say which. \<open>p2p_closed\<close> tells that the host has been closed, \<open>listeners\<close>
  counts the \<^verbatim>\<open>listenGossip\<close> goroutines that run, \<open>published\<close> lists the texts handed to the topic's
  \<^verbatim>\<open>Publish\<close>, and
  \<open>txs_processed\<close> is the counter \<^verbatim>\<open>TxProcessedTotal\<close>, of which a process has one.
\<close>

record p2p_node =
  p2p_port :: int
  p2p_peers :: "string list"
  p2p_host :: "string option"
  p2p_closed :: bool
  p2p_pubsub :: bool
  p2p_topic :: bool
  p2p_sub :: bool
  p2p_server :: bool
  listeners :: nat
  block_chan :: "block chan"
  tx_chan :: "transaction chan"
  published :: "bytes list"
  txs_processed :: nat

definition new_p2p_node :: "int \<Rightarrow> string list \<Rightarrow> p2p_node" where
  "new_p2p_node port ps = \<lparr>p2p_port = port, p2p_peers = ps, p2p_host = None, p2p_closed = False,
     p2p_pubsub = False, p2p_topic = False, p2p_sub = False, p2p_server = False, listeners = 0,
     block_chan = make_chan 100, tx_chan = make_chan 1000, published = [], txs_processed = 0\<rparr>"

section \<open>Life cycle\<close>

record p2p_lib =
  lib_new_host :: "string \<Rightarrow> string result"
  lib_gossip_sub :: "go_error option"
  lib_join :: "string \<Rightarrow> go_error option"
  lib_subscribe :: "go_error option"
  lib_addrs :: nat
  lib_shutdown :: "go_error option"

definition listen_addr :: "int \<Rightarrow> string" where
  "listen_addr port = ''/ip4/0.0.0.0/tcp/'' @ fmt_d (wrap64 (port + 1000))"

definition block_topic :: string where
  "block_topic = ''sovereign-blocks''"

definition p2p_init :: "p2p_lib \<Rightarrow> p2p_node \<Rightarrow> p2p_node \<times> go_error option" where
  "p2p_init lib p =
     (if p2p_host p \<noteq> None then (p, None)
      else case lib_new_host lib (listen_addr (p2p_port p)) of
          Inl err \<Rightarrow> (p, Some (WrapError ''failed to create libp2p host: '' err))
        | Inr h \<Rightarrow> (let p1 = p\<lparr>p2p_host := Some h\<rparr>
            in case lib_gossip_sub lib of
                 Some err \<Rightarrow> (p1, Some (WrapError ''failed to create GossipSub: '' err))
               | None \<Rightarrow> (let p2 = p1\<lparr>p2p_pubsub := True\<rparr>
                   in case lib_join lib block_topic of
                        Some err \<Rightarrow> (p2, Some (WrapError ''failed to join gossip topic: '' err))
                      | None \<Rightarrow> (let p3 = p2\<lparr>p2p_topic := True\<rparr>
                          in case lib_subscribe lib of
                               Some err \<Rightarrow> (p3, Some (WrapError ''failed to subscribe to topic: '' err))
                             | None \<Rightarrow> (p3\<lparr>p2p_sub := True, listeners := listeners p3 + 1\<rparr>, None)))))"

definition p2p_start :: "p2p_lib \<Rightarrow> p2p_node \<Rightarrow> p2p_node \<times> go_error option" where
  "p2p_start lib p = (case p2p_init lib p of
      (p1, Some err) \<Rightarrow> (p1, Some (WrapError ''auto-init failed in Start: '' err))
    | (p1, None) \<Rightarrow> (p1\<lparr>p2p_server := True\<rparr>, None))"

text \<open>Cancelling the subscription ends its listener; no pointer is set back to \<^verbatim>\<open>nil\<close>.\<close>

definition p2p_stop :: "p2p_lib \<Rightarrow> p2p_node \<Rightarrow> p2p_node \<times> go_error option" where
  "p2p_stop lib p =
     (let p1 = (if p2p_sub p then p\<lparr>listeners := 0\<rparr> else p);
          p2 = (if p2p_host p1 \<noteq> None then p1\<lparr>p2p_closed := True\<rparr> else p1)
      in if p2p_server p2 then (p2, lib_shutdown lib) else (p2, None))"

definition p2p_health :: "p2p_lib \<Rightarrow> p2p_node \<Rightarrow> go_error option" where
  "p2p_health lib p = (if p2p_host p = None \<or> lib_addrs lib = 0 then Some (NewError ''libp2p host unhealthy'') else None)"

definition p2p_service :: "p2p_lib \<Rightarrow> p2p_node service" where
  "p2p_service lib = \<lparr>svc_name = ''Networking-LibP2P'', svc_init = p2p_init lib, svc_start = p2p_start lib,
     svc_stop = p2p_stop lib, svc_health = p2p_health lib\<rparr>"

definition p2p_dependencies :: "string list" where
  "p2p_dependencies = [''Storage-Backend'']"

section \<open>Handlers\<close>

text \<open>A handler replies with a status and a body, or waits for room in the channel.\<close>

datatype http_reply = Reply nat string | Waits

definition http_error :: "string \<Rightarrow> nat \<Rightarrow> http_reply" where
  "http_error msg code = Reply code (msg @ [CHR 0x0A])"

definition handle_tx :: "(bytes \<Rightarrow> transaction result) \<Rightarrow> p2p_node \<Rightarrow> string \<Rightarrow> bytes \<Rightarrow> p2p_node \<times> http_reply" where
  "handle_tx decode p meth body =
     (if meth \<noteq> ''POST'' then (p, http_error ''Method not allowed'' 405)
      else case decode body of
          Inl _ \<Rightarrow> (p, http_error ''Invalid transaction payload'' 400)
        | Inr tx \<Rightarrow> (let p1 = p\<lparr>txs_processed := txs_processed p + 1\<rparr>
            in case send (tx_chan p1) tx of
              None \<Rightarrow> (p1, Waits)
            | Some ch \<Rightarrow> (p1\<lparr>tx_chan := ch\<rparr>, Reply 202 [])))"

definition handle_block :: "(bytes \<Rightarrow> block result) \<Rightarrow> p2p_node \<Rightarrow> string \<Rightarrow> bytes \<Rightarrow> p2p_node \<times> http_reply" where
  "handle_block decode p meth body =
     (if meth \<noteq> ''POST'' then (p, http_error ''Method not allowed'' 405)
      else case decode body of
          Inl _ \<Rightarrow> (p, http_error ''Invalid block payload'' 400)
        | Inr b \<Rightarrow> (case send (block_chan p) b of
            None \<Rightarrow> (p, Waits)
          | Some ch \<Rightarrow> (p\<lparr>block_chan := ch\<rparr>, Reply 202 [])))"

definition handle_ping :: "p2p_node \<Rightarrow> http_reply" where
  "handle_ping p = Reply 200 (''pong [peer_id: '' @ (case p2p_host p of None \<Rightarrow> ''unknown'' | Some h \<Rightarrow> h) @ '']'')"

text \<open>
  One turn of \<^verbatim>\<open>listenGossip\<close> on a message from \<open>sender\<close>: own messages and undecodable ones are
  skipped; \<open>None\<close> is waiting for room.
\<close>

definition listen_gossip :: "(bytes \<Rightarrow> block result) \<Rightarrow> p2p_node \<Rightarrow> string \<Rightarrow> bytes \<Rightarrow> p2p_node option" where
  "listen_gossip decode p sender data =
     (if Some sender = p2p_host p then Some p
      else case decode data of
          Inl _ \<Rightarrow> Some p
        | Inr b \<Rightarrow> map_option (\<lambda>ch. p\<lparr>block_chan := ch\<rparr>) (send (block_chan p) b))"

text \<open>
  The error of \<^verbatim>\<open>Publish\<close> is dropped by the code and changes nothing in the node, so \<open>published\<close> says
  what the node tried to send: whether a text reaches anybody is up to libp2p, and after \<^verbatim>\<open>Stop\<close>, which
  leaves \<^verbatim>\<open>p.topic\<close> set, none of them does.
\<close>

definition broadcast_block :: "(block \<Rightarrow> bytes result) \<Rightarrow> p2p_node \<Rightarrow> block \<Rightarrow> p2p_node" where
  "broadcast_block marshal p b = (case marshal b of
      Inl _ \<Rightarrow> p
    | Inr data \<Rightarrow> if p2p_topic p then p\<lparr>published := published p @ [data]\<rparr> else p)"

section \<open>What start-up achieves\<close>

definition p2p_online :: "p2p_node \<Rightarrow> bool" where
  "p2p_online p \<longleftrightarrow> p2p_host p \<noteq> None \<and> p2p_pubsub p \<and> p2p_topic p \<and> p2p_sub p \<and> listeners p = 1"

definition lib_works :: "p2p_lib \<Rightarrow> int \<Rightarrow> bool" where
  "lib_works lib port \<longleftrightarrow> lib_gossip_sub lib = None \<and> lib_join lib block_topic = None \<and> lib_subscribe lib = None \<and>
     (\<exists>h. lib_new_host lib (listen_addr port) = Inr h)"

lemma p2p_init_cases:
  assumes "p2p_host p = None"
  shows "snd (p2p_init lib p) = None \<longleftrightarrow> lib_works lib (p2p_port p)"
  using assms by (auto simp: p2p_init_def lib_works_def Let_def split: sum.splits option.splits)

lemma p2p_init_again: "p2p_host p \<noteq> None \<Longrightarrow> p2p_init lib p = (p, None)"
  by (simp add: p2p_init_def)

lemma p2p_init_failed:
  assumes "p2p_host p = None" and "lib_new_host lib (listen_addr (p2p_port p)) = Inr h"
    and "\<not> lib_works lib (p2p_port p)"
  shows "snd (p2p_init lib p) \<noteq> None" and "p2p_host (fst (p2p_init lib p)) = Some h"
    and "listeners (fst (p2p_init lib p)) = listeners p"
    and "lib_gossip_sub lib \<noteq> None \<or> lib_join lib block_topic \<noteq> None \<Longrightarrow> p2p_topic (fst (p2p_init lib p)) = p2p_topic p"
  using assms(3)
  by (cases "lib_gossip_sub lib"; cases "lib_join lib block_topic"; cases "lib_subscribe lib";
      simp add: p2p_init_def lib_works_def assms(1,2) Let_def)+

lemma p2p_start_sel:
  "fst (p2p_start lib p) = (if snd (p2p_init lib p) = None then (fst (p2p_init lib p))\<lparr>p2p_server := True\<rparr> else fst (p2p_init lib p))"
  "snd (p2p_start lib p) = map_option (WrapError ''auto-init failed in Start: '') (snd (p2p_init lib p))"
  by (cases "p2p_init lib p"; simp add: p2p_start_def split: option.split)+

lemma p2p_start_online:
  "lib_works lib port \<Longrightarrow> p2p_online (fst (p2p_start lib (new_p2p_node port ps))) \<and> p2p_server (fst (p2p_start lib (new_p2p_node port ps)))"
  by (auto simp: p2p_start_def p2p_init_def lib_works_def p2p_online_def new_p2p_node_def Let_def)

text \<open>
  Starting a new node succeeds exactly when the host, GossipSub, the topic and the
  subscription could all be had; the node is then online with a single gossip listener and a
  server, and neither Init nor Start, called again, with whatever answers of the library,
  changes it.
\<close>

theorem p2p_start_brings_node_online:
  "(snd (p2p_start lib (new_p2p_node port ps)) = None \<longleftrightarrow> lib_works lib port) \<and>
   (lib_works lib port \<longrightarrow> (let p = fst (p2p_start lib (new_p2p_node port ps)) in
      p2p_online p \<and> p2p_server p \<and> (\<forall>lib'. p2p_init lib' p = (p, None) \<and> p2p_start lib' p = (p, None))))"
proof -
  let ?n = "new_p2p_node port ps"
  have new: "p2p_host ?n = None" "p2p_port ?n = port" by (simp_all add: new_p2p_node_def)
  have ok: "snd (p2p_start lib ?n) = None \<longleftrightarrow> lib_works lib port"
    using p2p_init_cases [OF new(1), of lib] new(2)
    by (auto simp: p2p_start_def split: prod.splits option.splits)
  moreover note p2p_start_online [of lib port ps]
  ultimately show ?thesis
    by (auto simp: Let_def p2p_online_def p2p_init_again p2p_start_def [where p = "fst (p2p_start lib ?n)"])
qed

text \<open>
  A failed start-up is forgotten. When the host was created but GossipSub, the topic or the
  subscription was not, Start reports the error once; the next Start reports success, whatever
  the library answers, although no gossip listener runs, and as the topic is missing nothing
  the node broadcasts is published. Init does no better after that.
\<close>

theorem failed_start_is_forgotten:
  assumes "lib_new_host lib (listen_addr port) = Inr h" and "\<not> lib_works lib port"
  shows "let p = fst (p2p_start lib (new_p2p_node port ps)); p' = fst (p2p_start lib' p) in
     snd (p2p_start lib (new_p2p_node port ps)) \<noteq> None \<and> snd (p2p_start lib' p) = None \<and>
     listeners p' = 0 \<and> \<not> p2p_online p' \<and> p2p_init lib'' p' = (p', None) \<and>
     (lib_gossip_sub lib \<noteq> None \<or> lib_join lib block_topic \<noteq> None \<longrightarrow> broadcast_block marshal p' b = p')"
proof -
  let ?n = "new_p2p_node port ps"
  have n: "p2p_host ?n = None" "p2p_port ?n = port" "listeners ?n = 0" "\<not> p2p_topic ?n" by (simp_all add: new_p2p_node_def)
  note fail = p2p_init_failed [OF n(1), of lib h, unfolded n(2), OF assms]
  have p: "fst (p2p_start lib ?n) = fst (p2p_init lib ?n)" using fail(1) by (auto simp: p2p_start_sel)
  have again: "p2p_init l (fst (p2p_init lib ?n)) = (fst (p2p_init lib ?n), None)" for l
    by (rule p2p_init_again) (simp add: fail(2))
  show ?thesis
    unfolding Let_def p using fail n
    by (auto simp: p2p_start_sel again p2p_init_again p2p_online_def broadcast_block_def split: sum.split)
qed

text \<open>
  A stopped node cannot be started again: no pointer is set back to nil, so the next Start takes
  the node for initialised and reports success, with the host closed and no listener running.
\<close>

theorem stopped_node_stays_down:
  assumes "lib_works lib port"
  shows "let q = fst (p2p_stop lib' (fst (p2p_start lib (new_p2p_node port ps)))); q' = fst (p2p_start lib'' q) in
     listeners q = 0 \<and> snd (p2p_start lib'' q) = None \<and> p2p_closed q' \<and> listeners q' = 0"
proof -
  let ?p = "fst (p2p_start lib (new_p2p_node port ps))"
  have "p2p_host ?p \<noteq> None" "p2p_sub ?p"
    using p2p_start_online [OF assms, of ps] by (simp_all add: p2p_online_def)
  then show ?thesis by (auto simp: p2p_stop_def p2p_start_sel p2p_init_again Let_def)
qed

text \<open>A library whose host works and whose other calls answer as given.\<close>

definition sample_lib :: "go_error option \<Rightarrow> p2p_lib" where
  "sample_lib err = \<lparr>lib_new_host = (\<lambda>_. Inr ''h''), lib_gossip_sub = err, lib_join = (\<lambda>_. None), lib_subscribe = None,
     lib_addrs = 1, lib_shutdown = None\<rparr>"

theorem stopped_node_stays_down_witness:
  "let q = fst (p2p_stop (sample_lib None) (fst (p2p_start (sample_lib None) (new_p2p_node 8080 [])))) in
     snd (p2p_start (sample_lib None) q) = None \<and> listeners (fst (p2p_start (sample_lib None) q)) = 0"
proof -
  have "lib_works (sample_lib None) 8080" by (simp add: lib_works_def sample_lib_def)
  from stopped_node_stays_down [OF this, of "sample_lib None" "[]" "sample_lib None"] show ?thesis by (simp add: Let_def)
qed

theorem p2p_start_brings_node_online_witness:
  "p2p_online (fst (p2p_start (sample_lib None) (new_p2p_node 8080 [])))"
proof -
  have "lib_works (sample_lib None) 8080" by (simp add: lib_works_def sample_lib_def)
  with p2p_start_brings_node_online [of "sample_lib None" 8080 "[]"] show ?thesis by (simp add: Let_def)
qed

theorem failed_start_is_forgotten_witness:
  "let p = fst (p2p_start (sample_lib (Some (NewError ''gossip''))) (new_p2p_node 8080 [])) in
     listeners (fst (p2p_start (sample_lib None) p)) = 0 \<and> snd (p2p_start (sample_lib None) p) = None"
proof -
  let ?lib = "sample_lib (Some (NewError ''gossip''))"
  have "lib_new_host ?lib (listen_addr 8080) = Inr ''h''" "\<not> lib_works ?lib 8080"
    by (simp_all add: sample_lib_def lib_works_def)
  from failed_start_is_forgotten [OF this, of "[]" "sample_lib None"] show ?thesis by (simp add: Let_def)
qed

end
