(* ===== verification/NodeRuntime.thy ===== *)
theory NodeRuntime
  imports ChannelConsensus P2PNetwork
begin

text \<open>
  \<^verbatim>\<open>core/runtime/runtime.go\<close>: the event loop that collects the transactions of the network node,
  mines and applies blocks, with the HTTP handlers and the gossip listener as steps beside it,
  and the life cycle of the services. JSON is a parameter here; \<^verbatim>\<open>BlockNetwork\<close> supplies it.
\<close>

section \<open>The event loop\<close>

text \<open>
  \<open>waiting_handlers\<close> holds the transactions of the HTTP handlers that wait for room in the channel;
  \<open>blocks_mined\<close> and \<open>blocks_failed\<close> are the counters \<^verbatim>\<open>BlocksMinedTotal\<close> and \<^verbatim>\<open>BlocksFailedTotal\<close>.
\<close>

record 'st runtime =
  rt_difficulty :: int
  rt_p2p :: p2p_node
  rt_chain :: "'st chain_state"
  pending_txs :: "transaction list"
  rt_cancelled :: bool
  loop_alive :: bool
  waiting_handlers :: "transaction list"
  blocks_mined :: nat
  blocks_failed :: nat

record 'st runtime_deps =
  nd_api :: "'st storage_api"
  nd_marshal :: "block \<Rightarrow> bytes result"
  nd_unmarshal :: "bytes \<Rightarrow> block result"
  nd_decode_tx :: "bytes \<Rightarrow> transaction result"
  nd_decode_block :: "bytes \<Rightarrow> block result"
  nd_time_string :: "go_time \<Rightarrow> string"

text \<open>\<^verbatim>\<open>data, _ := json.Marshal(block)\<close>: on an error the data is nil.\<close>

definition marshal_or_nil :: "'st runtime_deps \<Rightarrow> block \<Rightarrow> bytes" where
  "marshal_or_nil d b = (case nd_marshal d b of Inl _ \<Rightarrow> [] | Inr data \<Rightarrow> data)"

definition genesis_prev_hash :: string where
  "genesis_prev_hash = replicate 64 (CHR ''0'')"

definition candidate_block :: "go_time \<Rightarrow> 'st runtime \<Rightarrow> block" where
  "candidate_block now r = \<lparr>bl_index = 1, bl_timestamp = now, bl_transactions = pending_txs r,
     bl_prev_hash = genesis_prev_hash, bl_hash = [], bl_nonce = 0\<rparr>"

definition apply_block :: "'st runtime_deps \<Rightarrow> block \<Rightarrow> 'st runtime \<Rightarrow> 'st runtime" where
  "apply_block d b r = r\<lparr>rt_chain := fst (chain_apply (nd_api d) (nd_unmarshal d) () (rt_chain r) (marshal_or_nil d b))\<rparr>"

text \<open>What the loop does when the block has been mined.\<close>

definition seal_block :: "'st runtime_deps \<Rightarrow> block \<Rightarrow> 'st runtime \<Rightarrow> 'st runtime" where
  "seal_block d b r = (let r1 = apply_block d b r
     in r1\<lparr>rt_p2p := broadcast_block (nd_marshal d) (rt_p2p r1) b, blocks_mined := blocks_mined r1 + 1, pending_txs := []\<rparr>)"

datatype loop_event =
    GotTx transaction
  | GotBlock block
  | IdleTick
  | Mined block
  | MiningStopped go_error
  | LoopExit
  | HttpTx string bytes nat
  | TxWaits transaction
  | TxResumes transaction
  | HttpBlock string bytes nat
  | Gossip string bytes

text \<open>
  One turn of the loop per rule, and one rule per handler that answered (with its status) and per
  message the gossip listener has dealt with; those that happen while a block is mined are
  ordered before or after it. A handler of a transaction that finds no room waits, and answers
  when it could send, in any order; a block and a gossip message that find no room have no step
  until there is some, as nothing has changed before. A
  negative difficulty panics in \<^verbatim>\<open>strings.Repeat\<close> and a block that is never found never ends the
  turn: neither has a step.
\<close>

inductive loop_step :: "'st runtime_deps \<Rightarrow> 'st runtime \<Rightarrow> loop_event \<Rightarrow> 'st runtime \<Rightarrow> bool"
  for d :: "'st runtime_deps" where
  got_tx: "loop_alive r \<Longrightarrow> recv (tx_chan (rt_p2p r)) = Some (tx, ch) \<Longrightarrow>
    loop_step d r (GotTx tx) (r\<lparr>rt_p2p := (rt_p2p r)\<lparr>tx_chan := ch\<rparr>, pending_txs := pending_txs r @ [tx]\<rparr>)"
| got_block: "loop_alive r \<Longrightarrow> recv (block_chan (rt_p2p r)) = Some (b, ch) \<Longrightarrow>
    loop_step d r (GotBlock b) (apply_block d b (r\<lparr>rt_p2p := (rt_p2p r)\<lparr>block_chan := ch\<rparr>\<rparr>))"
| idle_tick: "loop_alive r \<Longrightarrow> pending_txs r = [] \<Longrightarrow> loop_step d r IdleTick r"
| mined: "loop_alive r \<Longrightarrow> pending_txs r \<noteq> [] \<Longrightarrow>
    mine_block (nd_time_string d) ctx_err ctx_done (rt_difficulty r) (candidate_block now r) = Return (Some (b, None)) \<Longrightarrow>
    loop_step d r (Mined b) (seal_block d b r)"
| mining_stopped: "loop_alive r \<Longrightarrow> pending_txs r \<noteq> [] \<Longrightarrow>
    mine_block (nd_time_string d) ctx_err ctx_done (rt_difficulty r) (candidate_block now r) = Return (Some (b, Some e)) \<Longrightarrow>
    loop_step d r (MiningStopped e) (r\<lparr>blocks_failed := blocks_failed r + 1\<rparr>)"
| loop_exit: "loop_alive r \<Longrightarrow> rt_cancelled r \<Longrightarrow> loop_step d r LoopExit (r\<lparr>loop_alive := False\<rparr>)"
| http_tx: "handle_tx (nd_decode_tx d) (rt_p2p r) meth body = (p, Reply code msg) \<Longrightarrow>
    loop_step d r (HttpTx meth body code) (r\<lparr>rt_p2p := p\<rparr>)"
| tx_waits: "handle_tx (nd_decode_tx d) (rt_p2p r) meth body = (p, Waits) \<Longrightarrow> nd_decode_tx d body = Inr tx \<Longrightarrow>
    loop_step d r (TxWaits tx) (r\<lparr>rt_p2p := p, waiting_handlers := waiting_handlers r @ [tx]\<rparr>)"
| tx_resumes: "waiting_handlers r = xs @ tx # ys \<Longrightarrow> send (tx_chan (rt_p2p r)) tx = Some ch \<Longrightarrow>
    loop_step d r (TxResumes tx) (r\<lparr>rt_p2p := (rt_p2p r)\<lparr>tx_chan := ch\<rparr>, waiting_handlers := xs @ ys\<rparr>)"
| http_block: "handle_block (nd_decode_block d) (rt_p2p r) meth body = (p, Reply code msg) \<Longrightarrow>
    loop_step d r (HttpBlock meth body code) (r\<lparr>rt_p2p := p\<rparr>)"
| gossip: "listeners (rt_p2p r) > 0 \<Longrightarrow> listen_gossip (nd_unmarshal d) (rt_p2p r) sender data = Some p \<Longrightarrow>
    loop_step d r (Gossip sender data) (r\<lparr>rt_p2p := p\<rparr>)"

inductive loop_run :: "'st runtime_deps \<Rightarrow> 'st runtime \<Rightarrow> loop_event list \<Rightarrow> 'st runtime \<Rightarrow> bool"
  for d :: "'st runtime_deps" where
  run_nil: "loop_run d r [] r"
| run_cons: "loop_step d r ev r' \<Longrightarrow> loop_run d r' evs r'' \<Longrightarrow> loop_run d r (ev # evs) r''"

inductive_simps loop_run_Nil [simp]: "loop_run d r [] r'"
inductive_simps loop_run_Cons: "loop_run d r (ev # evs) r'"

text \<open>The transactions accepted with status 202 in a run, and the blocks it mined.\<close>

definition accepted_txs :: "'st runtime_deps \<Rightarrow> loop_event list \<Rightarrow> transaction list" where
  "accepted_txs d evs = concat (map (\<lambda>ev. case ev of
      HttpTx meth body code \<Rightarrow> (if code = 202 then (case nd_decode_tx d body of Inl _ \<Rightarrow> [] | Inr tx \<Rightarrow> [tx]) else [])
    | TxResumes tx \<Rightarrow> [tx]
    | _ \<Rightarrow> []) evs)"

definition mined_blocks :: "loop_event list \<Rightarrow> block list" where
  "mined_blocks evs = concat (map (\<lambda>ev. case ev of Mined b \<Rightarrow> [b] | _ \<Rightarrow> []) evs)"

section \<open>Configuration and life cycle\<close>

record config =
  cfg_node_id :: string
  cfg_port :: int
  cfg_algorithm :: string
  cfg_difficulty :: int
  cfg_backend :: string
  cfg_path :: string
  cfg_peers :: "string list"

text \<open>Reading a file and parsing YAML are parameters.\<close>

definition load_config :: "(string \<Rightarrow> bytes result) \<Rightarrow> (bytes \<Rightarrow> config result) \<Rightarrow> string \<Rightarrow> config result" where
  "load_config read_file unmarshal_yaml path =
     (case read_file path of
        Inl err \<Rightarrow> Inl (WrapError ''failed to read config file: '' err)
      | Inr data \<Rightarrow> (case unmarshal_yaml data of
          Inl err \<Rightarrow> Inl (WrapError ''failed to parse yaml config: '' err)
        | Inr cfg \<Rightarrow> Inr cfg))"

text \<open>\<^verbatim>\<open>New\<close>: \<open>memory\<close> and \<open>open_pebble\<close> are the two constructors of a storage.\<close>

definition new_runtime :: "config result \<Rightarrow> (string \<Rightarrow> 'st result) \<Rightarrow> 'st \<Rightarrow> 'st runtime result" where
  "new_runtime loaded open_pebble memory = (case loaded of
      Inl err \<Rightarrow> Inl (WrapError ''runtime config error: '' err)
    | Inr cfg \<Rightarrow>
        (case (if cfg_backend cfg = ''pebble'' then open_pebble (cfg_path cfg) else Inr memory) of
           Inl err \<Rightarrow> Inl (WrapError ''failed to init pebble storage: '' err)
         | Inr store \<Rightarrow> Inr \<lparr>rt_difficulty = cfg_difficulty cfg, rt_p2p = new_p2p_node (cfg_port cfg) (cfg_peers cfg),
               rt_chain = new_chain_state store, pending_txs = [], rt_cancelled = False, loop_alive = False,
               waiting_handlers = [], blocks_mined = 0, blocks_failed = 0\<rparr>))"

text \<open>Services start in the order of registration, \<^verbatim>\<open>Init\<close> before \<^verbatim>\<open>Start\<close>, up to the first error.\<close>

fun start_services :: "'w service list \<Rightarrow> 'w \<Rightarrow> 'w \<times> go_error option" where
  "start_services [] w = (w, None)"
| "start_services (svc # svcs) w = (case svc_init svc w of
      (w1, Some err) \<Rightarrow> (w1, Some (WrapError (''service '' @ svc_name svc @ '' init failed: '') err))
    | (w1, None) \<Rightarrow> (case svc_start svc w1 of
          (w2, Some err) \<Rightarrow> (w2, Some (WrapError (''service '' @ svc_name svc @ '' start failed: '') err))
        | (w2, None) \<Rightarrow> start_services svcs w2))"

text \<open>They stop in the reverse order; an error is logged and the next one is stopped all the same.\<close>

fun stop_in_order :: "'w service list \<Rightarrow> 'w \<Rightarrow> 'w \<times> string list" where
  "stop_in_order [] w = (w, [])"
| "stop_in_order (svc # svcs) w = (case svc_stop svc w of
      (w1, err) \<Rightarrow> (case stop_in_order svcs w1 of (w2, logs) \<Rightarrow>
        (w2, (case err of None \<Rightarrow> [] | Some e \<Rightarrow> [''Failed stopping service '' @ svc_name svc @ '': '' @ error_text e]) @ logs)))"

definition stop_services :: "'w service list \<Rightarrow> 'w \<Rightarrow> 'w \<times> string list" where
  "stop_services svcs w = stop_in_order (rev svcs) w"

text \<open>
  \<^verbatim>\<open>Start\<close> makes a new context and ends with the event loop; \<^verbatim>\<open>Stop\<close> cancels the context, stops the
  services and closes the storage, whose error it returns. \<open>w\<close> is the world of the services.
\<close>

definition runtime_start :: "'w service list \<Rightarrow> 'st runtime \<Rightarrow> 'w \<Rightarrow> ('st runtime \<times> 'w) \<times> go_error option" where
  "runtime_start svcs r w = (let r1 = r\<lparr>rt_cancelled := False\<rparr> in case start_services svcs w of
      (w1, Some err) \<Rightarrow> ((r1, w1), Some err)
    | (w1, None) \<Rightarrow> ((r1\<lparr>loop_alive := True\<rparr>, w1), None))"

definition runtime_stop :: "'st storage_api \<Rightarrow> 'w service list \<Rightarrow> 'st runtime \<Rightarrow> 'w
    \<Rightarrow> ('st runtime \<times> 'w) \<times> string list \<times> go_error option" where
  "runtime_stop api svcs r w = (let r1 = r\<lparr>rt_cancelled := True\<rparr> in case stop_services svcs w of
      (w1, logs) \<Rightarrow> (case api_close api (chain_storage (rt_chain r1)) of
        (st, err) \<Rightarrow> ((r1\<lparr>rt_chain := (rt_chain r1)\<lparr>chain_storage := st\<rparr>\<rparr>, w1), logs, err)))"

lemma start_services_append:
  "start_services (xs @ ys) w = (case start_services xs w of
      (w1, None) \<Rightarrow> start_services ys w1 | (w1, Some err) \<Rightarrow> (w1, Some err))"
  by (induction xs arbitrary: w) (auto split: prod.splits option.splits)

lemma stop_in_order_append:
  "stop_in_order (xs @ ys) w = (case stop_in_order xs w of (w1, l1) \<Rightarrow> (case stop_in_order ys w1 of (w2, l2) \<Rightarrow> (w2, l1 @ l2)))"
  by (induction xs arbitrary: w) (auto split: prod.splits)

text \<open>Services that record their calls make the order visible.\<close>

definition recording_service :: "(string \<Rightarrow> bool) \<Rightarrow> string \<Rightarrow> string list service" where
  "recording_service ok n = \<lparr>svc_name = n, svc_init = (\<lambda>w. (w @ [''init '' @ n], None)),
     svc_start = (\<lambda>w. (w @ [''start '' @ n], if ok n then None else Some (NewError ''refused''))),
     svc_stop = (\<lambda>w. (w @ [''stop '' @ n], if ok n then None else Some (NewError ''refused''))), svc_health = (\<lambda>_. None)\<rparr>"

lemma start_recording_ok:
  "\<forall>n \<in> set ns. ok n \<Longrightarrow> start_services (map (recording_service ok) ns) w =
     (w @ concat (map (\<lambda>n. [''init '' @ n, ''start '' @ n]) ns), None)"
  by (induction ns arbitrary: w) (auto simp: recording_service_def)

text \<open>
  Start-up stops at the first service that fails and leaves the services before it started and
  those behind it untouched, as nothing is stopped on the way out; shut-down visits every
  service, the last one first, whatever errors occur.
\<close>

theorem start_order_and_stop_order:
  assumes "\<forall>n \<in> set before. ok n" and "\<not> ok n"
  shows "start_services (map (recording_service ok) (before @ n # behind)) [] =
       (concat (map (\<lambda>n. [''init '' @ n, ''start '' @ n]) before) @ [''init '' @ n, ''start '' @ n],
        Some (WrapError (''service '' @ n @ '' start failed: '') (NewError ''refused''))) \<and>
     fst (stop_services (map (recording_service ok) (before @ n # behind)) w) =
       w @ map (\<lambda>n. ''stop '' @ n) (rev (before @ n # behind))"
proof
  show "start_services (map (recording_service ok) (before @ n # behind)) [] =
       (concat (map (\<lambda>n. [''init '' @ n, ''start '' @ n]) before) @ [''init '' @ n, ''start '' @ n],
        Some (WrapError (''service '' @ n @ '' start failed: '') (NewError ''refused'')))"
    using assms(2) by (simp add: start_services_append start_recording_ok [OF assms(1)]) (simp add: recording_service_def)
  have "fst (stop_in_order (map (recording_service ok) ns) w) = w @ map (\<lambda>n. ''stop '' @ n) ns" for ns
    by (induction ns arbitrary: w) (simp_all add: recording_service_def case_prod_beta)
  from this [of "rev (before @ n # behind)"]
  show "fst (stop_services (map (recording_service ok) (before @ n # behind)) w) =
       w @ map (\<lambda>n. ''stop '' @ n) (rev (before @ n # behind))"
    by (simp add: stop_services_def rev_map)
qed

theorem start_order_and_stop_order_witness:
  "fst (start_services (map (recording_service (\<lambda>n. n = ''a'')) [''a'', ''b'', ''c'']) []) =
     [''init a'', ''start a'', ''init b'', ''start b'']"
  using start_order_and_stop_order [of "[''a'']" "\<lambda>n. n = ''a''" "''b''" "[''c'']" "[]"] by simp

section \<open>Mining fills in nonce and hash\<close>

definition mining_result :: "(go_time \<Rightarrow> string) \<Rightarrow> string \<Rightarrow> block \<Rightarrow> block \<times> go_error option \<Rightarrow> bool" where
  "mining_result time_string target b res \<longleftrightarrow> (case res of (b', err) \<Rightarrow>
     bl_index b' = bl_index b \<and> bl_timestamp b' = bl_timestamp b \<and> bl_transactions b' = bl_transactions b \<and>
     bl_prev_hash b' = bl_prev_hash b \<and> (in_int64 (bl_nonce b) \<longrightarrow> in_int64 (bl_nonce b')) \<and>
     (err = None \<longrightarrow> bl_hash b' = calculate_hash time_string b' \<and> has_prefix (bl_hash b') target))"

lemma mine_loop_result:
  "mine_loop time_string ctx_err ctx_done target i b = Some res \<Longrightarrow> mining_result time_string target b res"
proof (rule mine_loop.raw_induct [where P = "\<lambda>time_string ctx_err ctx_done target i b res. mining_result time_string target b res"])
  fix ml time_string ctx_err ctx_done target i b res
  assume ih: "\<And>time_string ctx_err ctx_done target i b res. ml time_string ctx_err ctx_done target i b = Some res
      \<Longrightarrow> mining_result time_string target b res"
    and step: "(if ctx_done i then Some (b, Some ctx_err)
      else let hash = calculate_hash time_string b
           in if has_prefix hash target then Some (b\<lparr>bl_hash := hash\<rparr>, None)
              else ml time_string ctx_err ctx_done target (Suc i) (b\<lparr>bl_nonce := wrap64 (bl_nonce b + 1)\<rparr>)) = Some res"
  show "mining_result time_string target b res"
  proof (cases "ctx_done i \<or> has_prefix (calculate_hash time_string b) target")
    case True
    with step show ?thesis by (auto simp: mining_result_def calculate_hash_def Let_def split: if_splits)
  next
    case False
    with step have "ml time_string ctx_err ctx_done target (Suc i) (b\<lparr>bl_nonce := wrap64 (bl_nonce b + 1)\<rparr>) = Some res"
      by (simp add: Let_def)
    then have "mining_result time_string target (b\<lparr>bl_nonce := wrap64 (bl_nonce b + 1)\<rparr>) res" by (rule ih)
    then show ?thesis by (cases res) (auto simp: mining_result_def)
  qed
qed

lemma mine_block_result:
  assumes "mine_block time_string ctx_err ctx_done difficulty b = Return (Some (b', None))"
  shows "bl_index b' = bl_index b \<and> bl_transactions b' = bl_transactions b \<and> bl_prev_hash b' = bl_prev_hash b \<and>
     bl_hash b' = calculate_hash time_string b' \<and> has_prefix (bl_hash b') (replicate (nat difficulty) (CHR ''0'')) \<and>
     (in_int64 (bl_nonce b) \<longrightarrow> in_int64 (bl_nonce b'))"
proof -
  from assms have "mine_loop time_string ctx_err ctx_done (replicate (nat difficulty) (CHR ''0'')) 0 b = Some (b', None)"
    by (auto simp: mine_block_def pow_target_def split: if_splits)
  from mine_loop_result [OF this] show ?thesis by (auto simp: mining_result_def)
qed

section \<open>Properties\<close>

lemma broadcast_sel [simp]:
  "tx_chan (broadcast_block marshal p b) = tx_chan p" "block_chan (broadcast_block marshal p b) = block_chan p"
  by (simp_all add: broadcast_block_def split: sum.split)

lemma runtime_sel [simp]:
  "pending_txs (apply_block d b r) = pending_txs r" "rt_difficulty (apply_block d b r) = rt_difficulty r"
  "rt_p2p (apply_block d b r) = rt_p2p r" "pending_txs (seal_block d b r) = []"
  "rt_difficulty (seal_block d b r) = rt_difficulty r" "tx_chan (rt_p2p (seal_block d b r)) = tx_chan (rt_p2p r)"
  by (simp_all add: apply_block_def seal_block_def Let_def)

text \<open>What a handler and a message do to the transaction channel.\<close>

lemma handle_tx_channel:
  assumes "handle_tx decode p meth body = (p', Reply code msg)"
  shows "chan_buf (tx_chan p') = chan_buf (tx_chan p) @
     (if code = 202 then (case decode body of Inl _ \<Rightarrow> [] | Inr tx \<Rightarrow> [tx]) else [])"
  using assms by (auto simp: handle_tx_def http_error_def Let_def dest: send_Some split: if_splits sum.splits option.splits)

lemma handle_tx_waits:
  "handle_tx decode p meth body = (p', Waits) \<Longrightarrow> tx_chan p' = tx_chan p \<and> txs_processed p' = txs_processed p + 1"
  by (auto simp: handle_tx_def http_error_def Let_def split: if_splits sum.splits option.splits)

lemma network_keeps_tx_chan:
  "handle_block decode' p meth body = (p', reply) \<Longrightarrow> tx_chan p' = tx_chan p"
  "listen_gossip decode' p sender body = Some p' \<Longrightarrow> tx_chan p' = tx_chan p"
  by (auto simp: handle_block_def listen_gossip_def split: if_splits sum.splits option.splits)

text \<open>What one turn adds to the blocks, the pending list and the channel.\<close>

definition block_ok :: "'st runtime_deps \<Rightarrow> int \<Rightarrow> block \<Rightarrow> bool" where
  "block_ok d difficulty b \<longleftrightarrow> bl_index b = 1 \<and> bl_prev_hash b = genesis_prev_hash \<and>
     bl_hash b = calculate_hash (nd_time_string d) b \<and>
     has_prefix (bl_hash b) (replicate (nat difficulty) (CHR ''0'')) \<and> bl_transactions b \<noteq> [] \<and> in_int64 (bl_nonce b)"

definition waiting_txs :: "'st runtime \<Rightarrow> transaction list" where
  "waiting_txs r = pending_txs r @ chan_buf (tx_chan (rt_p2p r))"

lemma loop_step_transactions:
  assumes "loop_step d r ev r'"
  shows "concat (map bl_transactions (mined_blocks [ev])) @ waiting_txs r' = waiting_txs r @ accepted_txs d [ev]"
    and "\<forall>b \<in> set (mined_blocks [ev]). block_ok d (rt_difficulty r) b" and "rt_difficulty r' = rt_difficulty r"
  using assms
  by (induction rule: loop_step.induct)
     (auto simp: mined_blocks_def accepted_txs_def waiting_txs_def candidate_block_def block_ok_def recv_def in_int64_def int64_min_def int64_max_def
        handle_tx_channel handle_tx_waits network_keeps_tx_chan dest!: mine_block_result send_Some split: list.splits)

lemma event_lists_Cons:
  "mined_blocks (ev # evs) = mined_blocks [ev] @ mined_blocks evs"
  "accepted_txs d (ev # evs) = accepted_txs d [ev] @ accepted_txs d evs"
  by (simp_all add: mined_blocks_def accepted_txs_def)

lemma run_transactions:
  assumes "loop_run d r evs r'"
  shows "concat (map bl_transactions (mined_blocks evs)) @ waiting_txs r' = waiting_txs r @ accepted_txs d evs \<and>
      (\<forall>b \<in> set (mined_blocks evs). block_ok d (rt_difficulty r) b)"
  using assms
proof (induction rule: loop_run.induct)
  case (run_nil r)
  then show ?case by (simp add: mined_blocks_def accepted_txs_def)
next
  case (run_cons r ev r' evs r'')
  note step = loop_step_transactions [OF run_cons.hyps(1)]
  have "concat (map bl_transactions (mined_blocks [ev])) @ (concat (map bl_transactions (mined_blocks evs)) @ waiting_txs r'')
      = (waiting_txs r @ accepted_txs d [ev]) @ accepted_txs d evs"
    using run_cons.IH step(1) by (metis append_assoc)
  then show ?case
    using run_cons.IH step(2,3) unfolding event_lists_Cons(1) [of ev evs] event_lists_Cons(2) [of d ev evs] by auto
qed

text \<open>
  C23: From the HTTP handler to the block, no transaction is lost, repeated or reordered: over any
  run of the node, the transactions of the blocks it mined, then those pending, then those in
  the channel are the ones waiting at the start followed by those answered with 202 Accepted,
  also when mining was interrupted or gossip came in between. Every mined block carries its own
  hash with the required zeros and at least one transaction, and has index 1 and the all-zero
  previous hash: the mined blocks do not form a chain.
\<close>

theorem event_loop_keeps_transactions:
  assumes "loop_run d r evs r'"
  shows "concat (map bl_transactions (mined_blocks evs)) @ pending_txs r' @ chan_buf (tx_chan (rt_p2p r')) =
       pending_txs r @ chan_buf (tx_chan (rt_p2p r)) @ accepted_txs d evs \<and>
     (\<forall>b \<in> set (mined_blocks evs). bl_hash b = calculate_hash (nd_time_string d) b \<and>
        has_prefix (bl_hash b) (replicate (nat (rt_difficulty r)) (CHR ''0'')) \<and> bl_transactions b \<noteq> [] \<and>
        bl_index b = 1 \<and> bl_prev_hash b = genesis_prev_hash)"
  using run_transactions [OF assms] by (auto simp: block_ok_def waiting_txs_def)

text \<open>A codec that keeps the index of a block of index 1 and refuses empty data, and such a storage.\<close>

definition codec_keeps_index :: "'st runtime_deps \<Rightarrow> bool" where
  "codec_keeps_index d \<longleftrightarrow> (\<forall>b data b'. bl_index b = 1 \<longrightarrow> nd_marshal d b = Inr data \<longrightarrow> nd_unmarshal d data = Inr b'
     \<longrightarrow> bl_index b' = 1) \<and> (\<forall>b. nd_unmarshal d [] \<noteq> Inr b)"

definition only_block_one :: "memory_storage runtime \<Rightarrow> bool" where
  "only_block_one r \<longleftrightarrow> dom (mem_data (chain_storage (rt_chain r))) \<subseteq> {block_key 1}"

lemma chain_seal [simp]: "rt_chain (seal_block d b r) =
    fst (chain_apply (nd_api d) (nd_unmarshal d) () (rt_chain r) (marshal_or_nil d b))"
  by (simp add: seal_block_def apply_block_def Let_def)

lemma only_block_one_seal:
  assumes "codec_keeps_index d" and "nd_api d = memory_api" and "bl_index b = 1" and "only_block_one r"
  shows "only_block_one (seal_block d b r)"
proof (cases "nd_unmarshal d (marshal_or_nil d b)")
  case (Inl e)
  then have "rt_chain (seal_block d b r) = rt_chain r" using assms(2) by (simp add: chain_apply_memory(1))
  then show ?thesis using assms(4) by (simp add: only_block_one_def)
next
  case (Inr b')
  have "bl_index b' = 1"
  proof (cases "nd_marshal d b")
    case (Inl e)
    with Inr assms(1) show ?thesis by (simp add: marshal_or_nil_def codec_keeps_index_def)
  next
    case (Inr data)
    then have "nd_unmarshal d data = Inr b'" using \<open>nd_unmarshal d (marshal_or_nil d b) = Inr b'\<close> by (simp add: marshal_or_nil_def)
    with Inr assms(1,3) show ?thesis unfolding codec_keeps_index_def by blast
  qed
  then have "mem_data (chain_storage (rt_chain (seal_block d b r))) =
      (mem_data (chain_storage (rt_chain r)))(block_key 1 \<mapsto> marshal_or_nil d b)"
    using Inr assms(2) by (simp add: chain_apply_memory(2))
  then show ?thesis using assms(4) by (auto simp: only_block_one_def)
qed

lemma only_block_one_step:
  assumes "loop_step d r ev r'" and "codec_keeps_index d" and "nd_api d = memory_api" and "only_block_one r"
    and "\<forall>b. ev \<noteq> GotBlock b"
  shows "only_block_one r'"
  using assms
proof (induction rule: loop_step.induct)
  case (mined r ctx_err ctx_done now b)
  from mine_block_result [OF mined.hyps(3)] have "bl_index b = 1" by (simp add: candidate_block_def)
  then show ?case by (rule only_block_one_seal [OF mined.prems(1,2) _ mined.prems(3)])
next
  case (got_block r b ch)
  then show ?case by blast
qed (simp_all add: only_block_one_def)

text \<open>
  On the in-memory storage, and with a codec that keeps the index of a block, a node that only
  mines keeps at most one block in its storage, whatever it mined: each new block replaces the
  one before.
\<close>

theorem mining_overwrites_stored_block:
  assumes "loop_run d r evs r'" and "codec_keeps_index d" and "nd_api d = memory_api"
    and "dom (mem_data (chain_storage (rt_chain r))) \<subseteq> {block_key 1}" and "\<forall>b. GotBlock b \<notin> set evs"
  shows "dom (mem_data (chain_storage (rt_chain r'))) \<subseteq> {block_key 1}"
proof -
  have "only_block_one r \<Longrightarrow> \<forall>b. GotBlock b \<notin> set evs \<Longrightarrow> only_block_one r'"
    using assms(1)
  proof (induction rule: loop_run.induct)
    case (run_cons r ev r' evs r'')
    have "only_block_one r'"
      by (rule only_block_one_step [OF run_cons.hyps(1) assms(2,3)]) (use run_cons.prems in auto)
    then show ?case by (rule run_cons.IH) (use run_cons.prems in simp)
  qed simp
  with assms(4,5) show ?thesis by (simp add: only_block_one_def)
qed

section \<open>Sample runs\<close>

definition sample_time :: go_time where "sample_time = \<lparr>tm_instant = 0, tm_offset = 0, tm_mono = None\<rparr>"

definition sample_tx :: transaction where
  "sample_tx = \<lparr>tx_id = ''t1'', tx_sender = ''a'', tx_recipient = ''b'', tx_amount = 0, tx_timestamp = sample_time\<rparr>"

definition sample_runtime_deps :: "memory_storage runtime_deps" where
  "sample_runtime_deps = \<lparr>nd_api = memory_api, nd_marshal = (\<lambda>b. Inr ''block''),
     nd_unmarshal = (\<lambda>s. if s = ''block'' then Inr \<lparr>bl_index = 1, bl_timestamp = sample_time, bl_transactions = [], bl_prev_hash = [],
        bl_hash = [], bl_nonce = 0\<rparr> else Inl (NewError ''json'')), nd_decode_tx = (\<lambda>_. Inr sample_tx),
     nd_decode_block = (\<lambda>_. Inl (NewError ''json'')), nd_time_string = (\<lambda>_. [])\<rparr>"

definition sample_runtime :: "memory_storage runtime" where
  "sample_runtime = \<lparr>rt_difficulty = 0, rt_p2p = new_p2p_node 8080 [], rt_chain = new_chain_state new_memory_storage,
     pending_txs = [sample_tx], rt_cancelled = False, loop_alive = True,
     waiting_handlers = [], blocks_mined = 0, blocks_failed = 0\<rparr>"

lemma sample_mining:
  assumes "loop_alive r" and "pending_txs r = [sample_tx]" and "rt_difficulty r = 0"
  shows "\<exists>b r'. loop_step sample_runtime_deps r (Mined b) r'"
proof -
  let ?b = "candidate_block sample_time r"
  let ?b' = "?b\<lparr>bl_hash := calculate_hash (nd_time_string sample_runtime_deps) ?b\<rparr>"
  have "mine_loop (nd_time_string sample_runtime_deps) (NewError []) (\<lambda>_. False) [] 0 ?b = Some (?b', None)"
    by (subst mine_loop.simps) (simp add: has_prefix_def Let_def)
  then have "mine_block (nd_time_string sample_runtime_deps) (NewError []) (\<lambda>_. False) (rt_difficulty r) ?b
      = Return (Some (?b', None))"
    using assms(3) by (simp add: mine_block_def pow_target_def)
  then have "loop_step sample_runtime_deps r (Mined ?b') (seal_block sample_runtime_deps ?b' r)"
    using assms by (intro loop_step.mined) simp_all
  then show ?thesis by blast
qed

lemma sample_loop_run: "\<exists>b r'. loop_run sample_runtime_deps sample_runtime [Mined b] r'"
  using sample_mining [of sample_runtime] by (auto simp: sample_runtime_def loop_run_Cons)

lemma sample_http_run: "\<exists>b r'. loop_run sample_runtime_deps sample_runtime [HttpTx ''POST'' ''tx'' 202, Mined b] r'"
proof -
  obtain p where p: "handle_tx (nd_decode_tx sample_runtime_deps) (rt_p2p sample_runtime) ''POST'' ''tx'' = (p, Reply 202 [])"
    by (simp add: handle_tx_def sample_runtime_deps_def sample_runtime_def new_p2p_node_def send_def)
  let ?r = "sample_runtime\<lparr>rt_p2p := p\<rparr>"
  have "loop_step sample_runtime_deps sample_runtime (HttpTx ''POST'' ''tx'' 202) ?r" by (rule loop_step.http_tx [OF p])
  moreover obtain b r' where "loop_step sample_runtime_deps ?r (Mined b) r'"
    using sample_mining [of ?r] by (auto simp: sample_runtime_def)
  ultimately show ?thesis by (auto simp: loop_run_Cons)
qed

theorem event_loop_keeps_transactions_witness:
  "\<exists>b r'. loop_run sample_runtime_deps sample_runtime [HttpTx ''POST'' ''tx'' 202, Mined b] r' \<and>
     bl_transactions b @ pending_txs r' @ chan_buf (tx_chan (rt_p2p r')) = [sample_tx, sample_tx] \<and> bl_index b = 1"
proof -
  obtain b r' where run: "loop_run sample_runtime_deps sample_runtime [HttpTx ''POST'' ''tx'' 202, Mined b] r'"
    using sample_http_run by blast
  from event_loop_keeps_transactions [OF run]
  have "bl_transactions b @ pending_txs r' @ chan_buf (tx_chan (rt_p2p r')) = [sample_tx, sample_tx] \<and> bl_index b = 1"
    by (simp add: mined_blocks_def accepted_txs_def sample_runtime_def sample_runtime_deps_def new_p2p_node_def)
  with run show ?thesis by blast
qed

theorem mining_overwrites_stored_block_witness:
  "\<exists>b r'. loop_run sample_runtime_deps sample_runtime [Mined b] r' \<and> dom (mem_data (chain_storage (rt_chain r'))) \<subseteq> {block_key 1}"
proof -
  obtain b r' where run: "loop_run sample_runtime_deps sample_runtime [Mined b] r'" using sample_loop_run by blast
  have "codec_keeps_index sample_runtime_deps" "nd_api sample_runtime_deps = memory_api"
    "dom (mem_data (chain_storage (rt_chain sample_runtime))) \<subseteq> {block_key 1}" "\<forall>b'. GotBlock b' \<notin> set [Mined b]"
    by (simp_all add: codec_keeps_index_def sample_runtime_deps_def sample_runtime_def new_chain_state_def new_memory_storage_def)
  from mining_overwrites_stored_block [OF run this] run show ?thesis by blast
qed

end
