(* ===== verification/NodeLifecycle.thy ===== *)
theory NodeLifecycle
  imports NodeRuntime
begin

text \<open>
  The runtime together with the one service that \<^verbatim>\<open>New\<close> registers, its network node: start and stop
  of the whole node, what a start leaves behind in the runs of the event loop, and the counters
  of the process.
\<close>

section \<open>Starting and stopping the node\<close>

definition node_start :: "p2p_lib \<Rightarrow> 'st runtime \<Rightarrow> 'st runtime \<times> go_error option" where
  "node_start lib r = (case runtime_start [p2p_service lib] r (rt_p2p r) of ((r1, p), err) \<Rightarrow> (r1\<lparr>rt_p2p := p\<rparr>, err))"

definition node_stop :: "'st storage_api \<Rightarrow> p2p_lib \<Rightarrow> 'st runtime \<Rightarrow> 'st runtime \<times> go_error option" where
  "node_stop api lib r = (case runtime_stop api [p2p_service lib] r (rt_p2p r) of ((r1, p), _, err) \<Rightarrow> (r1\<lparr>rt_p2p := p\<rparr>, err))"

lemma node_start_cases:
  "snd (p2p_init lib (rt_p2p r)) = None \<Longrightarrow> node_start lib r =
     (r\<lparr>rt_cancelled := False, loop_alive := True, rt_p2p := (fst (p2p_init lib (rt_p2p r)))\<lparr>p2p_server := True\<rparr>\<rparr>, None)"
  "snd (p2p_init lib (rt_p2p r)) = Some err \<Longrightarrow> node_start lib r =
     (r\<lparr>rt_cancelled := False, rt_p2p := fst (p2p_init lib (rt_p2p r))\<rparr>,
      Some (WrapError ''service Networking-LibP2P init failed: '' err))"
proof -
  assume ok: "snd (p2p_init lib (rt_p2p r)) = None"
  then obtain p where p: "p2p_init lib (rt_p2p r) = (p, None)" by (cases "p2p_init lib (rt_p2p r)") simp
  then have "p2p_host p \<noteq> None" by (auto simp: p2p_init_def Let_def split: if_splits sum.splits option.splits)
  then have "p2p_start lib p = (p\<lparr>p2p_server := True\<rparr>, None)" by (simp add: p2p_start_def p2p_init_again)
  then show "node_start lib r =
     (r\<lparr>rt_cancelled := False, loop_alive := True, rt_p2p := (fst (p2p_init lib (rt_p2p r)))\<lparr>p2p_server := True\<rparr>\<rparr>, None)"
    by (simp add: node_start_def runtime_start_def p2p_service_def p)
next
  assume "snd (p2p_init lib (rt_p2p r)) = Some err"
  then show "node_start lib r = (r\<lparr>rt_cancelled := False, rt_p2p := fst (p2p_init lib (rt_p2p r))\<rparr>,
      Some (WrapError ''service Networking-LibP2P init failed: '' err))"
    by (cases "p2p_init lib (rt_p2p r)") (simp add: node_start_def runtime_start_def p2p_service_def)
qed

lemma node_start_again:
  "p2p_host (rt_p2p r) \<noteq> None \<Longrightarrow>
     node_start lib r = (r\<lparr>rt_cancelled := False, loop_alive := True, rt_p2p := (rt_p2p r)\<lparr>p2p_server := True\<rparr>\<rparr>, None)"
  by (simp add: node_start_cases(1) p2p_init_again)

lemma new_runtime_p2p:
  "new_runtime loaded open_pebble memory = Inr r \<Longrightarrow>
     (\<exists>port ps. rt_p2p r = new_p2p_node port ps) \<and> \<not> loop_alive r"
  by (auto simp: new_runtime_def split: sum.splits) (rule exI, rule exI, rule refl)

section \<open>A node that does not listen\<close>

definition deaf :: "'st runtime \<Rightarrow> bool" where
  "deaf r \<longleftrightarrow> listeners (rt_p2p r) = 0"


lemma handlers_keep_life:
  "handle_tx decode p meth body = (p', reply) \<Longrightarrow> listeners p' = listeners p \<and> p2p_topic p' = p2p_topic p \<and> published p' = published p"
  "handle_block decode' p meth body = (p', reply) \<Longrightarrow> listeners p' = listeners p \<and> p2p_topic p' = p2p_topic p \<and> published p' = published p"
  "listen_gossip decode' p sender body = Some p' \<Longrightarrow> listeners p' = listeners p \<and> p2p_topic p' = p2p_topic p \<and> published p' = published p"
  by (auto simp: handle_tx_def handle_block_def listen_gossip_def http_error_def Let_def split: if_splits sum.splits option.splits)

lemma broadcast_life:
  "listeners (broadcast_block marshal p b) = listeners p" "p2p_topic (broadcast_block marshal p b) = p2p_topic p"
  "\<not> p2p_topic p \<Longrightarrow> broadcast_block marshal p b = p"
  "txs_processed (broadcast_block marshal p b) = txs_processed p"
  by (simp_all add: broadcast_block_def split: sum.split)

lemma seal_p2p [simp]: "rt_p2p (seal_block d b r) = broadcast_block (nd_marshal d) (rt_p2p r) b"
  by (simp add: seal_block_def Let_def)

lemma deaf_step:
  assumes "loop_step d r ev r'" and "deaf r"
  shows "deaf r' \<and> (\<forall>s m. ev \<noteq> Gossip s m)"
  using assms by (induction rule: loop_step.induct) (auto simp: deaf_def broadcast_life dest: handlers_keep_life)


lemma deaf_run: "loop_run d r evs r' \<Longrightarrow> deaf r \<Longrightarrow> \<forall>s m. Gossip s m \<notin> set evs"
  by (induction rule: loop_run.induct) (auto dest: deaf_step)







text \<open>
  Start and Stop of a node whose library works: the start brings the node online with its loop
  running and the health check content; the stop ends the listener and closes host and storage,
  the loop can then end at its next turn, and from then on no gossip message is taken, even if
  the node is started again, which reports success.
\<close>

theorem node_start_and_stop:
  assumes "new_runtime loaded open_pebble memory = Inr r" and "lib_works lib (p2p_port (rt_p2p r))"
  shows "let r1 = fst (node_start lib r); r2 = fst (node_stop api lib' r1); r3 = fst (node_start lib'' r2) in
     snd (node_start lib r) = None \<and> p2p_online (rt_p2p r1) \<and> loop_alive r1 \<and>
     loop_step d r2 LoopExit (r2\<lparr>loop_alive := False\<rparr>) \<and> p2p_closed (rt_p2p r2) \<and>
     snd (node_stop api lib' r1) = snd (api_close api (chain_storage (rt_chain r))) \<and>
     snd (node_start lib'' r2) = None \<and> loop_alive r3 \<and>
     (\<forall>evs r'. loop_run d r2 evs r' \<or> loop_run d r3 evs r' \<longrightarrow> (\<forall>s m. Gossip s m \<notin> set evs))"
proof -
  obtain port ps where r: "rt_p2p r = new_p2p_node port ps" using new_runtime_p2p [OF assms(1)] by blast
  let ?p = "fst (p2p_init lib (rt_p2p r))"
  have p: "snd (p2p_init lib (rt_p2p r)) = None" "p2p_online ?p"
    using assms(2) unfolding r by (auto simp: p2p_init_def lib_works_def p2p_online_def new_p2p_node_def Let_def)
  note start = node_start_cases(1) [OF p(1)]
  let ?r1 = "fst (node_start lib r)"
  let ?r2 = "fst (node_stop api lib' ?r1)"
  have p1: "p2p_sub (rt_p2p ?r1)" "p2p_host (rt_p2p ?r1) \<noteq> None" "p2p_server (rt_p2p ?r1)" "loop_alive ?r1"
    "rt_chain ?r1 = rt_chain r" using p(2) by (simp_all add: start p2p_online_def)
  have stop: "rt_p2p ?r2 = (rt_p2p ?r1)\<lparr>listeners := 0, p2p_closed := True\<rparr>" "loop_alive ?r2" "rt_cancelled ?r2"
    "snd (node_stop api lib' ?r1) = snd (api_close api (chain_storage (rt_chain r)))"
    using p1 by (simp_all add: node_stop_def runtime_stop_def stop_services_def p2p_service_def p2p_stop_def Let_def split: prod.splits)
  have "p2p_host (rt_p2p ?r2) \<noteq> None" using p1(2) by (simp add: stop)
  note again = node_start_again [OF this, of lib'']
  have "deaf ?r2" "deaf (fst (node_start lib'' ?r2))" by (simp_all add: deaf_def stop again)
  with deaf_run have silent: "loop_run d ?r2 evs r' \<or> loop_run d (fst (node_start lib'' ?r2)) evs r' \<Longrightarrow> Gossip s m \<notin> set evs" for evs r' s m
    by blast
  have up: "snd (node_start lib r) = None" "p2p_online (rt_p2p ?r1)" using p(2) by (simp_all add: start p2p_online_def)
  have down: "p2p_closed (rt_p2p ?r2)" "snd (node_start lib'' ?r2) = None" "loop_alive (fst (node_start lib'' ?r2))"
    by (simp_all add: stop(1) again)
  show ?thesis
    unfolding Let_def by (intro conjI allI impI up p1(4) down stop(4) silent loop_step.loop_exit stop(2,3))
qed

section \<open>The counters of the process\<close>

definition failed_turns :: "loop_event list \<Rightarrow> nat" where
  "failed_turns evs = length (filter (\<lambda>ev. case ev of MiningStopped _ \<Rightarrow> True | _ \<Rightarrow> False) evs)"

lemma handlers_count:
  "handle_tx decode p meth body = (p', Reply code msg) \<Longrightarrow>
     txs_processed p' = txs_processed p + (if code = 202 then (case decode body of Inl _ \<Rightarrow> 0 | Inr tx \<Rightarrow> 1) else 0)"
  "handle_block decode' p meth body = (p', reply) \<Longrightarrow> txs_processed p' = txs_processed p"
  "listen_gossip decode' p sender body = Some p' \<Longrightarrow> txs_processed p' = txs_processed p"
  by (auto simp: handle_tx_def handle_block_def listen_gossip_def http_error_def Let_def split: if_splits sum.splits option.splits)

lemma apply_block_counters [simp]:
  "blocks_mined (apply_block d b r) = blocks_mined r" "blocks_failed (apply_block d b r) = blocks_failed r"
  "waiting_handlers (apply_block d b r) = waiting_handlers r"
  "blocks_mined (seal_block d b r) = blocks_mined r + 1" "blocks_failed (seal_block d b r) = blocks_failed r"
  "waiting_handlers (seal_block d b r) = waiting_handlers r"
  by (simp_all add: apply_block_def seal_block_def Let_def)

lemma counters_step:
  assumes "loop_step d r ev r'"
  shows "txs_processed (rt_p2p r') + length (waiting_handlers r) =
       txs_processed (rt_p2p r) + length (waiting_handlers r') + length (accepted_txs d [ev])"
    and "blocks_mined r' = blocks_mined r + length (mined_blocks [ev])"
    and "blocks_failed r' = blocks_failed r + failed_turns [ev]"
  using assms
  by (induction rule: loop_step.induct)
     (auto simp: accepted_txs_def mined_blocks_def failed_turns_def broadcast_life dest: handlers_count handle_tx_waits split: sum.split)

text \<open>
  C24: What the counters of the process mean, over any run of the node: transactions processed are
  those answered with 202 and those whose handler still waits; blocks mined and blocks failed are
  the turns of the loop that sealed a block and those that were interrupted.
\<close>

theorem counters_match_run:
  assumes "loop_run d r evs r'"
  shows "txs_processed (rt_p2p r') + length (waiting_handlers r) =
       txs_processed (rt_p2p r) + length (waiting_handlers r') + length (accepted_txs d evs) \<and>
     blocks_mined r' = blocks_mined r + length (mined_blocks evs) \<and> blocks_failed r' = blocks_failed r + failed_turns evs"
  using assms
proof (induction rule: loop_run.induct)
  case (run_nil r)
  then show ?case by (simp add: accepted_txs_def mined_blocks_def failed_turns_def)
next
  case (run_cons r ev r' evs r'')
  have "failed_turns (ev # evs) = failed_turns [ev] + failed_turns evs" by (simp add: failed_turns_def)
  then show ?case
    using counters_step [OF run_cons.hyps(1)] run_cons.IH
    unfolding event_lists_Cons(1) [of ev evs] event_lists_Cons(2) [of d ev evs] by simp
qed

section \<open>Sample nodes\<close>

definition sample_new_runtime :: "memory_storage runtime" where
  "sample_new_runtime = sample_runtime\<lparr>pending_txs := [], loop_alive := False\<rparr>"

lemma sample_new_runtime:
  "new_runtime (Inr \<lparr>cfg_node_id = ''n'', cfg_port = 8080, cfg_algorithm = ''pow'', cfg_difficulty = 0, cfg_backend = ''memory'',
     cfg_path = [], cfg_peers = []\<rparr>) (\<lambda>_. Inl (NewError [])) new_memory_storage = Inr sample_new_runtime"
  by (simp add: new_runtime_def sample_new_runtime_def sample_runtime_def)


theorem node_start_and_stop_witness:
  "loop_alive (fst (node_start (sample_lib None) sample_new_runtime)) \<and>
   p2p_closed (rt_p2p (fst (node_stop memory_api (sample_lib None) (fst (node_start (sample_lib None) sample_new_runtime)))))"
proof -
  have "lib_works (sample_lib None) (p2p_port (rt_p2p sample_new_runtime))" by (simp add: lib_works_def sample_lib_def)
  from node_start_and_stop [OF sample_new_runtime this, of memory_api "sample_lib None" "sample_lib None"] show ?thesis
    by (simp add: Let_def)
qed

theorem counters_match_run_witness:
  "\<exists>b r'. loop_run sample_runtime_deps sample_runtime [HttpTx ''POST'' ''tx'' 202, Mined b] r' \<and>
     txs_processed (rt_p2p r') = 1 + length (waiting_handlers r') \<and> blocks_mined r' = 1"
proof -
  obtain b r' where run: "loop_run sample_runtime_deps sample_runtime [HttpTx ''POST'' ''tx'' 202, Mined b] r'"
    using sample_http_run by blast
  from counters_match_run [OF run] have "txs_processed (rt_p2p r') = 1 + length (waiting_handlers r') \<and> blocks_mined r' = 1"
    by (simp add: mined_blocks_def accepted_txs_def sample_runtime_def sample_runtime_deps_def new_p2p_node_def)
  with run show ?thesis by blast
qed

end
