(* ===== verification/Services.thy ===== *)
theory Services
  imports NodeLifecycle RaftEngine
begin

text \<open>
  The services of the program as the runtime and the registry see them, through the \<^verbatim>\<open>Service\<close>
  interface: the in-memory storage, the network node and the Raft engine, side by side in one
  world, started and stopped by the runtime's loops and asked for their health by the registry.
\<close>

section \<open>The services\<close>

definition memory_service :: "memory_storage service" where
  "memory_service = \<lparr>svc_name = ''Storage-InMemory'', svc_init = (\<lambda>m. (m, None)), svc_start = (\<lambda>m. (m, None)),
     svc_stop = (\<lambda>m. (m, None)), svc_health = (\<lambda>m. None)\<rparr>"

text \<open>The random draw of \<^verbatim>\<open>Start\<close> is an argument; the goroutine it launches is the loop of the Raft model.\<close>

definition raft_service :: "int \<Rightarrow> string \<Rightarrow> 'st raft service" where
  "raft_service draw nid = \<lparr>svc_name = ''Consensus-Raft-'' @ nid, svc_init = (\<lambda>re. (re, None)), svc_start = (\<lambda>re. (raft_start draw re, None)),
     svc_stop = (\<lambda>re. (raft_stop re, None)), svc_health = (\<lambda>re. None)\<rparr>"

text \<open>
  \<^verbatim>\<open>Health\<close> of the storage reports a nil map, which no operation leaves behind: the constructor and
  \<^verbatim>\<open>Close\<close> make a map, the other operations keep it.
\<close>

record node_world =
  nw_memory :: memory_storage
  nw_p2p :: p2p_node
  nw_raft :: "memory_storage raft"

definition lift_service :: "('w \<Rightarrow> 'a) \<Rightarrow> (('a \<Rightarrow> 'a) \<Rightarrow> 'w \<Rightarrow> 'w) \<Rightarrow> 'a service \<Rightarrow> 'w service" where
  "lift_service get upd svc = \<lparr>svc_name = svc_name svc,
     svc_init = (\<lambda>w. case svc_init svc (get w) of (a, err) \<Rightarrow> (upd (\<lambda>_. a) w, err)),
     svc_start = (\<lambda>w. case svc_start svc (get w) of (a, err) \<Rightarrow> (upd (\<lambda>_. a) w, err)),
     svc_stop = (\<lambda>w. case svc_stop svc (get w) of (a, err) \<Rightarrow> (upd (\<lambda>_. a) w, err)),
     svc_health = (\<lambda>w. svc_health svc (get w))\<rparr>"

definition node_services :: "p2p_lib \<Rightarrow> int \<Rightarrow> string \<Rightarrow> node_world service list" where
  "node_services lib draw nid = [lift_service nw_memory nw_memory_update memory_service,
     lift_service nw_p2p nw_p2p_update (p2p_service lib), lift_service nw_raft nw_raft_update (raft_service draw nid)]"

definition registered :: "'w service list \<Rightarrow> 'w service_registry" where
  "registered svcs = register_all register_service new_service_registry svcs"

lemma start_node_services:
  assumes "snd (p2p_init lib (nw_p2p w)) = None"
  shows "start_services (node_services lib draw nid) w =
     (w\<lparr>nw_p2p := (fst (p2p_init lib (nw_p2p w)))\<lparr>p2p_server := True\<rparr>, nw_raft := raft_start draw (nw_raft w)\<rparr>, None)"
proof -
  obtain p where p: "p2p_init lib (nw_p2p w) = (p, None)" using assms by (cases "p2p_init lib (nw_p2p w)") simp
  then have "p2p_host p \<noteq> None" by (auto simp: p2p_init_def Let_def split: if_splits sum.splits option.splits)
  then have "p2p_start lib p = (p\<lparr>p2p_server := True\<rparr>, None)" by (simp add: p2p_start_def p2p_init_again)
  with p show ?thesis by (simp add: node_services_def lift_service_def memory_service_def p2p_service_def raft_service_def)
qed

lemma stop_node_services:
  "fst (stop_services (node_services lib draw nid) w) =
     w\<lparr>nw_raft := raft_stop (nw_raft w), nw_p2p := fst (p2p_stop lib (nw_p2p w))\<rparr>"
  by (simp add: stop_services_def node_services_def lift_service_def memory_service_def p2p_service_def raft_service_def split: prod.split)

lemma registered_lookup: "services (registered svcs) n = find (\<lambda>svc. svc_name svc = n) svcs"
  using registry.lookup_register_all [of new_service_registry svcs n]
  by (simp add: registered_def get_service_def new_service_registry_def option.map_ident)

lemma health_of_node:
  "health_check_all w (registered (node_services lib draw nid)) =
     [''Storage-InMemory'' \<mapsto> None, ''Networking-LibP2P'' \<mapsto> p2p_health lib (nw_p2p w), ''Consensus-Raft-'' @ nid \<mapsto> None]"
  by (rule ext) (simp add: health_check_all_def registered_lookup node_services_def lift_service_def memory_service_def p2p_service_def
      raft_service_def)

definition new_world :: "memory_storage raft \<Rightarrow> int \<Rightarrow> string list \<Rightarrow> node_world" where
  "new_world re port ps = \<lparr>nw_memory = new_memory_storage, nw_p2p = new_p2p_node port ps, nw_raft = re\<rparr>"

text \<open>
  The health map of a node says little about it: before the start it reports the network node only;
  after a start with a working library nothing is reported, the node is online and its election
  timer runs; and after all services have been stopped, host closed, timer stopped, it still
  reports nothing, as long as the closed host lists an address.
\<close>

theorem health_of_stopped_node:
  assumes "lib_works lib port" and "0 < lib_addrs lib"
  shows "let svcs = node_services lib draw nid; w0 = new_world re port ps;
       w1 = fst (start_services svcs w0); w2 = fst (stop_services svcs w1); report = (\<lambda>w. health_check_all w (registered svcs))
     in snd (start_services svcs w0) = None \<and> report w0 ''Networking-LibP2P'' = Some (Some (NewError ''libp2p host unhealthy'')) \<and>
        p2p_online (nw_p2p w1) \<and> map_option tm_active (election_timer (nw_raft w1)) = Some True \<and>
        p2p_closed (nw_p2p w2) \<and> listeners (nw_p2p w2) = 0 \<and> stop_closed (nw_raft w2) \<and>
        map_option tm_active (election_timer (nw_raft w2)) = Some False \<and>
        report w1 = report w2 \<and> ran (report w2) = {None}"
proof -
  let ?idle = "new_world re port ps" and ?fresh = "new_p2p_node port ps"
  let ?p = "fst (p2p_init lib ?fresh)"
  have idle: "nw_p2p ?idle = ?fresh" "nw_raft ?idle = re" by (simp_all add: new_world_def)
  have p: "snd (p2p_init lib ?fresh) = None" "p2p_online ?p"
    using assms(1) by (auto simp: p2p_init_def lib_works_def p2p_online_def new_p2p_node_def Let_def)
  have start: "start_services (node_services lib draw nid) ?idle =
      (?idle\<lparr>nw_p2p := ?p\<lparr>p2p_server := True\<rparr>, nw_raft := raft_start draw re\<rparr>, None)"
    using start_node_services [of lib ?idle draw nid, unfolded idle, OF p(1)] .
  let ?running = "?idle\<lparr>nw_p2p := ?p\<lparr>p2p_server := True\<rparr>, nw_raft := raft_start draw re\<rparr>"
  have stopped: "fst (p2p_stop lib (?p\<lparr>p2p_server := True\<rparr>)) = ?p\<lparr>p2p_server := True, listeners := 0, p2p_closed := True\<rparr>"
    using p(2) by (simp add: p2p_stop_def p2p_online_def)
  have host: "p2p_host ?p \<noteq> None" using p(2) by (simp add: p2p_online_def)
  have health: "p2p_health lib ?fresh = Some (NewError ''libp2p host unhealthy'')"
    "p2p_health lib (?p\<lparr>p2p_server := True\<rparr>) = None"
    "p2p_health lib (?p\<lparr>p2p_server := True, listeners := 0, p2p_closed := True\<rparr>) = None"
    using host assms(2) by (simp_all add: p2p_health_def new_p2p_node_def)
  have all_fine: "ran [a \<mapsto> None, b \<mapsto> None, c \<mapsto> None] = {None}" for a b c :: string
    by (auto simp: ran_def split: if_splits)
  show ?thesis
    using p(2)
    by (simp add: Let_def start stop_node_services health_of_node idle stopped health all_fine p2p_online_def raft_start_def
        raft_stop_def timer_stop_def)
qed

theorem health_of_stopped_node_witness:
  "\<forall>re. ran (health_check_all (fst (stop_services (node_services (sample_lib None) 0 ''n1'')
      (fst (start_services (node_services (sample_lib None) 0 ''n1'') (new_world re 8080 [])))))
    (registered (node_services (sample_lib None) 0 ''n1''))) = {None}"
proof
  fix re
  have "lib_works (sample_lib None) 8080" "0 < lib_addrs (sample_lib None)" by (simp_all add: lib_works_def sample_lib_def)
  from health_of_stopped_node [OF this, of 0 "''n1''" re "[]"]
  show "ran (health_check_all (fst (stop_services (node_services (sample_lib None) 0 ''n1'')
      (fst (start_services (node_services (sample_lib None) 0 ''n1'') (new_world re 8080 [])))))
    (registered (node_services (sample_lib None) 0 ''n1''))) = {None}" by (simp add: Let_def)
qed

end
