(* ===== verification/AppCodecs.thy ===== *)
theory AppCodecs
  imports JsonCodec KvStore DistConfig DistLock DistQueue ExecutionEngine Registries MetadataService
begin

text \<open>
  The JSON form of the payloads that the state machines decode: one field table per struct with
  its tags, its decoder, the encoding \<^verbatim>\<open>json.Marshal\<close> gives a client, and the interpretation of
  \<open>json_codec\<close>: a payload of valid UTF-8 text comes back as it was sent. The decoders instantiate
  the argument \<open>unmarshal\<close> of the state machines.
\<close>

section \<open>Key-value store\<close>

definition kv_fields :: "kv_payload field_table" where
  "kv_fields = [(''op'', field dec_string kvp_op kvp_op_update), (''key'', field dec_string kvp_key kvp_key_update),
     (''value'', field dec_bytes kvp_value kvp_value_update)]"

definition kv_zero :: kv_payload where "kv_zero = \<lparr>kvp_op = [], kvp_key = [], kvp_value = []\<rparr>"

definition kv_unmarshal :: "bytes \<Rightarrow> kv_payload result" where
  "kv_unmarshal = json_unmarshal (dec_struct kv_fields) kv_zero"

definition enc_kv :: "kv_payload \<Rightarrow> json" where
  "enc_kv p = JObj ([(''op'', jstr (kvp_op p)), (''key'', jstr (kvp_key p))]
     @ omit_empty ''value'' (enc_bytes False (kvp_value p)) (kvp_value p))"

definition kv_good :: "kv_payload \<Rightarrow> bool" where
  "kv_good p \<longleftrightarrow> valid_text (kvp_op p) \<and> valid_text (kvp_key p)"

interpretation kv_codec: json_codec enc_kv "dec_struct kv_fields" kv_zero kv_good
proof
  fix p assume "kv_good p"
  then have v: "valid_text (kvp_op p)" "valid_text (kvp_key p)" by (simp_all add: kv_good_def)
  show "numbers_ok (enc_kv p)" by (simp add: enc_kv_def omit_empty_def codec)
  show "height (enc_kv p) \<le> max_nesting" by (simp add: enc_kv_def omit_empty_def codec max_nesting_def)
  show "dec_struct kv_fields (sanitize_json (enc_kv p)) kv_zero = Some p"
    by (cases "kvp_value p = []") (simp_all add: enc_kv_def omit_empty_def kv_fields_def kv_zero_def codec v)
qed

section \<open>Configuration service\<close>

definition config_fields :: "config_payload field_table" where
  "config_fields = [(''action'', field dec_string cfp_action cfp_action_update),
     (''namespace'', field dec_string cfp_namespace cfp_namespace_update),
     (''key'', field dec_string cfp_key cfp_key_update), (''value'', field dec_string cfp_value cfp_value_update)]"

definition config_zero :: config_payload where
  "config_zero = \<lparr>cfp_action = [], cfp_namespace = [], cfp_key = [], cfp_value = []\<rparr>"

definition config_unmarshal :: "bytes \<Rightarrow> config_payload result" where
  "config_unmarshal = json_unmarshal (dec_struct config_fields) config_zero"

definition enc_config :: "config_payload \<Rightarrow> json" where
  "enc_config p = JObj ([(''action'', jstr (cfp_action p)), (''namespace'', jstr (cfp_namespace p)), (''key'', jstr (cfp_key p))]
     @ omit_empty ''value'' (jstr (cfp_value p)) (cfp_value p))"

definition config_good :: "config_payload \<Rightarrow> bool" where
  "config_good p \<longleftrightarrow> valid_text (cfp_action p) \<and> valid_text (cfp_namespace p) \<and> valid_text (cfp_key p) \<and> valid_text (cfp_value p)"

interpretation config_codec: json_codec enc_config "dec_struct config_fields" config_zero config_good
proof
  fix p assume "config_good p"
  then have v: "valid_text (cfp_action p)" "valid_text (cfp_namespace p)" "valid_text (cfp_key p)" "valid_text (cfp_value p)"
    by (simp_all add: config_good_def)
  show "numbers_ok (enc_config p)" by (simp add: enc_config_def omit_empty_def codec)
  show "height (enc_config p) \<le> max_nesting" by (simp add: enc_config_def omit_empty_def codec max_nesting_def)
  show "dec_struct config_fields (sanitize_json (enc_config p)) config_zero = Some p"
    by (cases "cfp_value p = []") (simp_all add: enc_config_def omit_empty_def config_fields_def config_zero_def codec v)
qed

section \<open>Lock service\<close>

definition lock_fields :: "lock_payload field_table" where
  "lock_fields = [(''action'', field dec_string lkp_action lkp_action_update),
     (''resource'', field dec_string lkp_resource lkp_resource_update),
     (''holder'', field dec_string lkp_holder lkp_holder_update), (''ttl_ms'', field dec_int lkp_ttl_ms lkp_ttl_ms_update)]"

definition lock_zero :: lock_payload where
  "lock_zero = \<lparr>lkp_action = [], lkp_resource = [], lkp_holder = [], lkp_ttl_ms = 0\<rparr>"

definition lock_unmarshal :: "bytes \<Rightarrow> lock_payload result" where
  "lock_unmarshal = json_unmarshal (dec_struct lock_fields) lock_zero"

definition enc_lock :: "lock_payload \<Rightarrow> json" where
  "enc_lock p = JObj [(''action'', jstr (lkp_action p)), (''resource'', jstr (lkp_resource p)), (''holder'', jstr (lkp_holder p)),
     (''ttl_ms'', enc_int (lkp_ttl_ms p))]"

definition lock_good :: "lock_payload \<Rightarrow> bool" where
  "lock_good p \<longleftrightarrow> valid_text (lkp_action p) \<and> valid_text (lkp_resource p) \<and> valid_text (lkp_holder p) \<and> in_int64 (lkp_ttl_ms p)"

interpretation lock_codec: json_codec enc_lock "dec_struct lock_fields" lock_zero lock_good
proof
  fix p assume "lock_good p"
  then have v: "valid_text (lkp_action p)" "valid_text (lkp_resource p)" "valid_text (lkp_holder p)" "in_int64 (lkp_ttl_ms p)"
    by (simp_all add: lock_good_def)
  show "numbers_ok (enc_lock p)" by (simp add: enc_lock_def codec)
  show "height (enc_lock p) \<le> max_nesting" by (simp add: enc_lock_def codec max_nesting_def)
  show "dec_struct lock_fields (sanitize_json (enc_lock p)) lock_zero = Some p"
    by (simp add: enc_lock_def lock_fields_def lock_zero_def codec v)
qed

section \<open>Queue service\<close>

definition queue_fields :: "queue_payload field_table" where
  "queue_fields = [(''action'', field dec_string qp_action qp_action_update),
     (''topic'', field dec_string qp_topic qp_topic_update), (''data'', field dec_bytes qp_data qp_data_update)]"

definition queue_zero :: queue_payload where "queue_zero = \<lparr>qp_action = [], qp_topic = [], qp_data = []\<rparr>"

definition queue_unmarshal :: "bytes \<Rightarrow> queue_payload result" where
  "queue_unmarshal = json_unmarshal (dec_struct queue_fields) queue_zero"

definition enc_queue :: "queue_payload \<Rightarrow> json" where
  "enc_queue p = JObj ([(''action'', jstr (qp_action p)), (''topic'', jstr (qp_topic p))]
     @ omit_empty ''data'' (enc_bytes False (qp_data p)) (qp_data p))"

definition queue_good :: "queue_payload \<Rightarrow> bool" where
  "queue_good p \<longleftrightarrow> valid_text (qp_action p) \<and> valid_text (qp_topic p)"

interpretation queue_codec: json_codec enc_queue "dec_struct queue_fields" queue_zero queue_good
proof
  fix p assume "queue_good p"
  then have v: "valid_text (qp_action p)" "valid_text (qp_topic p)" by (simp_all add: queue_good_def)
  show "numbers_ok (enc_queue p)" by (simp add: enc_queue_def omit_empty_def codec)
  show "height (enc_queue p) \<le> max_nesting" by (simp add: enc_queue_def omit_empty_def codec max_nesting_def)
  show "dec_struct queue_fields (sanitize_json (enc_queue p)) queue_zero = Some p"
    by (cases "qp_data p = []") (simp_all add: enc_queue_def omit_empty_def queue_fields_def queue_zero_def codec v)
qed

section \<open>Commands of the execution router\<close>

definition command_fields :: "command field_table" where
  "command_fields = [(''type'', field dec_string cmd_type cmd_type_update), (''payload'', field dec_bytes cmd_payload cmd_payload_update)]"

definition command_zero :: command where "command_zero = \<lparr>cmd_type = [], cmd_payload = []\<rparr>"

definition command_unmarshal :: "bytes \<Rightarrow> command result" where
  "command_unmarshal = json_unmarshal (dec_struct command_fields) command_zero"

definition enc_command :: "bool \<Rightarrow> command \<Rightarrow> json" where
  "enc_command nil c = JObj [(''type'', jstr (cmd_type c)), (''payload'', enc_bytes nil (cmd_payload c))]"

definition command_good :: "command \<Rightarrow> bool" where "command_good c \<longleftrightarrow> valid_text (cmd_type c)"

interpretation command_codec: json_codec "enc_command nil" "dec_struct command_fields" command_zero command_good for nil
proof
  fix c assume "command_good c"
  then have v: "valid_text (cmd_type c)" by (simp add: command_good_def)
  show "numbers_ok (enc_command nil c)" by (simp add: enc_command_def codec)
  show "height (enc_command nil c) \<le> max_nesting" by (simp add: enc_command_def codec max_nesting_def)
  show "dec_struct command_fields (sanitize_json (enc_command nil c)) command_zero = Some c"
    by (simp add: enc_command_def command_fields_def command_zero_def codec v)
qed

section \<open>Assets\<close>

definition rwa_fields :: "rwa_state_transition field_table" where
  "rwa_fields = [(''asset_id'', field dec_string rwa_asset_id rwa_asset_id_update),
     (''total_shares'', field dec_uint rwa_total_shares rwa_total_shares_update),
     (''issuer_pub_key'', field dec_string rwa_issuer rwa_issuer_update)]"

definition rwa_zero :: rwa_state_transition where "rwa_zero = \<lparr>rwa_asset_id = [], rwa_total_shares = 0, rwa_issuer = []\<rparr>"

definition rwa_unmarshal :: "bytes \<Rightarrow> rwa_state_transition result" where
  "rwa_unmarshal = json_unmarshal (dec_struct rwa_fields) rwa_zero"

definition enc_rwa :: "rwa_state_transition \<Rightarrow> json" where
  "enc_rwa t = JObj [(''asset_id'', jstr (rwa_asset_id t)), (''total_shares'', enc_uint (rwa_total_shares t)),
     (''issuer_pub_key'', jstr (rwa_issuer t))]"

definition rwa_good :: "rwa_state_transition \<Rightarrow> bool" where
  "rwa_good t \<longleftrightarrow> valid_text (rwa_asset_id t) \<and> valid_text (rwa_issuer t)"

interpretation rwa_codec: json_codec enc_rwa "dec_struct rwa_fields" rwa_zero rwa_good
proof
  fix t assume "rwa_good t"
  then have v: "valid_text (rwa_asset_id t)" "valid_text (rwa_issuer t)" by (simp_all add: rwa_good_def)
  show "numbers_ok (enc_rwa t)" by (simp add: enc_rwa_def codec)
  show "height (enc_rwa t) \<le> max_nesting" by (simp add: enc_rwa_def codec max_nesting_def)
  show "dec_struct rwa_fields (sanitize_json (enc_rwa t)) rwa_zero = Some t"
    by (simp add: enc_rwa_def rwa_fields_def rwa_zero_def codec v)
qed

section \<open>Metadata service\<close>

definition metadata_fields :: "metadata_payload field_table" where
  "metadata_fields = [(''action'', field dec_string mdp_action mdp_action_update),
     (''object_id'', field dec_string mdp_object_id mdp_object_id_update),
     (''metadata'', field dec_string_map mdp_metadata mdp_metadata_update)]"

definition metadata_zero :: metadata_payload where
  "metadata_zero = \<lparr>mdp_action = [], mdp_object_id = [], mdp_metadata = Map.empty\<rparr>"

definition metadata_unmarshal :: "bytes \<Rightarrow> metadata_payload result" where
  "metadata_unmarshal = json_unmarshal (dec_struct metadata_fields) metadata_zero"

text \<open>The keys of a map are written in order.\<close>

definition enc_string_map :: "(string \<rightharpoonup> string) \<Rightarrow> json" where
  "enc_string_map m = JObj (map (\<lambda>k. (k, jstr (the (m k)))) (sorted_list_of_set (dom m)))"

definition enc_metadata :: "metadata_payload \<Rightarrow> json" where
  "enc_metadata p = JObj [(''action'', jstr (mdp_action p)), (''object_id'', jstr (mdp_object_id p)),
     (''metadata'', enc_string_map (mdp_metadata p))]"

definition metadata_good :: "metadata_payload \<Rightarrow> bool" where
  "metadata_good p \<longleftrightarrow> valid_text (mdp_action p) \<and> valid_text (mdp_object_id p) \<and> finite (dom (mdp_metadata p)) \<and>
     (\<forall>k v. mdp_metadata p k = Some v \<longrightarrow> valid_text k \<and> valid_text v)"

lemma dec_entries_enc:
  assumes "\<forall>k \<in> set ks. \<exists>v. m k = Some v \<and> valid_text k \<and> valid_text v"
  shows "dec_entries (map (\<lambda>k. (sanitize k, JStr (escapes (the (m k))) (sanitize (the (m k))))) ks) old = Some (\<lambda>k. if k \<in> set ks then m k else old k)"
  using assms
proof (induction ks arbitrary: old)
  case (Cons k ks)
  then obtain v where v: "m k = Some v" "sanitize k = k" "sanitize v = v" by (auto simp: valid_text_def)
  then show ?case using Cons by (auto simp: dec_string_def fun_eq_iff)
qed simp

lemma height_flat_object: "height (JObj (map (\<lambda>k. (k, jstr (f k))) ks)) = 1"
proof -
  have "foldr (\<lambda>m n. max (height (snd m)) n) (map (\<lambda>k. (k, jstr (f k))) ks) 0 = 0" by (induction ks) simp_all
  then show ?thesis by simp
qed

interpretation metadata_codec: json_codec enc_metadata "dec_struct metadata_fields" metadata_zero metadata_good
proof
  fix p assume good: "metadata_good p"
  then have v: "valid_text (mdp_action p)" "valid_text (mdp_object_id p)" by (simp_all add: metadata_good_def)
  let ?ks = "sorted_list_of_set (dom (mdp_metadata p))"
  have ks: "set ?ks = dom (mdp_metadata p)" using good by (simp add: metadata_good_def)
  have "(\<lambda>k. if k \<in> set ?ks then mdp_metadata p k else None) = mdp_metadata p"
    unfolding ks by (auto simp: fun_eq_iff domIff)
  moreover have "\<forall>k \<in> set ?ks. \<exists>v. mdp_metadata p k = Some v \<and> valid_text k \<and> valid_text v"
    unfolding ks using good by (auto simp: metadata_good_def)
  ultimately have m: "dec_string_map (sanitize_json (enc_string_map (mdp_metadata p))) Map.empty = Some (mdp_metadata p)"
    using dec_entries_enc [of ?ks "mdp_metadata p" Map.empty] by (simp add: enc_string_map_def dec_string_map_def comp_def)
  show "numbers_ok (enc_metadata p)" by (simp add: enc_metadata_def enc_string_map_def codec)
  have "height (enc_string_map (mdp_metadata p)) = 1" unfolding enc_string_map_def by (rule height_flat_object)
  then show "height (enc_metadata p) \<le> max_nesting" by (simp add: enc_metadata_def codec max_nesting_def)
  show "dec_struct metadata_fields (sanitize_json (enc_metadata p)) metadata_zero = Some p"
    by (simp add: enc_metadata_def metadata_fields_def metadata_zero_def codec v m)
qed

section \<open>Commands as bytes\<close>

text \<open>
  From the client's bytes to the reader: when a client marshals a put of valid text, compact or
  indented, the store that applies these bytes answers with a root, and both its map and the
  in-memory storage then hold the value under the key, whatever bytes the value consists of.
\<close>

theorem put_bytes_are_readable:
  assumes "kv_good p" and "kvp_op p = op_put" and "c = json_print (enc_kv p) \<or> c = json_print_indent (enc_kv p)"
  shows "\<exists>root. snd (kv_apply memory_api kv_unmarshal ord kv c) = Inr root \<and>
     kv_get (fst (kv_apply memory_api kv_unmarshal ord kv c)) (kvp_key p) = Some (kvp_value p) \<and>
     memory_get (kv_storage (fst (kv_apply memory_api kv_unmarshal ord kv c))) (kvp_key p) = Inr (kvp_value p)"
proof -
  have "kv_unmarshal c = Inr p"
    using kv_codec.unmarshal_marshal [OF assms(1)] kv_codec.unmarshal_marshal_indent [OF assms(1)] assms(3)
    by (auto simp: kv_unmarshal_def)
  then show ?thesis
    using assms(2) by (simp add: kv_apply_def kv_recalculate_root_def memory_put_def memory_get_def kv_get_def Let_def)
qed

theorem put_bytes_are_readable_witness:
  "kv_get (fst (kv_apply memory_api kv_unmarshal [''k''] (new_kv_state new_memory_storage)
     (json_print (enc_kv \<lparr>kvp_op = ''PUT'', kvp_key = ''k'', kvp_value = [CHR 0xFF]\<rparr>)))) ''k'' = Some [CHR 0xFF]"
proof -
  let ?p = "\<lparr>kvp_op = ''PUT'', kvp_key = ''k'', kvp_value = [CHR 0xFF]\<rparr>"
  have "kv_good ?p" "kvp_op ?p = op_put" by (simp_all add: kv_good_def op_put_def)
  from put_bytes_are_readable [OF this disjI1, OF refl] show ?thesis by fastforce
qed

text \<open>
  The payload null is taken for an asset: it decodes to the zero transition without an error, so
  that a fresh ledger issues the asset with the empty name and no shares, once.
\<close>

theorem ledger_issues_null_asset:
  "ledger_execute rwa_unmarshal new_ledger ''null'' = (\<lparr>assets = [[] \<mapsto> 0]\<rparr>, None) \<and>
   snd (ledger_execute rwa_unmarshal \<lparr>assets = [[] \<mapsto> 0]\<rparr> ''null'') \<noteq> None"
proof -
  have "json_print JNull = ''null''" by (simp add: json_print_def)
  then have "json_parse ''null'' = Some JNull" using parse_print [of JNull] by simp
  then have "rwa_unmarshal ''null'' = Inr rwa_zero" by (simp add: rwa_unmarshal_def json_unmarshal_def dec_struct_def)
  then show ?thesis by (simp add: ledger_execute_def new_ledger_def rwa_zero_def)
qed

end
