(* ===== verification/GoTime.thy ===== *)
theory GoTime
  imports Json "HOL-Library.Monad_Syntax"
begin

text \<open>
  Instants as the standard library writes and reads them. An instant is a number of nanoseconds
  since the Unix epoch. The first part is the calendar: the day of an instant and the instant of
  a day. The second writes an instant in UTC as RFC 3339 text, with and without a fraction, and
  reads it with \<^verbatim>\<open>time.Parse\<close>, which \<^verbatim>\<open>encoding/json\<close> uses.
\<close>

section \<open>The calendar\<close>

definition leap :: "int \<Rightarrow> bool" where
  "leap y \<longleftrightarrow> y mod 4 = 0 \<and> (y mod 100 \<noteq> 0 \<or> y mod 400 = 0)"

text \<open>Days from the first of January of year 1 to that of year \<open>y\<close>.\<close>

definition days_before_year :: "int \<Rightarrow> int" where
  "days_before_year y = 365 * (y - 1) + (y - 1) div 4 - (y - 1) div 100 + (y - 1) div 400"

definition month_lengths :: "int \<Rightarrow> int list" where
  "month_lengths y = [31, if leap y then 29 else 28, 31, 30, 31, 30, 31, 31, 30, 31, 30, 31]"

definition day_number :: "int \<times> nat \<times> int \<Rightarrow> int" where
  "day_number c = (case c of (y, m, d) \<Rightarrow> days_before_year y + sum_list (take (m - 1) (month_lengths y)) + (d - 1))"

definition year_of_day :: "int \<Rightarrow> int" where
  "year_of_day n = (let y = 400 * n div 146097 + 1
     in if days_before_year (y + 1) \<le> n then y + 1 else if n < days_before_year y then y - 1 else y)"

fun split_months :: "int list \<Rightarrow> int \<Rightarrow> nat \<times> int" where
  "split_months [] d = (0, d)"
| "split_months (l # ls) d = (if d < l then (0, d) else case split_months ls (d - l) of (m, r) \<Rightarrow> (Suc m, r))"

definition civil_of_day :: "int \<Rightarrow> int \<times> nat \<times> int" where
  "civil_of_day n = (let y = year_of_day n
     in case split_months (month_lengths y) (n - days_before_year y) of (m, d) \<Rightarrow> (y, Suc m, d + 1))"

lemma quotient_bounds: "0 < k \<Longrightarrow> k * (z div k) \<le> z \<and> z \<le> k * (z div k) + (k - 1)" for z k :: int
  using mult_div_mod_eq [of k z] pos_mod_sign [of k z] pos_mod_bound [of k z] by linarith

lemma days_before_year_bounds:
  "146097 * (y - 1) - 800 \<le> 400 * days_before_year y" "400 * days_before_year y \<le> 146097 * (y - 1) + 400"
  using quotient_bounds [of 4 "y - 1"] quotient_bounds [of 100 "y - 1"] quotient_bounds [of 400 "y - 1"]
  by (simp_all add: days_before_year_def)

lemma year_of_day: "days_before_year (year_of_day n) \<le> n \<and> n < days_before_year (year_of_day n + 1)"
proof -
  define y where "y = 400 * n div 146097 + 1"
  have n: "146097 * (y - 1) \<le> 400 * n" "400 * n < 146097 * y"
    using quotient_bounds [of 146097 "400 * n"] by (simp_all add: y_def)
  have "n < days_before_year (y + 2)" using days_before_year_bounds(1) [of "y + 2"] n by simp
  then have "n < days_before_year (y + 1 + 1)" by (simp add: add.assoc)
  moreover have "days_before_year (y - 1) \<le> n" using days_before_year_bounds(2) [of "y - 1"] n by simp
  ultimately show ?thesis by (simp add: year_of_day_def Let_def y_def [symmetric])
qed

lemma days_before_year_mono: "y \<le> y' \<Longrightarrow> days_before_year y \<le> days_before_year y'"
  using days_before_year_bounds(2) [of y] days_before_year_bounds(1) [of y'] by (cases "y = y'") simp_all

lemma year_of_day_unique: "days_before_year y \<le> n \<Longrightarrow> n < days_before_year (y + 1) \<Longrightarrow> year_of_day n = y"
  using year_of_day [of n] days_before_year_mono [of "year_of_day n + 1" y] days_before_year_mono [of "y + 1" "year_of_day n"]
  by linarith

lemma pred_div: "0 < k \<Longrightarrow> (y - 1) div k = y div k - (if y mod k = 0 then 1 else 0)" for y k :: int
proof -
  assume k: "0 < k"
  have y: "y = k * (y div k) + y mod k" and r: "0 \<le> y mod k" "y mod k < k" using k by simp_all
  show ?thesis
  proof (cases "y mod k = 0")
    case True
    with y have "y - 1 = k * (y div k - 1) + (k - 1)" by (simp add: algebra_simps)
    then have "(y - 1) div k = y div k - 1" by (rule int_div_pos_eq) (use k in simp_all)
    with True show ?thesis by simp
  next
    case False
    from y have "y - 1 = k * (y div k) + (y mod k - 1)" by simp
    then have "(y - 1) div k = y div k" by (rule int_div_pos_eq) (use r False in linarith)+
    with False show ?thesis by simp
  qed
qed

lemma mod_100_4: "y mod 400 = 0 \<Longrightarrow> y mod 100 = 0" "y mod 100 = 0 \<Longrightarrow> y mod 4 = 0" for y :: int
  by (simp_all add: mod_eq_0_iff_dvd) (auto elim: dvd_trans [rotated])

lemma year_length: "days_before_year (y + 1) - days_before_year y = sum_list (month_lengths y)"
proof -
  have m: "sum_list (month_lengths y) = 365 + (if leap y then 1 else 0)" by (simp add: month_lengths_def)
  have d: "days_before_year (y + 1) - days_before_year y =
      365 + (if y mod 4 = 0 then 1 else 0) - (if y mod 100 = 0 then 1 else 0) + (if y mod 400 = 0 then 1 else 0)"
    unfolding days_before_year_def by (simp add: pred_div)
  show ?thesis unfolding m d leap_def
    by (cases "y mod 400 = 0"; cases "y mod 100 = 0") (use mod_100_4 [of y] in simp_all)
qed

lemma split_months:
  assumes "split_months ls d = (m, r)" and "0 \<le> d" and "d < sum_list ls"
  shows "m < length ls" and "d = sum_list (take m ls) + r" and "0 \<le> r" and "r < ls ! m"
proof -
  have "m < length ls \<and> d = sum_list (take m ls) + r \<and> 0 \<le> r \<and> r < ls ! m"
    using assms
  proof (induction ls arbitrary: d m r)
    case (Cons l ls)
    show ?case
    proof (cases "d < l")
      case False
      then obtain m' where m: "m = Suc m'" "split_months ls (d - l) = (m', r)" using Cons.prems(1) by (auto split: prod.splits)
      from Cons.IH [OF m(2)] Cons.prems False m(1) show ?thesis by simp
    qed (use Cons.prems in simp)
  qed simp
  then show "m < length ls" and "d = sum_list (take m ls) + r" and "0 \<le> r" and "r < ls ! m" by auto
qed

definition valid_civil :: "int \<times> nat \<times> int \<Rightarrow> bool" where
  "valid_civil c \<longleftrightarrow> (case c of (y, m, d) \<Rightarrow> 1 \<le> m \<and> m \<le> 12 \<and> 1 \<le> d \<and> d \<le> month_lengths y ! (m - 1))"

lemma civil_of_day: "day_number (civil_of_day n) = n" "valid_civil (civil_of_day n)"
proof -
  let ?y = "year_of_day n"
  obtain m r where s: "split_months (month_lengths ?y) (n - days_before_year ?y) = (m, r)" by fastforce
  have "0 \<le> n - days_before_year ?y" "n - days_before_year ?y < sum_list (month_lengths ?y)"
    using year_of_day [of n] year_length [of ?y] by linarith+
  note parts = split_months [OF s this]
  have "length (month_lengths ?y) = 12" by (simp add: month_lengths_def)
  then have "civil_of_day n = (?y, Suc m, r + 1)" "m < 12" using parts(1) by (simp_all add: civil_of_day_def s Let_def)
  then show "day_number (civil_of_day n) = n" "valid_civil (civil_of_day n)"
    using parts by (simp_all add: day_number_def valid_civil_def)
qed

lemma split_months_inverse:
  "m < length ls \<Longrightarrow> 0 \<le> d \<Longrightarrow> d < ls ! m \<Longrightarrow> \<forall>l \<in> set ls. 0 \<le> l \<Longrightarrow> split_months ls (sum_list (take m ls) + d) = (m, d)"
proof (induction ls arbitrary: m)
  case (Cons l ls)
  show ?case
  proof (cases m)
    case (Suc m')
    moreover have "0 \<le> sum_list (take m' ls)" using Cons.prems(4) by (auto intro!: sum_list_nonneg dest: in_set_takeD)
    ultimately show ?thesis using Cons.IH [of m'] Cons.prems by (simp add: add.assoc)
  qed (use Cons.prems in simp)
qed simp

section \<open>Writing\<close>

definition nanos_per_second :: int where "nanos_per_second = 1000000000"

text \<open>Day, second of the day and nanosecond of an instant.\<close>

definition split_instant :: "int \<Rightarrow> int \<times> nat \<times> nat" where
  "split_instant t = (let s = t div nanos_per_second
     in (s div 86400 + days_before_year 1970, nat (s mod 86400), nat (t mod nanos_per_second)))"

definition join_instant :: "int \<Rightarrow> nat \<Rightarrow> nat \<Rightarrow> int" where
  "join_instant day sec ns = ((day - days_before_year 1970) * 86400 + int sec) * nanos_per_second + int ns"

lemma join_split: "split_instant t = (day, sec, ns) \<Longrightarrow> join_instant day sec ns = t \<and> sec < 86400 \<and> ns < 1000000000"
proof -
  have join: "q * 86400 + r = s \<Longrightarrow> s * n + f = t \<Longrightarrow> ((q + e - e) * 86400 + r) * n + f = t" for q r s n f e t :: int by simp
  have nat: "0 \<le> r \<Longrightarrow> r < int k \<Longrightarrow> int (nat r) = r \<and> nat r < k" for r k by simp
  assume "split_instant t = (day, sec, ns)"
  then have parts: "day = t div nanos_per_second div 86400 + days_before_year 1970" "sec = nat (t div nanos_per_second mod 86400)"
    "ns = nat (t mod nanos_per_second)" unfolding split_instant_def Let_def prod.inject by blast+
  have sec: "int sec = t div nanos_per_second mod 86400 \<and> sec < 86400" unfolding parts(2)
    by (rule nat) (simp_all only: pos_mod_sign pos_mod_bound zero_less_numeral of_nat_numeral)
  have ns: "int ns = t mod nanos_per_second \<and> ns < 1000000000" unfolding parts(3) nanos_per_second_def
    by (rule nat) (simp_all only: pos_mod_sign pos_mod_bound zero_less_numeral of_nat_numeral)
  have "join_instant day sec ns = t"
    unfolding join_instant_def parts(1) conjunct1 [OF sec] conjunct1 [OF ns] by (rule join; rule div_mult_mod_eq)
  with sec ns show ?thesis by blast
qed

text \<open>A number in a fixed width.\<close>

fun pad :: "nat \<Rightarrow> nat \<Rightarrow> string" where
  "pad 0 n = []"
| "pad (Suc w) n = pad w (n div 10) @ [digit_char (n mod 10)]"

definition trim_zeros :: "string \<Rightarrow> string" where
  "trim_zeros s = rev (dropWhile (\<lambda>c. c = CHR ''0'') (rev s))"

definition fraction :: "nat \<Rightarrow> string" where
  "fraction ns = (if ns = 0 then [] else CHR ''.'' # trim_zeros (pad 9 ns))"

definition date_text :: "int \<times> nat \<times> int \<Rightarrow> string" where
  "date_text c = (case c of (y, m, d) \<Rightarrow> pad 4 (nat y) @ ''-'' @ pad 2 m @ ''-'' @ pad 2 (nat d))"

definition clock_text :: "nat \<Rightarrow> string" where
  "clock_text sec = pad 2 (sec div 3600) @ '':'' @ pad 2 (sec div 60 mod 60) @ '':'' @ pad 2 (sec mod 60)"

text \<open>\<^verbatim>\<open>Format(time.RFC3339)\<close> of an instant of the years 0 to 9999 in UTC, and \<^verbatim>\<open>RFC3339Nano\<close>.\<close>

definition rfc3339 :: "int \<Rightarrow> string" where
  "rfc3339 t = (case split_instant t of (day, sec, ns) \<Rightarrow> date_text (civil_of_day day) @ ''T'' @ clock_text sec @ ''Z'')"

definition rfc3339_nano :: "int \<Rightarrow> string" where
  "rfc3339_nano t = (case split_instant t of (day, sec, ns) \<Rightarrow> date_text (civil_of_day day) @ ''T'' @ clock_text sec @ fraction ns @ ''Z'')"

text \<open>The same in a zone, an offset in seconds; the seconds of an offset are not written.\<close>

definition zone_text :: "int \<Rightarrow> string" where
  "zone_text off = (if off = 0 then ''Z''
     else (let z = nat \<bar>off\<bar> div 60
       in (if off \<le> - 60 then ''-'' else ''+'') @ pad 2 (z div 60) @ '':'' @ pad 2 (z mod 60)))"

definition zoned_text :: "int \<Rightarrow> int \<Rightarrow> string" where
  "zoned_text off t = (case split_instant (t + off * nanos_per_second) of
     (day, sec, ns) \<Rightarrow> date_text (civil_of_day day) @ ''T'' @ clock_text sec @ fraction ns @ zone_text off)"

definition year_in_range :: "int \<Rightarrow> bool" where
  "year_in_range t \<longleftrightarrow> (let y = year_of_day (fst (split_instant t)) in 0 \<le> y \<and> y \<le> 9999)"

lemma year_in_range_0: "year_in_range 0" "year_in_range (86400 * nanos_per_second)"
proof -
  have "year_of_day (days_before_year 1970) = 1970" "year_of_day (1 + days_before_year 1970) = 1970"
    by (rule year_of_day_unique; simp add: days_before_year_def)+
  then show "year_in_range 0" "year_in_range (86400 * nanos_per_second)"
    by (simp_all add: year_in_range_def split_instant_def nanos_per_second_def)
qed

section \<open>Reading\<close>

definition dv :: "char \<Rightarrow> nat" where "dv c = code c - 48"

text \<open>\<^verbatim>\<open>getnum\<close>: two digits, or one where the layout allows it.\<close>

definition get_num :: "bool \<Rightarrow> string \<Rightarrow> (nat \<times> string) option" where
  "get_num fixed s = (case s of
      [] \<Rightarrow> None
    | a # r \<Rightarrow> if \<not> is_digit a then None
        else (case r of b # r' \<Rightarrow> if is_digit b then Some (10 * dv a + dv b, r') else if fixed then None else Some (dv a, r)
              | [] \<Rightarrow> if fixed then None else Some (dv a, r)))"

definition get_year :: "string \<Rightarrow> (nat \<times> string) option" where
  "get_year s = (if 4 \<le> length s \<and> list_all is_digit (take 4 s) then Some (read_nat 0 (take 4 s), drop 4 s) else None)"

definition skip_char :: "char \<Rightarrow> string \<Rightarrow> string option" where
  "skip_char c s = (case s of x # r \<Rightarrow> if x = c then Some r else None | [] \<Rightarrow> None)"

text \<open>A fraction may follow the seconds; digits beyond the ninth are dropped.\<close>

definition get_fraction :: "string \<Rightarrow> nat \<times> string" where
  "get_fraction s = (case s of
      c # r \<Rightarrow> if (c = CHR ''.'' \<or> c = CHR '','') \<and> fst (digits r) \<noteq> []
        then (read_nat 0 (take 9 (fst (digits r) @ replicate 9 (CHR ''0''))), snd (digits r)) else (0, s)
    | [] \<Rightarrow> (0, s))"

text \<open>The zone in seconds east of UTC.\<close>

definition get_zone :: "string \<Rightarrow> (int \<times> string) option" where
  "get_zone s = (case s of
      [] \<Rightarrow> None
    | c # r \<Rightarrow> if c = CHR ''Z'' then Some (0, r)
        else do {
          (hh, r1) \<leftarrow> get_num True r;
          r2 \<leftarrow> skip_char (CHR '':'') r1;
          (mm, r3) \<leftarrow> get_num True r2;
          let off = int ((hh * 60 + mm) * 60);
          if hh \<le> 24 \<and> mm \<le> 60 then
            (if c = CHR ''+'' then Some (off, r3) else if c = CHR ''-'' then Some (- off, r3) else None)
          else None
        })"

text \<open>The instant and the offset of its zone.\<close>

definition parse_zoned :: "string \<Rightarrow> (int \<times> int) option" where
  "parse_zoned s = do {
     (y, s) \<leftarrow> get_year s;
     s \<leftarrow> skip_char (CHR ''-'') s;
     (m, s) \<leftarrow> get_num True s;
     s \<leftarrow> skip_char (CHR ''-'') s;
     (d, s) \<leftarrow> get_num True s;
     s \<leftarrow> skip_char (CHR ''T'') s;
     (hh, s) \<leftarrow> get_num False s;
     s \<leftarrow> skip_char (CHR '':'') s;
     (mi, s) \<leftarrow> get_num True s;
     s \<leftarrow> skip_char (CHR '':'') s;
     (ss, s) \<leftarrow> get_num True s;
     let (ns, s) = get_fraction s;
     (off, s) \<leftarrow> get_zone s;
     if s = [] \<and> valid_civil (int y, m, int d) \<and> hh < 24 \<and> mi < 60 \<and> ss < 60
     then Some (join_instant (day_number (int y, m, int d)) (hh * 3600 + mi * 60 + ss) ns - off * nanos_per_second, off)
     else None
   }"

definition parse_time :: "string \<Rightarrow> int option" where
  "parse_time s = map_option fst (parse_zoned s)"

lemma pad_plain: "length (pad w n) = w" "list_all is_digit (pad w n)"
  by (induction w arbitrary: n) (simp_all add: is_digit_def of_char_digit)

lemma read_pad: "n < 10 ^ w \<Longrightarrow> read_nat 0 (pad w n) = n"
  by (induction w arbitrary: n) (simp_all add: read_nat_snoc of_char_digit)

lemma pad2: "pad 2 n = [digit_char (n div 10 mod 10), digit_char (n mod 10)]"
  by (simp add: numeral_2_eq_2)

lemma is_digit_digit_char [simp]: "d < 10 \<Longrightarrow> is_digit (digit_char d)" "d < 10 \<Longrightarrow> dv (digit_char d) = d"
  by (simp_all add: is_digit_def of_char_digit dv_def)

lemma get_num_pad: "n < 100 \<Longrightarrow> get_num fixed (pad 2 n @ s) = Some (n, s)"
  by (simp add: get_num_def pad2)

lemma get_year_pad: "n < 10000 \<Longrightarrow> get_year (pad 4 n @ s) = Some (n, s)"
  by (simp add: get_year_def pad_plain read_pad)

lemma skip_char_Cons [simp]: "skip_char c (c # s) = Some s"
  by (simp add: skip_char_def)

lemma trim_zeros_append: "\<exists>k. s = trim_zeros s @ replicate k (CHR ''0'')"
proof -
  have "rev s = takeWhile (\<lambda>c. c = CHR ''0'') (rev s) @ dropWhile (\<lambda>c. c = CHR ''0'') (rev s)" by simp
  moreover have "takeWhile (\<lambda>c. c = CHR ''0'') (rev s) = replicate (length (takeWhile (\<lambda>c. c = CHR ''0'') (rev s))) (CHR ''0'')"
    by (rule replicate_length_same [symmetric]) (auto dest: set_takeWhileD)
  ultimately have "s = rev (dropWhile (\<lambda>c. c = CHR ''0'') (rev s)) @ replicate (length (takeWhile (\<lambda>c. c = CHR ''0'') (rev s))) (CHR ''0'')"
    by (metis rev_append rev_replicate rev_rev_ident)
  then show ?thesis unfolding trim_zeros_def by blast
qed

lemma read_zeros: "read_nat 0 (replicate k (CHR ''0'')) = 0"
  by (induction k) simp_all

text \<open>What a zone starts with ends a fraction.\<close>

definition zone_char :: "char \<Rightarrow> bool" where "zone_char c \<longleftrightarrow> \<not> is_digit c \<and> c \<noteq> CHR ''.'' \<and> c \<noteq> CHR '',''"

lemma get_fraction_fraction:
  assumes "ns < 1000000000" and "zone_char c"
  shows "get_fraction (fraction ns @ c # s) = (ns, c # s)"
proof (cases "ns = 0")
  case True
  then show ?thesis using assms(2) by (simp add: fraction_def get_fraction_def zone_char_def)
next
  case False
  obtain k where k: "pad 9 ns = trim_zeros (pad 9 ns) @ replicate k (CHR ''0'')" using trim_zeros_append by blast
  let ?t = "trim_zeros (pad 9 ns)"
  have len: "length ?t + k = 9" using arg_cong [OF k, of length] by (simp add: pad_plain)
  have dig: "list_all is_digit ?t" using pad_plain(2) [of 9 ns] k by (metis list_all_append)
  have ne: "?t \<noteq> []"
  proof
    assume "?t = []"
    then have "read_nat 0 (pad 9 ns) = 0" using k read_zeros by simp
    with False assms show False by (simp add: read_pad)
  qed
  have d: "digits (?t @ c # s) = (?t, c # s)"
    using dig assms(2) by (simp add: digits_def list_all_iff zone_char_def)
  have "take 9 (?t @ replicate 9 (CHR ''0'')) = ?t @ replicate k (CHR ''0'')"
    using len by (simp add: min_def)
  also have "\<dots> = pad 9 ns" by (rule k [symmetric])
  finally have "read_nat 0 (take 9 (?t @ replicate 9 (CHR ''0''))) = ns" using assms(1) by (simp add: read_pad)
  with d ne False show ?thesis by (simp add: fraction_def get_fraction_def)
qed

lemma clock_parts:
  fixes sec :: nat
  assumes "sec < 86400"
  shows "sec div 3600 < 24" "sec div 60 mod 60 < 60" "sec mod 60 < 60"
    "sec div 3600 * 3600 + sec div 60 mod 60 * 60 + sec mod 60 = sec"
proof -
  have h: "sec div 3600 = sec div 60 div 60" by (simp add: div_mult2_eq [symmetric])
  have "sec div 60 div 60 * 60 + sec div 60 mod 60 = sec div 60" "sec div 60 * 60 + sec mod 60 = sec"
    by (rule div_mult_mod_eq)+
  then show "sec div 3600 * 3600 + sec div 60 mod 60 * 60 + sec mod 60 = sec" unfolding h by linarith
  show "sec div 3600 < 24" using assms by (simp add: less_mult_imp_div_less)
qed simp_all

text \<open>Whole minutes up to a day: offsets that read back when they are written.\<close>

definition whole_minutes :: "int \<Rightarrow> bool" where "whole_minutes off \<longleftrightarrow> 60 dvd off \<and> \<bar>off\<bar> \<le> 86400"

lemma get_zone_text:
  assumes "whole_minutes off"
  shows "\<exists>c s. zone_text off = c # s \<and> zone_char c" and "get_zone (zone_text off) = Some (off, [])"
proof -
  show "\<exists>c s. zone_text off = c # s \<and> zone_char c" by (simp add: zone_text_def zone_char_def is_digit_def Let_def)
  show "get_zone (zone_text off) = Some (off, [])"
  proof (cases "off = 0")
    case True
    then show ?thesis by (simp add: zone_text_def get_zone_def)
  next
    case False
    define n where "n = nat \<bar>off\<bar>"
    define z where "z = n div 60"
    have i: "int n = \<bar>off\<bar>" by (simp add: n_def)
    have "int 60 dvd int n" using assms by (simp add: i whole_minutes_def)
    then have "n mod 60 = 0" unfolding int_dvd_int_iff by (rule dvd_imp_mod_0)
    moreover have "n \<le> 86400" using assms i by (simp add: whole_minutes_def)
    ultimately have n: "int n = \<bar>off\<bar>" "n mod 60 = 0" "n \<le> 86400" using i by blast+
    then have z: "z * 60 = n" "z \<le> 1440" using div_mult_mod_eq [of n 60] by (simp_all add: z_def)
    have big: "60 \<le> n" using z False n(1) by (cases z) auto
    have hm: "z div 60 \<le> 24" "z mod 60 < 60" "z div 60 * 60 + z mod 60 = z" using div_le_mono [OF z(2), of 60] by simp_all
    have off: "off = (if off \<le> - 60 then - int n else int n)" using n(1) big by auto
    let ?c = "if off \<le> - 60 then CHR ''-'' else CHR ''+''"
    have shape: "zone_text off = ?c # pad 2 (z div 60) @ CHR '':'' # pad 2 (z mod 60) @ []"
      using False by (simp add: zone_text_def n_def [symmetric] z_def [symmetric] Let_def)
    have g: "get_num True (pad 2 (z div 60) @ CHR '':'' # pad 2 (z mod 60) @ []) = Some (z div 60, CHR '':'' # pad 2 (z mod 60) @ [])"
      "get_num True (pad 2 (z mod 60) @ []) = Some (z mod 60, [])" by (rule get_num_pad; use hm in linarith)+
    have mins: "int ((z div 60 * 60 + z mod 60) * 60) = int n" unfolding hm(3) z(1) ..
    show ?thesis
      unfolding get_zone_def shape list.case using hm(1,2) off
      by (simp only: g skip_char_Cons Option.bind.simps prod.case Let_def mins) auto
  qed
qed

lemma parse_zoned_text:
  assumes "year_in_range (t + off * nanos_per_second)" and "whole_minutes off"
  shows "parse_zoned (zoned_text off t) = Some (t, off)"
proof -
  let ?t = "t + off * nanos_per_second"
  obtain day sec ns where t: "split_instant ?t = (day, sec, ns)" by (cases "split_instant ?t")
  note j = join_split [OF t]
  obtain y m d where c: "civil_of_day day = (y, m, d)" by (cases "civil_of_day day")
  have y: "0 \<le> y" "y < 10000"
    using assms(1) c t by (auto simp: year_in_range_def civil_of_day_def Let_def split: prod.splits)
  have v: "valid_civil (y, m, d)" "day_number (y, m, d) = day" using civil_of_day [of day] by (simp_all add: c)
  then have m: "m < 100" "d = int (nat d)" "nat d < 100" "y = int (nat y)" "nat y < 10000"
    using y by (auto simp: valid_civil_def month_lengths_def nth_Cons' split: if_splits)
  obtain zc zs where zt: "zone_text off = zc # zs" "zone_char zc" using get_zone_text(1) [OF assms(2)] by blast
  have z: "get_zone (zc # zs) = Some (off, [])" using get_zone_text(2) [OF assms(2)] by (simp add: zt)
  have tail: "get_fraction (fraction ns @ zc # zs) = (ns, zc # zs)" using get_fraction_fraction [OF _ zt(2)] j by simp
  have n: "sec div 3600 < 100" "sec div 60 mod 60 < 100" "sec mod 60 < 100" using clock_parts [of sec] j by simp_all
  note parts = get_year_pad [OF m(5)] get_num_pad [OF m(1)] get_num_pad [OF m(3)] get_num_pad [OF n(1)]
    get_num_pad [OF n(2)] get_num_pad [OF n(3)] skip_char_Cons tail z
  have shape: "zoned_text off t = pad 4 (nat y) @ CHR ''-'' # pad 2 m @ CHR ''-'' # pad 2 (nat d) @ CHR ''T'' #
      pad 2 (sec div 3600) @ CHR '':'' # pad 2 (sec div 60 mod 60) @ CHR '':'' # pad 2 (sec mod 60) @ fraction ns @ zc # zs"
    by (simp add: zoned_text_def t c date_text_def clock_text_def zt)
  note clock = clock_parts [OF conjunct1 [OF conjunct2 [OF j]]]
  have "parse_zoned (zoned_text off t) =
    (if valid_civil (int (nat y), m, int (nat d))
     then Some (join_instant (day_number (int (nat y), m, int (nat d))) sec ns - off * nanos_per_second, off) else None)"
    unfolding parse_zoned_def shape using clock
    by (simp only: parts Option.bind.simps prod.case Let_def) simp
  then show ?thesis using v j m(2,4) by simp
qed

lemma rfc3339_nano_zoned: "rfc3339_nano t = zoned_text 0 t"
  by (simp add: rfc3339_nano_def zoned_text_def zone_text_def)

lemma parse_rfc3339_nano: "year_in_range t \<Longrightarrow> parse_time (rfc3339_nano t) = Some t"
  using parse_zoned_text [of t 0] by (simp add: parse_time_def rfc3339_nano_zoned whole_minutes_def)

text \<open>Times are ASCII, and no character of one needs an escape in JSON.\<close>

lemma html_safe_pad: "c \<in> set (pad w n) \<Longrightarrow> html_safe c"
proof -
  assume "c \<in> set (pad w n)"
  then have "is_digit c" using pad_plain(2) [of w n] by (auto simp: list_all_iff)
  then show ?thesis by (auto simp: html_safe_def is_digit_def)
qed

lemma html_safe_fraction: "c \<in> set (fraction n) \<Longrightarrow> html_safe c"
proof -
  obtain k where "pad 9 n = trim_zeros (pad 9 n) @ replicate k (CHR ''0'')" using trim_zeros_append by blast
  then have "set (trim_zeros (pad 9 n)) \<subseteq> set (pad 9 n)" by (metis set_append sup_ge1)
  moreover assume "c \<in> set (fraction n)"
  ultimately have "c = CHR ''.'' \<or> c \<in> set (pad 9 n)" by (auto simp: fraction_def split: if_splits)
  then show ?thesis using html_safe_pad by (elim disjE) (simp_all add: html_safe_def)
qed

abbreviation all_safe :: "string \<Rightarrow> bool" where "all_safe s \<equiv> list_all html_safe s"

lemma all_safe_parts: "all_safe (pad w n)" "all_safe (fraction n)" "all_safe (clock_text sec)" "all_safe (date_text (y, m, d))"
  "all_safe (zone_text off)"
proof -
  show p: "all_safe (pad w n)" for w n by (simp add: list_all_iff html_safe_pad)
  show "all_safe (fraction n)" by (simp add: list_all_iff html_safe_fraction)
  have c: "html_safe CHR '':''" "html_safe CHR ''-''" "html_safe CHR ''+''" "html_safe CHR ''Z''" by (simp_all add: html_safe_def)
  show "all_safe (clock_text sec)" unfolding clock_text_def list_all_append by (simp only: p c list.pred_inject simp_thms)
  show "all_safe (date_text (y, m, d))" unfolding date_text_def prod.case list_all_append by (simp only: p c list.pred_inject simp_thms)
  show "all_safe (zone_text off)" unfolding zone_text_def Let_def
    by (split if_split, intro conjI impI) (simp_all only: list_all_append p c list.pred_inject simp_thms if_split)
qed

lemma html_safe_zoned: "\<forall>c \<in> set (zoned_text off t). html_safe c"
proof -
  obtain day sec ns where s: "split_instant (t + off * nanos_per_second) = (day, sec, ns)" by (rule prod_cases3)
  obtain y m d where c: "civil_of_day day = (y, m, d)" by (rule prod_cases3)
  have t: "html_safe CHR ''T''" by (simp add: html_safe_def)
  have "all_safe (zoned_text off t)" unfolding zoned_text_def s c prod.case list_all_append
    by (simp only: all_safe_parts t list.pred_inject simp_thms)
  then show ?thesis by (simp add: list_all_iff)
qed

lemma escapes_zoned [simp]: "\<not> escapes (zoned_text off t)" "\<not> escapes (rfc3339_nano t)"
  unfolding rfc3339_nano_zoned by (rule escapes_safe, rule html_safe_zoned)+

lemma ascii_zoned [simp]: "ascii (zoned_text off t)"
  using html_safe_zoned [of off t] by (auto simp: ascii_def html_safe_def)

lemma ascii_rfc3339 [simp]: "ascii (rfc3339_nano t)"
  by (simp add: rfc3339_nano_zoned)

text \<open>What is parsed lies within the years that can be written, at whole minutes of offset.\<close>

lemma split_join:
  assumes "sec < 86400" and "ns < 1000000000"
  shows "split_instant (join_instant day sec ns) = (day, sec, ns)"
proof -
  have t: "(s * n + f) div n = s \<and> (s * n + f) mod n = f" if "0 \<le> f" "f < n" for s n f :: int using that by simp
  let ?s = "(day - days_before_year 1970) * 86400 + int sec"
  have n: "join_instant day sec ns div nanos_per_second = ?s \<and> join_instant day sec ns mod nanos_per_second = int ns"
    unfolding join_instant_def by (rule t) (use assms(2) in \<open>simp_all add: nanos_per_second_def\<close>)
  have s: "?s div 86400 = day - days_before_year 1970 \<and> ?s mod 86400 = int sec" by (rule t) (use assms(1) in simp_all)
  show ?thesis
    unfolding split_instant_def Let_def conjunct1 [OF n] conjunct2 [OF n] conjunct1 [OF s] conjunct2 [OF s] by simp
qed

lemma sum_take_month:
  assumes "m < length ls" and "\<forall>l \<in> set ls. (0 :: int) \<le> l"
  shows "0 \<le> sum_list (take m ls)" and "sum_list (take m ls) + ls ! m \<le> sum_list ls"
proof -
  show "0 \<le> sum_list (take m ls)" using assms(2) by (auto intro!: sum_list_nonneg dest: in_set_takeD)
  have "sum_list ls = sum_list (take m ls) + (ls ! m + sum_list (drop (Suc m) ls))"
    using arg_cong [OF id_take_nth_drop [OF assms(1)], of sum_list] by simp
  moreover have "0 \<le> sum_list (drop (Suc m) ls)" using assms(2) by (auto intro!: sum_list_nonneg dest: in_set_dropD)
  ultimately show "sum_list (take m ls) + ls ! m \<le> sum_list ls" by simp
qed

lemma year_of_day_number:
  assumes "valid_civil (y, m, d)"
  shows "year_of_day (day_number (y, m, d)) = y"
proof -
  have m: "m - 1 < length (month_lengths y)" "\<forall>l \<in> set (month_lengths y). 0 \<le> l" "1 \<le> d" "d \<le> month_lengths y ! (m - 1)"
    using assms by (auto simp: valid_civil_def month_lengths_def)
  show ?thesis
    using sum_take_month [OF m(1,2)] m(3,4) year_length [of y] by (intro year_of_day_unique) (simp_all add: day_number_def)
qed

lemma get_zone_range: "get_zone s = Some (off, r) \<Longrightarrow> 60 dvd off \<and> \<bar>off\<bar> \<le> 90000"
proof -
  have off: "60 dvd int ((hh * 60 + mm) * 60) \<and> int ((hh * 60 + mm) * 60) \<le> 90000" if "hh \<le> 24" "mm \<le> 60" for hh mm :: nat
    using that by simp
  assume "get_zone s = Some (off, r)"
  then show ?thesis
    using off by (fastforce simp: get_zone_def Let_def simp del: of_nat_mult of_nat_add split: list.splits if_splits Option.bind_splits)
qed

lemma read_nat_bound: "list_all is_digit ds \<Longrightarrow> read_nat acc ds < (acc + 1) * 10 ^ length ds"
proof (induction ds arbitrary: acc)
  case (Cons c cs)
  then have "of_char c - 48 \<le> (9 :: nat)" by (auto simp: is_digit_def)
  then have "(10 * acc + (of_char c - 48) + 1) * 10 ^ length cs \<le> (10 * acc + 10) * 10 ^ length cs" by (intro mult_right_mono) simp_all
  with Cons.IH [of "10 * acc + (of_char c - 48)"] Cons.prems show ?case by (simp add: algebra_simps)
qed simp

lemma get_year_range: "get_year s = Some (y, r) \<Longrightarrow> y < 10000"
  using read_nat_bound [of "take 4 s" 0] by (auto simp: get_year_def split: if_splits)

lemma get_fraction_range: "get_fraction s = (ns, r) \<Longrightarrow> ns < 1000000000"
proof -
  have "read_nat 0 (take 9 (fst (digits x) @ replicate 9 (CHR ''0''))) < 10 ^ 9" for x
  proof -
    have "list_all is_digit (take 9 (fst (digits x) @ replicate 9 (CHR ''0'')))"
      by (auto simp: digits_def list_all_iff is_digit_def dest!: in_set_takeD set_takeWhileD)
    moreover have "length (take 9 (fst (digits x) @ replicate 9 (CHR ''0''))) = 9" by simp
    ultimately show ?thesis using read_nat_bound [of "take 9 (fst (digits x) @ replicate 9 (CHR ''0''))" 0] by (simp only: add_0 mult_1)
  qed
  then show "get_fraction s = (ns, r) \<Longrightarrow> ns < 1000000000" by (auto simp: get_fraction_def split: list.splits if_splits)
qed

lemma parse_zoned_range:
  assumes "parse_zoned s = Some (t, off)"
  shows "year_in_range (t + off * nanos_per_second)" and "60 dvd off" and "\<bar>off\<bar> \<le> 90000"
proof -
  from assms obtain y m d hh mi ss ns r r' where
    p: "get_zone r = Some (off, r')" "valid_civil (int y, m, int d)" "hh < 24" "mi < 60" "ss < 60"
      "t = join_instant (day_number (int y, m, int d)) (hh * 3600 + mi * 60 + ss) ns - off * nanos_per_second"
    and y: "\<exists>u v. get_year u = Some (y, v)" and ns: "\<exists>u v. get_fraction u = (ns, v)"
    unfolding parse_zoned_def by (fastforce simp: Let_def split: Option.bind_splits if_splits prod.splits)
  show "60 dvd off" "\<bar>off\<bar> \<le> 90000" using get_zone_range [OF p(1)] by simp_all
  have "hh * 3600 + mi * 60 + ss < 86400" using p(3-5) by linarith
  moreover have "ns < 1000000000" using ns get_fraction_range by blast
  ultimately have "fst (split_instant (t + off * nanos_per_second)) = day_number (int y, m, int d)"
    unfolding p(6) diff_add_cancel by (simp only: split_join fst_conv)
  then show "year_in_range (t + off * nanos_per_second)"
    using year_of_day_number [OF p(2)] y get_year_range by (fastforce simp: year_in_range_def)
qed

end
