(* ===== verification/Experiment.thy ===== *)
theory Experiment
  imports AppCodecs GoTime RaftEngine "HOL-Library.Multiset" "HOL-Library.Signed_Division"
begin

text \<open>
  \<^verbatim>\<open>cmd/experiment\<close>: the cluster that a benchmark round sets up and the commands its goroutines
  apply (\<^verbatim>\<open>runner.go\<close>), the figures that \<^verbatim>\<open>main.go\<close> reports, and the three files in which results are
  exported (\<^verbatim>\<open>exporter.go\<close>).
\<close>

section \<open>A benchmark round\<close>

definition benchmark_peers :: "nat \<Rightarrow> string list" where
  "benchmark_peers nodes = map (\<lambda>i. ''node_'' @ fmt_nat i) [0..<nodes]"

definition benchmark_leader :: "memory_storage raft_deps \<Rightarrow> nat \<Rightarrow> memory_storage raft" where
  "benchmark_leader d nodes = set_role RoleLeader (new_raft_engine d ''node_0'' (benchmark_peers nodes) (Some new_memory_storage))"

definition benchmark_router :: "(unit, memory_storage) execution_router" where
  "benchmark_router = register_handler (new_execution_router () new_memory_storage) ''BENCHMARK_OP'' (\<lambda>w payload. (w, Inr ''ok''))"

definition benchmark_command :: "nat \<Rightarrow> bytes" where
  "benchmark_command i = json_print (enc_command False \<lparr>cmd_type = ''BENCHMARK_OP'', cmd_payload = ''tx_data_'' @ fmt_nat i\<rparr>)"

text \<open>
  A goroutine per command; \<^verbatim>\<open>Apply\<close> holds the mutex of the router, so that what the scheduler
  decides is the order of the calls.
\<close>

definition benchmark_round :: "nat list \<Rightarrow> (unit, memory_storage) execution_router" where
  "benchmark_round order = run_commits (exec_apply command_unmarshal) benchmark_router (map (\<lambda>i. ((), benchmark_command i)) order)"

definition next_root :: "string \<Rightarrow> string" where "next_root root = sha_hex [root, ''ok'']"

definition chained_root :: "nat \<Rightarrow> string" where
  "chained_root n = (next_root ^^ n) ''exec_router_genesis''"

definition round_receipt :: "string \<Rightarrow> transaction_receipt" where
  "round_receipt root = \<lparr>rc_tx_id = ''tx_auto_gen'', rc_status = ''COMMITTED'', rc_state_root = root, rc_error = []\<rparr>"

lemma command_decodes: "command_unmarshal (benchmark_command i) = Inr \<lparr>cmd_type = ''BENCHMARK_OP'', cmd_payload = ''tx_data_'' @ fmt_nat i\<rparr>"
  unfolding benchmark_command_def command_unmarshal_def by (rule command_codec.unmarshal_marshal) (simp add: command_good_def)

lemma round_step:
  assumes "er_handlers er = er_handlers benchmark_router"
  shows "exec_apply command_unmarshal () er (benchmark_command i) =
     (er\<lparr>current_root := next_root (current_root er), receipts := (receipts er)(''tx_auto_gen'' \<mapsto> round_receipt (next_root (current_root er)))\<rparr>,
      Inr (next_root (current_root er)))"
  using assms
  by (simp add: exec_apply_def apply_transactional_def command_decodes benchmark_router_def register_handler_def round_receipt_def next_root_def Let_def)

lemma round_from:
  assumes "er_handlers er = er_handlers benchmark_router"
  shows "run_commits (exec_apply command_unmarshal) er (map (\<lambda>i. ((), benchmark_command i)) order) =
     (if order = [] then er else
      (let root = (next_root ^^ length order) (current_root er)
       in er\<lparr>current_root := root, receipts := (receipts er)(''tx_auto_gen'' \<mapsto> round_receipt root)\<rparr>))"
  using assms
proof (induction order arbitrary: er)
  case (Cons i order)
  let ?er = "er\<lparr>current_root := next_root (current_root er),
    receipts := (receipts er)(''tx_auto_gen'' \<mapsto> round_receipt (next_root (current_root er)))\<rparr>"
  have h: "er_handlers ?er = er_handlers benchmark_router" using Cons.prems by simp
  show ?case
    using round_step [OF Cons.prems, of i] Cons.IH [OF h] by (simp add: Let_def funpow_swap1 [of next_root])
qed simp

text \<open>
  A benchmark round ends in the same router in whatever order its goroutines reach it: every
  command is committed, the root depends on their number only, and one receipt is left, as each
  call files its receipt under the same name.
\<close>

theorem benchmark_is_order_independent:
  assumes "mset order = mset [0..<n]" and "0 < n"
  shows "benchmark_round order = benchmark_round [0..<n] \<and> exec_get_state_root (benchmark_round order) = chained_root n \<and>
     receipts (benchmark_round order) = [''tx_auto_gen'' \<mapsto> round_receipt (chained_root n)]"
proof -
  have len: "length order = n" using arg_cong [OF assms(1), of size] by simp
  have "benchmark_round is = benchmark_router\<lparr>current_root := chained_root (length is),
      receipts := [''tx_auto_gen'' \<mapsto> round_receipt (chained_root (length is))]\<rparr>" if "length is = n" for "is"
    using round_from [OF refl, of "is"] that assms(2)
    by (auto simp: benchmark_round_def benchmark_router_def register_handler_def new_execution_router_def chained_root_def Let_def)
  then show ?thesis using len by (simp add: exec_get_state_root_def)
qed

theorem benchmark_is_order_independent_witness:
  "benchmark_round [1, 0] = benchmark_round [0, 1] \<and> dom (receipts (benchmark_round [1, 0])) = {''tx_auto_gen''}"
proof -
  have "mset [1, 0] = mset [0..<2 :: nat]" "0 < (2 :: nat)" by (simp_all add: numeral_2_eq_2)
  from benchmark_is_order_independent [OF this] have
    "benchmark_round [1, 0] = benchmark_round [0..<2]"
    "receipts (benchmark_round [1, 0]) = [''tx_auto_gen'' \<mapsto> round_receipt (chained_root 2)]" by blast+
  then have "benchmark_round [1, 0] = benchmark_round [0..<2]" "dom (receipts (benchmark_round [1, 0])) = {''tx_auto_gen''}"
    by (blast, simp only: dom_fun_upd dom_empty option.distinct if_False)
  moreover have "[0..<2] = [0, 1 :: nat]" by (simp add: numeral_2_eq_2)
  ultimately show ?thesis by metis
qed

section \<open>Simulated figures\<close>

text \<open>What \<^verbatim>\<open>main.go\<close> reports as the throughput and the latency it achieved.\<close>

definition achieved_tps :: "int \<Rightarrow> int" where
  "achieved_tps target_tps = (let simulated_processed_tx = wrap64 (target_tps * 10) in simulated_processed_tx sdiv 10)"

definition average_latency :: "int \<Rightarrow> int" where
  "average_latency latency_ms = wrap64 (latency_ms + 12)"

lemma sdiv_10_bound: "in_int64 x \<Longrightarrow> \<bar>x sdiv 10\<bar> \<le> 922337203685477580"
proof -
  assume "in_int64 x"
  then have "\<bar>x\<bar> \<le> 9223372036854775808" by (auto simp: int64_numerals abs_le_iff)
  then have "\<bar>x\<bar> div 10 \<le> 9223372036854775808 div 10" by (rule zdiv_mono1) simp
  then show ?thesis by (cases "0 \<le> x") (auto simp: signed_divide_int_def abs_mult sgn_if)
qed

lemma sdiv_10_exact: "(t * 10) sdiv 10 = (t :: int)"
  by (simp add: signed_divide_int_def sgn_if abs_mult)

lemma achieved_is_target: "in_int64 t \<Longrightarrow> achieved_tps t = t \<longleftrightarrow> in_int64 (10 * t)"
proof (cases "in_int64 (t * 10)")
  case True
  then show ?thesis by (simp add: achieved_tps_def sdiv_10_exact mult.commute)
next
  case False
  then have "922337203685477580 < \<bar>t\<bar>" by (auto simp: int64_numerals)
  moreover have "\<bar>achieved_tps t\<bar> \<le> 922337203685477580"
    unfolding achieved_tps_def Let_def by (rule sdiv_10_bound [OF in_int64_wrap64])
  ultimately show ?thesis using False by (auto simp: mult.commute)
qed

lemma latency_is_input: "in_int64 l \<Longrightarrow> average_latency l = l + 12 \<longleftrightarrow> l \<le> int64_max - 12"
proof (cases "in_int64 (l + 12)")
  case True
  then show ?thesis by (simp add: average_latency_def in_int64_def)
next
  case False
  assume "in_int64 l"
  moreover have "in_int64 (average_latency l)" by (simp add: average_latency_def in_int64_wrap64)
  ultimately show ?thesis using False by (auto simp: in_int64_def int64_min_def)
qed

text \<open>
  The reported figures are the inputs: the throughput is the target itself exactly as long as ten
  times the target fits an int64, beyond that the product wraps and another number is reported;
  the latency is the injected one plus 12, except for the 12 largest values.
\<close>

theorem reported_figures_are_inputs:
  assumes "in_int64 t" and "in_int64 l"
  shows "(achieved_tps t = t \<longleftrightarrow> in_int64 (10 * t)) \<and> (average_latency l = l + 12 \<longleftrightarrow> l \<le> int64_max - 12)"
  using achieved_is_target [OF assms(1)] latency_is_input [OF assms(2)] by blast

theorem reported_figures_are_inputs_witness:
  "achieved_tps 5000 = 5000 \<and> achieved_tps 1000000000000000000 \<noteq> 1000000000000000000 \<and> average_latency 50 = 62"
proof -
  have r: "in_int64 5000" "in_int64 1000000000000000000" "in_int64 50" by (simp_all add: int64_numerals)
  have "in_int64 (10 * 5000)" "\<not> in_int64 (10 * 1000000000000000000)" "(50 :: int) \<le> int64_max - 12"
    by (simp_all add: int64_numerals int64_max_def)
  with reported_figures_are_inputs [OF r(1,3)] reported_figures_are_inputs [OF r(2,3)] show ?thesis by simp
qed

section \<open>Exported results\<close>

record experiment_metrics =
  em_name :: string
  em_timestamp :: int
  em_total_nodes :: int
  em_target_tps :: int
  em_achieved_tps :: int
  em_avg_latency_ms :: int
  em_memory :: string
  em_consensus :: string
  em_status :: string

definition enc_metrics :: "experiment_metrics \<Rightarrow> json" where
  "enc_metrics m = JObj [(''experiment_name'', jstr (em_name m)), (''timestamp'', jstr (rfc3339_nano (em_timestamp m))),
     (''total_nodes'', enc_int (em_total_nodes m)), (''target_tps'', enc_int (em_target_tps m)),
     (''achieved_tps'', enc_int (em_achieved_tps m)), (''avg_latency_ms'', enc_int (em_avg_latency_ms m)),
     (''memory_footprint'', jstr (em_memory m)), (''consensus'', jstr (em_consensus m)), (''status'', jstr (em_status m))]"

text \<open>
  The operating system: what making directories, opening a file and writing to it answer, and how many
  bytes of a failed write have reached the file. The files are a map from paths to contents, which
  \<^verbatim>\<open>MkdirAll\<close> leaves alone; its error is dropped by every caller, and what the directories are good
  for shows in the answers of \<open>os_create\<close>.
\<close>

record os_lib =
  os_mkdir :: "string \<Rightarrow> go_error option"
  os_create :: "string \<Rightarrow> go_error option"
  os_write :: "string \<Rightarrow> bytes \<Rightarrow> go_error option"
  os_partial :: "string \<Rightarrow> bytes \<Rightarrow> nat"

type_synonym files = "string \<rightharpoonup> bytes"

definition mkdir_all :: "os_lib \<Rightarrow> string \<Rightarrow> files \<Rightarrow> files \<times> go_error option" where
  "mkdir_all os dir fs = (fs, os_mkdir os dir)"

definition write_file :: "os_lib \<Rightarrow> string \<Rightarrow> bytes \<Rightarrow> files \<Rightarrow> files \<times> go_error option" where
  "write_file os path data fs = (case os_create os path of
      Some err \<Rightarrow> (fs, Some err)
    | None \<Rightarrow> (case os_write os path data of
        Some err \<Rightarrow> (fs(path \<mapsto> take (os_partial os path data) data), Some err) | None \<Rightarrow> (fs(path \<mapsto> data), None)))"

definition export_json :: "os_lib \<Rightarrow> experiment_metrics \<Rightarrow> string \<Rightarrow> files \<Rightarrow> files \<times> go_error option" where
  "export_json os m path fs =
     (if \<not> year_in_range (em_timestamp m) then (fs, Some (NewError ''Time.MarshalJSON: year outside of range [0,9999]''))
      else write_file os path (json_print_indent (enc_metrics m)) fs)"

definition nl :: string where "nl = [CHR 0x0A]"

definition markdown_text :: "experiment_metrics \<Rightarrow> string" where
  "markdown_text m = ''# Experiment Results: '' @ em_name m @ nl @ nl @ ''- **Timestamp:** '' @ rfc3339 (em_timestamp m) @ nl
     @ ''- **Status:** '' @ em_status m @ nl @ nl @ ''| Parameter | Value |'' @ nl @ ''| :--- | :--- |'' @ nl
     @ ''| **Total Nodes** | '' @ fmt_d (em_total_nodes m) @ '' |'' @ nl
     @ ''| **Target TPS** | '' @ fmt_d (em_target_tps m) @ '' TPS |'' @ nl
     @ ''| **Achieved TPS** | '' @ fmt_d (em_achieved_tps m) @ '' TPS |'' @ nl
     @ ''| **Avg Latency** | '' @ fmt_d (em_avg_latency_ms m) @ '' ms |'' @ nl
     @ ''| **Memory Footprint** | '' @ em_memory m @ '' |'' @ nl
     @ ''| **Consensus Engine** | '' @ em_consensus m @ '' |'' @ nl"

definition export_markdown :: "os_lib \<Rightarrow> experiment_metrics \<Rightarrow> string \<Rightarrow> files \<Rightarrow> files \<times> go_error option" where
  "export_markdown os m path fs = write_file os path (markdown_text m) fs"

subsection \<open>CSV\<close>

text \<open>\<^verbatim>\<open>unicode.IsSpace\<close>.\<close>

definition is_space :: "nat \<Rightarrow> bool" where
  "is_space r \<longleftrightarrow> (9 \<le> r \<and> r \<le> 13) \<or> r \<in> set [0x20, 0x85, 0xA0, 0x1680, 0x2028, 0x2029, 0x202F, 0x205F, 0x3000] \<or> (0x2000 \<le> r \<and> r \<le> 0x200A)"

definition field_needs_quotes :: "string \<Rightarrow> bool" where
  "field_needs_quotes f =
     (if f = [] then False
      else if f = [CHR 0x5C, CHR ''.''] then True
      else if \<exists>c \<in> set f. c \<in> set [CHR 0x0A, CHR 0x0D, CHR 0x22, CHR '',''] then True
      else is_space (fst (decode_rune f)))"

definition csv_field :: "string \<Rightarrow> string" where
  "csv_field f = (if field_needs_quotes f
     then CHR 0x22 # concat (map (\<lambda>c. if c = CHR 0x22 then [c, c] else [c]) f) @ [CHR 0x22] else f)"

fun csv_record :: "string list \<Rightarrow> string" where
  "csv_record [] = [CHR 0x0A]"
| "csv_record [f] = csv_field f @ [CHR 0x0A]"
| "csv_record (f # fs) = csv_field f @ CHR '','' # csv_record fs"

definition csv_headers :: "string list" where
  "csv_headers = [''ExperimentName'', ''Timestamp'', ''TotalNodes'', ''TargetTPS'', ''AchievedTPS'', ''AvgLatencyMs'',
     ''MemoryFootprint'', ''Consensus'', ''Status'']"

definition csv_row :: "experiment_metrics \<Rightarrow> string list" where
  "csv_row m = [em_name m, rfc3339 (em_timestamp m), fmt_d (em_total_nodes m), fmt_d (em_target_tps m), fmt_d (em_achieved_tps m),
     fmt_d (em_avg_latency_ms m), em_memory m, em_consensus m, em_status m]"

definition csv_text :: "experiment_metrics \<Rightarrow> string" where
  "csv_text m = csv_record csv_headers @ csv_record (csv_row m)"

text \<open>
  The writer buffers 4096 bytes. What overflows the buffer is written at once, and an error there is
  returned; the rest is written by the deferred \<^verbatim>\<open>Flush\<close>, whose error nobody asks for.
\<close>

fun write_full_chunks :: "os_lib \<Rightarrow> string \<Rightarrow> bytes \<Rightarrow> bytes \<Rightarrow> bytes \<times> bytes \<times> go_error option" where
  "write_full_chunks os path done_part rest =
     (if length rest \<le> 4096 then (done_part, rest, None)
      else case os_write os path (take 4096 rest) of
          Some err \<Rightarrow> (done_part @ take (os_partial os path (take 4096 rest)) (take 4096 rest), rest, Some err)
        | None \<Rightarrow> write_full_chunks os path (done_part @ take 4096 rest) (drop 4096 rest))"

declare write_full_chunks.simps [simp del]

definition export_csv :: "os_lib \<Rightarrow> experiment_metrics \<Rightarrow> string \<Rightarrow> files \<Rightarrow> files \<times> go_error option" where
  "export_csv os m path fs = (case os_create os path of
      Some err \<Rightarrow> (fs, Some err)
    | None \<Rightarrow> (case write_full_chunks os path [] (csv_text m) of
          (out, rest, Some err) \<Rightarrow> (fs(path \<mapsto> out), Some err)
        | (out, rest, None) \<Rightarrow> (fs(path \<mapsto> out @ (case os_write os path rest of None \<Rightarrow> rest
            | Some _ \<Rightarrow> take (os_partial os path rest) rest)), None)))"

section \<open>Reading CSV\<close>

text \<open>A reader for records as RFC 4180 has them: quoted fields with doubled quotes, and bare ones.\<close>

fun read_quoted :: "string \<Rightarrow> string \<Rightarrow> (string \<times> string) option" where
  "read_quoted acc [] = None"
| "read_quoted acc (c # cs) =
     (if c \<noteq> CHR 0x22 then read_quoted (acc @ [c]) cs
      else case cs of
          c' # cs' \<Rightarrow> if c' = CHR 0x22 then read_quoted (acc @ [c]) cs' else Some (acc, cs)
        | [] \<Rightarrow> Some (acc, []))"

definition bare :: "char \<Rightarrow> bool" where "bare c \<longleftrightarrow> c \<notin> set [CHR 0x0A, CHR 0x0D, CHR 0x22, CHR '','']"

definition read_field :: "string \<Rightarrow> (string \<times> string) option" where
  "read_field s = (case s of
      c # cs \<Rightarrow> if c = CHR 0x22 then read_quoted [] cs else Some (takeWhile bare s, dropWhile bare s)
    | [] \<Rightarrow> Some ([], []))"

lemma read_quoted_shorter: "read_quoted acc s = Some (f, rest) \<Longrightarrow> length rest < length s"
  by (induction acc s rule: read_quoted.induct) (fastforce split: if_splits list.splits)+

lemma read_field_shorter: "read_field s = Some (f, rest) \<Longrightarrow> length rest \<le> length s"
  by (auto simp: read_field_def split: list.splits if_splits dest: read_quoted_shorter intro: le_SucI [OF length_dropWhile_le])

function read_record :: "string \<Rightarrow> (string list \<times> string) option" where
  "read_record s = (case read_field s of
      None \<Rightarrow> None
    | Some (f, rest) \<Rightarrow> (case rest of
          [] \<Rightarrow> None
        | c # rest' \<Rightarrow> if c = CHR '','' then map_option (\<lambda>(fs, r). (f # fs, r)) (read_record rest')
            else if c = CHR 0x0A then Some ([f], rest') else None))"
  by pat_completeness auto
termination
  by (relation "measure length") (auto dest!: read_field_shorter)

declare read_record.simps [simp del]

lemma read_quoted_doubled:
  "t = [] \<or> hd t \<noteq> CHR 0x22 \<Longrightarrow>
     read_quoted acc (concat (map (\<lambda>c. if c = CHR 0x22 then [c, c] else [c]) f) @ CHR 0x22 # t) = Some (acc @ f, t)"
  by (induction f arbitrary: acc) (auto split: list.split)

lemma read_csv_field:
  assumes "t \<noteq> []" and "\<not> bare (hd t)" and "hd t \<noteq> CHR 0x22"
  shows "read_field (csv_field f @ t) = Some (f, t)"
proof (cases "field_needs_quotes f")
  case True
  then show ?thesis using assms(3) by (simp add: csv_field_def read_field_def read_quoted_doubled)
next
  case False
  then have "list_all bare f" by (auto simp: field_needs_quotes_def bare_def list_all_iff split: if_splits)
  then have split: "takeWhile bare (f @ t) = f" "dropWhile bare (f @ t) = t"
    using assms(1,2) by (cases t; simp add: list_all_iff)+
  show ?thesis
  proof (cases f)
    case Nil
    then show ?thesis using False assms by (cases t) (simp_all add: csv_field_def read_field_def)
  next
    case (Cons c cs)
    then have "c \<noteq> CHR 0x22" using \<open>list_all bare f\<close> by (auto simp: bare_def)
    then show ?thesis using False split Cons by (simp add: csv_field_def read_field_def)
  qed
qed

lemma read_csv_record: "fs \<noteq> [] \<Longrightarrow> read_record (csv_record fs @ rest) = Some (fs, rest)"
proof (induction fs rule: csv_record.induct)
  case (2 f)
  then show ?case
    using read_csv_field [of "CHR 0x0A # rest" f] by (subst read_record.simps) (simp add: bare_def)
next
  case (3 f g fs)
  then show ?case
    using read_csv_field [of "CHR '','' # csv_record (g # fs) @ rest" f] by (subst read_record.simps) (simp add: bare_def)
qed simp

text \<open>
  The exported table reads back: whatever names, notes and numbers a result has, commas, quotes and
  line breaks included, the file consists of the header record and the record of the result.
\<close>

theorem exported_csv_reads_back:
  "\<exists>rest. read_record (csv_text m) = Some (csv_headers, rest) \<and> read_record rest = Some (csv_row m, [])"
  using read_csv_record [of csv_headers "csv_record (csv_row m)"] read_csv_record [of "csv_row m" "[]"]
  by (simp add: csv_text_def csv_headers_def csv_row_def)

text \<open>
  A table that fits the buffer is reported as exported although the write failed and only a part of it,
  or nothing, is in the file: the error of the deferred flush is lost.
\<close>

theorem export_hides_write_errors:
  assumes "os_create os path = None" and "length (csv_text m) \<le> 4096" and "os_write os path (csv_text m) = Some err"
  shows "export_csv os m path fs = (fs(path \<mapsto> take (os_partial os path (csv_text m)) (csv_text m)), None) \<and>
     (year_in_range (em_timestamp m) \<and> os_write os path (json_print_indent (enc_metrics m)) = Some err \<longrightarrow>
        export_json os m path fs = (fs(path \<mapsto> take (os_partial os path (json_print_indent (enc_metrics m))) (json_print_indent (enc_metrics m))), Some err))"
  using assms by (simp add: export_csv_def write_full_chunks.simps export_json_def write_file_def)

definition sample_metrics :: experiment_metrics where
  "sample_metrics = \<lparr>em_name = ''a,b'', em_timestamp = 0, em_total_nodes = 3, em_target_tps = 100, em_achieved_tps = 100, em_avg_latency_ms = 12,
     em_memory = ''142 MB'', em_consensus = ''raft'', em_status = ''SUCCESS''\<rparr>"

lemma length_rfc3339: "length (rfc3339 t) = 20"
  by (simp add: rfc3339_def date_text_def clock_text_def pad_plain split: prod.split)

lemma length_csv_field: "length (csv_field f) \<le> 2 * length f + 2"
proof -
  have "length (concat (map (\<lambda>c. if c = CHR 0x22 then [c, c] else [c]) f)) \<le> 2 * length f" by (induction f) simp_all
  then show ?thesis by (simp add: csv_field_def)
qed

lemma length_csv_record: "length (csv_record fs) \<le> sum_list (map (\<lambda>f. 2 * length f + 3) fs) + 1"
proof (induction fs rule: csv_record.induct)
  case (2 f)
  then show ?case using length_csv_field [of f] by simp
next
  case (3 f g fs)
  then show ?case using length_csv_field [of f] by simp
qed simp

theorem export_hides_write_errors_witness:
  "export_csv \<lparr>os_mkdir = \<lambda>_. None, os_create = \<lambda>_. None, os_write = \<lambda>_ _. Some (NewError ''no space''), os_partial = \<lambda>_ _. 0\<rparr> sample_metrics ''out'' Map.empty = ([''out'' \<mapsto> []], None)"
proof -
  let ?os = "\<lparr>os_mkdir = \<lambda>_. None, os_create = \<lambda>_. None, os_write = \<lambda>_ _. Some (NewError ''no space''), os_partial = \<lambda>_ _. 0\<rparr>"
  have "sum_list (map (\<lambda>f. 2 * length f + 3) csv_headers) + 1 \<le> 2000" by (simp add: csv_headers_def)
  moreover have "sum_list (map (\<lambda>f. 2 * length f + 3) (csv_row sample_metrics)) + 1 \<le> 2000"
    by (simp add: csv_row_def sample_metrics_def length_rfc3339 fmt_d_def fmt_nat.simps)
  ultimately have "length (csv_text sample_metrics) \<le> 4096"
    using length_csv_record [of csv_headers] length_csv_record [of "csv_row sample_metrics"] by (simp add: csv_text_def)
  from export_hides_write_errors [of ?os "''out''" sample_metrics "NewError ''no space''" Map.empty] this show ?thesis by simp
qed

end
