(* ===== verification/Privacy.thy ===== *)
theory Privacy
  imports Sha256
begin

text \<open>
  \<^verbatim>\<open>modules/privacy\<close> and \<^verbatim>\<open>core/execution/router.go\<close>: the jurisdiction vault, the side-channel
  fetcher, the telemetry pipeline, and the router that applies anchored transactions to the
  private state. Vaults are shared by pointer, so the router and its fetcher name a vault by its
  address in a store. The peer network is a parameter with a state of its own; a \<^verbatim>\<open>[32]byte\<close> is a
  byte list.
\<close>

section \<open>The vault\<close>

record anchored_transaction =
  at_tx_id :: string
  at_jurisdiction :: string
  at_payload_hash :: bytes
  at_timestamp :: int

record private_payload =
  pp_tx_id :: string
  pp_jurisdiction :: string
  pp_data :: bytes

record vault =
  node_jurisdiction :: string
  side_db :: "string \<rightharpoonup> private_payload"

definition new_jurisdiction_vault :: "string \<Rightarrow> vault" where
  "new_jurisdiction_vault j = \<lparr>node_jurisdiction = j, side_db = Map.empty\<rparr>"

definition store_if_authorized :: "vault \<Rightarrow> private_payload \<Rightarrow> vault \<times> go_error option" where
  "store_if_authorized v payload =
     (if pp_jurisdiction payload \<noteq> node_jurisdiction v
      then (v, Some (NewError ''JURISDICTION_VIOLATION: Node is legally barred from holding this data''))
      else (v\<lparr>side_db := (side_db v)(pp_tx_id payload \<mapsto> payload)\<rparr>, None))"

definition retrieve_and_verify :: "vault \<Rightarrow> string \<Rightarrow> bytes \<Rightarrow> bytes result" where
  "retrieve_and_verify v tx_id expected_hash =
     (case side_db v tx_id of
        None \<Rightarrow> Inl (NewError ''PAYLOAD_MISSING: Authorized node lacks side-channel data'')
      | Some payload \<Rightarrow>
          (let actual_hash = sha256 (pp_data payload)
           in if actual_hash \<noteq> expected_hash
              then Inl (NewError ''CRYPTOGRAPHIC_FAULT: Side-channel payload does not match Raft anchor'')
              else Inr (pp_data payload)))"

section \<open>The fetcher\<close>

type_synonym 'n peer_network = "'n \<Rightarrow> string \<Rightarrow> string \<Rightarrow> 'n \<times> bytes result"

definition fetch_and_store :: "'n peer_network \<Rightarrow> 'n \<Rightarrow> vault \<Rightarrow> string \<Rightarrow> bytes
    \<Rightarrow> 'n \<times> vault \<times> go_error option" where
  "fetch_and_store request n v tx_id expected_hash =
     (case request n tx_id (node_jurisdiction v) of
        (n', Inl err) \<Rightarrow> (n', v, Some (WrapError ''failed to retrieve side-channel payload from peers: '' err))
      | (n', Inr encrypted_data) \<Rightarrow>
          (let payload = \<lparr>pp_tx_id = tx_id, pp_jurisdiction = node_jurisdiction v, pp_data = encrypted_data\<rparr>
           in case store_if_authorized v payload of
                (v', Some err) \<Rightarrow> (n', v', Some err)
              | (v', None) \<Rightarrow> (n', v', case retrieve_and_verify v' tx_id expected_hash of
                                      Inl err \<Rightarrow> Some err | Inr _ \<Rightarrow> None)))"

section \<open>Telemetry\<close>

record execution_trace =
  et_tx_id :: string
  et_jurisdiction :: string
  et_pre_root :: bytes
  et_post_root :: bytes
  et_payload_hash :: bytes

record zk_proof =
  zk_tx_id :: string
  zk_proof :: bytes

type_synonym zk_prover = "execution_trace \<Rightarrow> zk_proof result"

definition mock_prover :: zk_prover where
  "mock_prover trace = Inr \<lparr>zk_tx_id = et_tx_id trace, zk_proof = sha256 (et_pre_root trace @ et_post_root trace)\<rparr>"

record telemetry =
  trace_queue :: "execution_trace chan"
  zk_registry :: "string \<rightharpoonup> zk_proof"
  tel_workers :: int

definition new_telemetry_pipeline :: "int \<Rightarrow> telemetry" where
  "new_telemetry_pipeline n = \<lparr>trace_queue = make_chan 10000, zk_registry = Map.empty, tel_workers = n\<rparr>"

section \<open>The router\<close>

record 'n sovereign_router =
  vaults :: "nat \<Rightarrow> vault"
  sr_vault :: nat
  sr_fetcher :: "nat option"
  sr_telemetry :: "telemetry option"
  sr_network :: 'n
  global_state :: "string \<rightharpoonup> bytes"
  private_state :: "string \<rightharpoonup> bytes"

definition new_sovereign_router :: "(nat \<Rightarrow> vault) \<Rightarrow> nat \<Rightarrow> nat option \<Rightarrow> telemetry option \<Rightarrow> 'n
    \<Rightarrow> 'n sovereign_router" where
  "new_sovereign_router vs v fetcher tel n = \<lparr>vaults = vs, sr_vault = v, sr_fetcher = fetcher, sr_telemetry = tel,
     sr_network = n, global_state = Map.empty, private_state = Map.empty\<rparr>"

text \<open>The second half of \<^verbatim>\<open>Apply\<close>: the payload enters the private state and its trace the queue.\<close>

definition sovereign_commit :: "anchored_transaction \<Rightarrow> bytes \<Rightarrow> 'n sovereign_router \<Rightarrow> 'n sovereign_router" where
  "sovereign_commit anchor payload_data r =
     (let tx = at_tx_id anchor;
          pre = sha256 (index_or [] (private_state r) tx);
          r1 = r\<lparr>private_state := (private_state r)(tx \<mapsto> payload_data)\<rparr>;
          post = sha256 (index_or [] (private_state r1) tx)
      in case sr_telemetry r1 of
           None \<Rightarrow> r1
         | Some tel \<Rightarrow>
             (let trace = \<lparr>et_tx_id = tx, et_jurisdiction = at_jurisdiction anchor, et_pre_root = pre,
                           et_post_root = post, et_payload_hash = at_payload_hash anchor\<rparr>
              in r1\<lparr>sr_telemetry := Some (tel\<lparr>trace_queue := try_send (trace_queue tel) trace\<rparr>)\<rparr>))"

definition sovereign_apply :: "'n peer_network \<Rightarrow> 'n sovereign_router \<Rightarrow> anchored_transaction
    \<Rightarrow> 'n sovereign_router \<times> go_error option" where
  "sovereign_apply request r anchor =
     (let tx = at_tx_id anchor; h = at_payload_hash anchor;
          r1 = r\<lparr>global_state := (global_state r)(tx \<mapsto> h)\<rparr>
      in if at_jurisdiction anchor \<noteq> node_jurisdiction (vaults r1 (sr_vault r1)) then (r1, None)
         else case retrieve_and_verify (vaults r1 (sr_vault r1)) tx h of
             Inr payload_data \<Rightarrow> (sovereign_commit anchor payload_data r1, None)
           | Inl err \<Rightarrow>
               (case (contains (error_text err) ''PAYLOAD_MISSING'', sr_fetcher r1) of
                  (True, Some fv) \<Rightarrow>
                    (let (n, v, fetch_err) = fetch_and_store request (sr_network r1) (vaults r1 fv) tx h;
                         r2 = r1\<lparr>sr_network := n, vaults := (vaults r1)(fv := v)\<rparr>
                     in case fetch_err of
                          Some e \<Rightarrow> (r2, Some (NewError (''CRITICAL FAULT: execution stalled, payload unrecoverable: ''
                                      @ error_text e)))
                        | None \<Rightarrow>
                            (let payload_data = (case retrieve_and_verify (vaults r2 (sr_vault r2)) tx h of
                                   Inl _ \<Rightarrow> [] | Inr p \<Rightarrow> p)
                             in (sovereign_commit anchor payload_data r2, None)))
                | _ \<Rightarrow> (r1, Some (NewError (''execution stalled: '' @ error_text err)))))"

fun sovereign_run :: "'n peer_network \<Rightarrow> 'n sovereign_router \<Rightarrow> anchored_transaction list \<Rightarrow> 'n sovereign_router" where
  "sovereign_run request r [] = r"
| "sovereign_run request r (a # as) = sovereign_run request (fst (sovereign_apply request r a)) as"

section \<open>Lemmas\<close>

lemma retrieve_sound: "retrieve_and_verify v tx h = Inr d \<Longrightarrow> sha256 d = h"
  by (auto simp: retrieve_and_verify_def Let_def split: option.splits if_splits)

lemma retrieve_error_kinds:
  "retrieve_and_verify v tx h = Inl e \<Longrightarrow> contains (error_text e) ''PAYLOAD_MISSING'' \<longleftrightarrow> side_db v tx = None"
  by (auto simp: retrieve_and_verify_def Let_def contains.simps has_prefix_def split: option.splits if_splits)

lemma fetch_and_store_cases:
  "fetch_and_store request n v tx h =
     (case request n tx (node_jurisdiction v) of
        (n', Inl err) \<Rightarrow> (n', v, Some (WrapError ''failed to retrieve side-channel payload from peers: '' err))
      | (n', Inr d) \<Rightarrow>
          (n', v\<lparr>side_db := (side_db v)(tx \<mapsto> \<lparr>pp_tx_id = tx, pp_jurisdiction = node_jurisdiction v, pp_data = d\<rparr>)\<rparr>,
           if sha256 d = h then None
           else Some (NewError ''CRYPTOGRAPHIC_FAULT: Side-channel payload does not match Raft anchor'')))"
  by (auto simp: fetch_and_store_def store_if_authorized_def retrieve_and_verify_def Let_def split: prod.splits sum.splits)

lemma fetch_success:
  assumes "fetch_and_store request n v tx h = (n', v', None)"
  shows "\<exists>d. retrieve_and_verify v' tx h = Inr d"
  using assms by (auto simp: fetch_and_store_cases retrieve_and_verify_def split: prod.splits sum.splits if_splits)

lemma sovereign_commit_sel [simp]:
  "private_state (sovereign_commit a d r) = (private_state r)(at_tx_id a \<mapsto> d)"
  "vaults (sovereign_commit a d r) = vaults r" "sr_vault (sovereign_commit a d r) = sr_vault r"
  "sr_fetcher (sovereign_commit a d r) = sr_fetcher r" "sr_network (sovereign_commit a d r) = sr_network r"
  "global_state (sovereign_commit a d r) = global_state r"
  by (simp_all add: sovereign_commit_def Let_def split: option.splits)

text \<open>
  A fetcher, if there is one, fills the router's own vault. The code does not ask for it: a fetcher is
  built on a vault of its own choice, and what it has verified in another vault the router then does
  not find in its own, drops the error and applies \<^verbatim>\<open>nil\<close>.
\<close>

definition shares_vault :: "'n sovereign_router \<Rightarrow> bool" where
  "shares_vault r \<longleftrightarrow> sr_fetcher r \<in> {None, Some (sr_vault r)}"

lemma sovereign_apply_step:
  "case sovereign_apply request r a of (r', err) \<Rightarrow>
     global_state r' = (global_state r)(at_tx_id a \<mapsto> at_payload_hash a) \<and> sr_fetcher r' = sr_fetcher r \<and> sr_vault r' = sr_vault r \<and>
     node_jurisdiction (vaults r' (sr_vault r)) = node_jurisdiction (vaults r (sr_vault r)) \<and>
     (if at_jurisdiction a \<noteq> node_jurisdiction (vaults r (sr_vault r))
      then err = None \<and> private_state r' = private_state r \<and> vaults r' = vaults r \<and> sr_network r' = sr_network r
      else if err = None
      then \<exists>d. private_state r' = (private_state r)(at_tx_id a \<mapsto> d) \<and> (sha256 d = at_payload_hash a \<or> \<not> shares_vault r \<and> d = [])
      else private_state r' = private_state r \<and> sr_telemetry r' = sr_telemetry r)"
proof -
  let ?v = "vaults r (sr_vault r)" and ?tx = "at_tx_id a" and ?h = "at_payload_hash a"
  consider (foreign) "at_jurisdiction a \<noteq> node_jurisdiction ?v"
    | (found) d where "at_jurisdiction a = node_jurisdiction ?v" "retrieve_and_verify ?v ?tx ?h = Inr d"
    | (bad) e where "at_jurisdiction a = node_jurisdiction ?v" "retrieve_and_verify ?v ?tx ?h = Inl e"
        "\<not> (contains (error_text e) ''PAYLOAD_MISSING'' \<and> (\<exists>w. sr_fetcher r = Some w))"
    | (fetch) e w n v fe where "at_jurisdiction a = node_jurisdiction ?v" "retrieve_and_verify ?v ?tx ?h = Inl e"
        "contains (error_text e) ''PAYLOAD_MISSING''" "sr_fetcher r = Some w"
        "fetch_and_store request (sr_network r) (vaults r w) ?tx ?h = (n, v, fe)"
    by (metis prod_cases3 sum.exhaust)
  then show ?thesis
  proof cases
    case foreign
    then show ?thesis by (simp add: sovereign_apply_def Let_def)
  next
    case (found d)
    then show ?thesis
      using retrieve_sound [OF found(2)] by (auto simp: sovereign_apply_def Let_def)
  next
    case (bad e)
    then have "sovereign_apply request r a = (r\<lparr>global_state := (global_state r)(?tx \<mapsto> ?h)\<rparr>,
        Some (NewError (''execution stalled: '' @ error_text e)))"
      by (auto simp: sovereign_apply_def Let_def split: option.splits bool.splits)
    then show ?thesis using bad by simp
  next
    case (fetch e w n v fe)
    have j: "node_jurisdiction v = node_jurisdiction (vaults r w)"
      using fetch(5) by (auto simp: fetch_and_store_cases split: prod.splits sum.splits)
    show ?thesis
    proof (cases fe)
      case None
      obtain d where d: "retrieve_and_verify v ?tx ?h = Inr d"
        using fetch_success [OF fetch(5) [unfolded None]] by blast
      show ?thesis
      proof (cases "w = sr_vault r")
        case True
        then show ?thesis
          using fetch None j d retrieve_sound [OF d] by (auto simp: sovereign_apply_def Let_def)
      next
        case False
        then show ?thesis using fetch None j by (auto simp: sovereign_apply_def shares_vault_def Let_def)
      qed
    next
      case (Some e')
      then show ?thesis using fetch j by (simp add: sovereign_apply_def Let_def)
    qed
  qed
qed

text \<open>Which anchors of a list account for the private state.\<close>

definition anchored_by :: "anchored_transaction list \<Rightarrow> 'n sovereign_router \<Rightarrow> bool" where
  "anchored_by as r \<longleftrightarrow> (\<forall>tx d. private_state r tx = Some d \<longrightarrow>
     (\<exists>a \<in> set as. at_tx_id a = tx \<and> at_jurisdiction a = node_jurisdiction (vaults r (sr_vault r)) \<and>
        (at_payload_hash a = sha256 d \<or> \<not> shares_vault r \<and> d = [])))"

text \<open>What an application leaves alone.\<close>

definition same_set_up :: "'n sovereign_router \<Rightarrow> 'n sovereign_router \<Rightarrow> bool" where
  "same_set_up r r' \<longleftrightarrow> sr_fetcher r' = sr_fetcher r \<and> sr_vault r' = sr_vault r \<and>
     node_jurisdiction (vaults r' (sr_vault r)) = node_jurisdiction (vaults r (sr_vault r))"

lemma same_set_up_refl [simp]: "same_set_up r r"
  by (simp add: same_set_up_def)

lemma same_set_up_trans: "same_set_up a b \<Longrightarrow> same_set_up b c \<Longrightarrow> same_set_up a c"
  by (simp add: same_set_up_def)

lemma same_set_up_apply: "same_set_up r (fst (sovereign_apply request r a))"
  using sovereign_apply_step [where request = request and r = r and a = a] by (auto simp: same_set_up_def case_prod_beta)

lemma anchored_by_apply:
  assumes "anchored_by as r"
  shows "anchored_by (as @ [a]) (fst (sovereign_apply request r a))"
proof -
  obtain r' err where r': "sovereign_apply request r a = (r', err)" by fastforce
  then have "shares_vault r' = shares_vault r"
    using same_set_up_apply [of r request a] by (simp add: same_set_up_def shares_vault_def)
  then show ?thesis
    using sovereign_apply_step [where request = request and r = r and a = a] assms r'
    unfolding anchored_by_def by (fastforce split: if_splits)
qed

lemma anchored_by_run:
  "anchored_by as r \<Longrightarrow> anchored_by (as @ bs) (sovereign_run request r bs) \<and> same_set_up r (sovereign_run request r bs)"
proof (induction bs arbitrary: r as)
  case (Cons b bs)
  from Cons.IH [OF anchored_by_apply [OF Cons.prems, where request = request and a = b]] show ?case
    using same_set_up_apply [of r request b] same_set_up_trans by fastforce
qed simp

text \<open>
  C21: Whatever the peer network answers, after any run of anchored transactions on a new router
  every payload in its private state was anchored by a transaction of the run, of the node's own
  jurisdiction, whose hash is the hash of the payload: neither data of another jurisdiction nor
  data that differs from its anchor gets in. The one exception comes with a fetcher that was built
  on another vault than the router's: then the empty payload may stand for the anchored one.
\<close>

theorem private_state_is_anchored:
  assumes "private_state (sovereign_run request (new_sovereign_router vs v fetcher tel n) as) tx = Some d"
  shows "\<exists>a \<in> set as. at_tx_id a = tx \<and> at_jurisdiction a = node_jurisdiction (vs v) \<and>
     (at_payload_hash a = sha256 d \<or> d = [] \<and> fetcher \<noteq> None \<and> fetcher \<noteq> Some v)"
proof -
  let ?r = "new_sovereign_router vs v fetcher tel n"
  have "anchored_by [] ?r" by (auto simp: anchored_by_def new_sovereign_router_def)
  from anchored_by_run [OF this, of as request]
  have run: "anchored_by as (sovereign_run request ?r as)" and same: "same_set_up ?r (sovereign_run request ?r as)" by simp_all
  from same have "shares_vault (sovereign_run request ?r as) \<longleftrightarrow> fetcher = None \<or> fetcher = Some v"
    "node_jurisdiction (vaults (sovereign_run request ?r as) (sr_vault (sovereign_run request ?r as))) = node_jurisdiction (vs v)"
    by (auto simp: same_set_up_def shares_vault_def new_sovereign_router_def)
  with run assms show ?thesis by (auto simp: anchored_by_def)
qed

text \<open>A router whose own vault, which its fetcher fills, holds a payload for a transaction.\<close>

definition vault_holds :: "string \<Rightarrow> private_payload \<Rightarrow> 'n sovereign_router \<Rightarrow> bool" where
  "vault_holds tx p r \<longleftrightarrow> sr_fetcher r = Some (sr_vault r) \<and> side_db (vaults r (sr_vault r)) tx = Some p"

text \<open>Nothing a router does replaces what its vault holds: it fetches only what is missing.\<close>

lemma vault_holds_apply:
  assumes "vault_holds tx p r"
  shows "vault_holds tx p (fst (sovereign_apply request r a))"
proof -
  let ?v = "vaults r (sr_vault r)"
  have kept: "side_db v tx = Some p"
    if "fetch_and_store request n ?v (at_tx_id a) h = (n', v, e)" and "at_tx_id a \<noteq> tx" for n n' v e h
    using that assms by (auto simp: fetch_and_store_cases vault_holds_def split: prod.splits sum.splits)
  have other: "at_tx_id a \<noteq> tx" if "retrieve_and_verify ?v (at_tx_id a) h = Inl e" "contains (error_text e) ''PAYLOAD_MISSING''" for h e
    using retrieve_error_kinds [OF that(1)] that(2) assms by (auto simp: vault_holds_def)
  show ?thesis
    using assms unfolding sovereign_apply_def Let_def vault_holds_def
    by (auto split: sum.split option.split bool.split prod.split dest: other kept)
qed

lemma vault_holds_run: "vault_holds tx p r \<Longrightarrow> vault_holds tx p (sovereign_run request r bs)"
  by (induction bs arbitrary: r) (auto intro: vault_holds_apply)

lemma same_set_up_run: "same_set_up r (sovereign_run request r bs)"
proof (induction bs arbitrary: r)
  case (Cons b bs)
  then show ?case using same_set_up_apply [of r request b] same_set_up_trans by fastforce
qed simp

text \<open>
  C38: A payload that does not match its anchor is stored before it is checked, and stays. On a router
  whose fetcher fills its own vault: once a fetch has brought bytes with another hash, then after any
  further run of anchors, with any peer network, the vault still holds those bytes, and an attempt
  to apply the anchor fails without asking the network, whatever it could now deliver.
\<close>

theorem mismatched_fetch_poisons_vault:
  assumes "sr_fetcher r = Some (sr_vault r)" and "at_jurisdiction a = node_jurisdiction (vaults r (sr_vault r))"
    and "side_db (vaults r (sr_vault r)) (at_tx_id a) = None"
    and "request (sr_network r) (at_tx_id a) (at_jurisdiction a) = (n, Inr d)" and "sha256 d \<noteq> at_payload_hash a"
  shows "let r1 = fst (sovereign_apply request r a)
     in snd (sovereign_apply request r a) \<noteq> None \<and>
        (\<forall>request' n' bs. let r2 = sovereign_run request' (r1\<lparr>sr_network := n'\<rparr>) bs; (r3, err) = sovereign_apply request' r2 a
           in side_db (vaults r2 (sr_vault r2)) (at_tx_id a) =
                Some \<lparr>pp_tx_id = at_tx_id a, pp_jurisdiction = at_jurisdiction a, pp_data = d\<rparr> \<and>
              err = Some (NewError (''execution stalled: CRYPTOGRAPHIC_FAULT: Side-channel payload does not match Raft anchor'')) \<and>
              private_state r3 = private_state r2 \<and> vaults r3 = vaults r2 \<and> sr_network r3 = sr_network r2)"
proof -
  let ?v = "vaults r (sr_vault r)" and ?tx = "at_tx_id a" and ?h = "at_payload_hash a"
  let ?p = "\<lparr>pp_tx_id = ?tx, pp_jurisdiction = at_jurisdiction a, pp_data = d\<rparr>"
  let ?v' = "?v\<lparr>side_db := (side_db ?v)(?tx \<mapsto> ?p)\<rparr>"
  let ?fault = "NewError ''CRYPTOGRAPHIC_FAULT: Side-channel payload does not match Raft anchor''"
  have miss: "retrieve_and_verify ?v ?tx ?h = Inl (NewError ''PAYLOAD_MISSING: Authorized node lacks side-channel data'')"
    using assms(3) by (simp add: retrieve_and_verify_def)
  have fetch: "fetch_and_store request (sr_network r) ?v ?tx ?h = (n, ?v', Some ?fault)"
    using assms(2,4,5) by (simp add: fetch_and_store_cases)
  have missing: "contains ''PAYLOAD_MISSING: Authorized node lacks side-channel data'' ''PAYLOAD_MISSING''"
    by (simp add: contains.simps has_prefix_def)
  let ?r1 = "r\<lparr>global_state := (global_state r)(?tx \<mapsto> ?h), sr_network := n, vaults := (vaults r)(sr_vault r := ?v')\<rparr>"
  have first: "sovereign_apply request r a =
      (?r1, Some (NewError (''CRITICAL FAULT: execution stalled, payload unrecoverable: '' @ error_text ?fault)))"
    using assms(1,2) miss fetch missing by (simp add: sovereign_apply_def Let_def)
  have other: "\<not> contains ''CRYPTOGRAPHIC_FAULT: Side-channel payload does not match Raft anchor'' ''PAYLOAD_MISSING''"
    by (simp add: contains.simps has_prefix_def)
  have later: "case sovereign_apply request' r2 a of (r3, err) \<Rightarrow> side_db (vaults r2 (sr_vault r2)) ?tx = Some ?p \<and>
      err = Some (NewError (''execution stalled: '' @ error_text ?fault)) \<and>
      private_state r3 = private_state r2 \<and> vaults r3 = vaults r2 \<and> sr_network r3 = sr_network r2"
    if r2: "r2 = sovereign_run request' (?r1\<lparr>sr_network := n'\<rparr>) bs" for request' n' bs r2
  proof -
    have "vault_holds ?tx ?p (?r1\<lparr>sr_network := n'\<rparr>)" using assms(1) by (simp add: vault_holds_def)
    then have held: "vault_holds ?tx ?p r2" unfolding r2 by (rule vault_holds_run)
    have "same_set_up (?r1\<lparr>sr_network := n'\<rparr>) r2" unfolding r2 by (rule same_set_up_run)
    then have j: "node_jurisdiction (vaults r2 (sr_vault r2)) = at_jurisdiction a" using assms(2) by (simp add: same_set_up_def)
    have bad: "retrieve_and_verify (vaults r2 (sr_vault r2)) ?tx ?h = Inl ?fault"
      using held assms(5) by (simp add: vault_holds_def retrieve_and_verify_def)
    then show ?thesis using held j bad other by (simp add: sovereign_apply_def vault_holds_def Let_def)
  qed
  show ?thesis
    unfolding first fst_conv snd_conv Let_def using later [OF refl] by simp
qed

text \<open>A byte string of 32 bytes that is not the given one.\<close>

definition other_digest :: "bytes \<Rightarrow> bytes" where
  "other_digest h = (if hd h = CHR ''a'' then replicate 32 (CHR ''b'') else replicate 32 (CHR ''a''))"

lemma other_digest_neq: "other_digest h \<noteq> h"
  by (auto simp: other_digest_def)

definition sample_anchor :: "bytes \<Rightarrow> anchored_transaction" where
  "sample_anchor h = \<lparr>at_tx_id = ''tx'', at_jurisdiction = ''AE-DU'', at_payload_hash = h, at_timestamp = 0\<rparr>"

definition sample_sovereign :: "unit sovereign_router" where
  "sample_sovereign = new_sovereign_router (\<lambda>_. new_jurisdiction_vault ''AE-DU'') 0 (Some 0) None ()"

definition sample_network :: "bytes \<Rightarrow> unit peer_network" where
  "sample_network d n tx j = (n, Inr d)"

theorem private_state_is_anchored_witness:
  "private_state (sovereign_run (sample_network ''deed'') sample_sovereign [sample_anchor (sha256 ''deed'')]) ''tx'' = Some ''deed'' \<and>
   (\<exists>a \<in> {sample_anchor (sha256 ''deed'')}. at_payload_hash a = sha256 ''deed'')"
proof -
  have miss: "contains ''PAYLOAD_MISSING: Authorized node lacks side-channel data'' ''PAYLOAD_MISSING''"
    by (simp add: contains.simps has_prefix_def)
  have p: "private_state (sovereign_run (sample_network ''deed'') sample_sovereign [sample_anchor (sha256 ''deed'')]) ''tx'' = Some ''deed''"
    using miss
    by (simp add: sample_sovereign_def new_sovereign_router_def new_jurisdiction_vault_def sample_anchor_def
        sovereign_apply_def retrieve_and_verify_def fetch_and_store_cases sample_network_def Let_def)
  from private_state_is_anchored [OF p [unfolded sample_sovereign_def]] p show ?thesis by auto
qed

theorem mismatched_fetch_poisons_vault_witness:
  "snd (sovereign_apply (sample_network ''forged'') sample_sovereign (sample_anchor (other_digest (sha256 ''forged'')))) \<noteq> None"
proof -
  let ?r = sample_sovereign and ?a = "sample_anchor (other_digest (sha256 ''forged''))"
  have "sr_fetcher ?r = Some (sr_vault ?r)" "at_jurisdiction ?a = node_jurisdiction (vaults ?r (sr_vault ?r))"
    "side_db (vaults ?r (sr_vault ?r)) (at_tx_id ?a) = None"
    "sample_network ''forged'' (sr_network ?r) (at_tx_id ?a) (at_jurisdiction ?a) = ((), Inr ''forged'')"
    by (simp_all add: sample_sovereign_def new_sovereign_router_def new_jurisdiction_vault_def sample_anchor_def sample_network_def)
  moreover have "sha256 ''forged'' \<noteq> at_payload_hash ?a"
    using other_digest_neq [of "sha256 ''forged''"] by (simp add: sample_anchor_def)
  ultimately show ?thesis
    using mismatched_fetch_poisons_vault [of ?r ?a "sample_network ''forged''" "()" "''forged''"] unfolding Let_def by blast
qed

end
