(* ===== verification/SovereignNode.thy ===== *)
theory SovereignNode
  imports Privacy "HOL-Library.Multiset"
begin

text \<open>
  The sovereign node in operation: the router of \<^verbatim>\<open>core/execution/router.go\<close> applies anchors while
  the workers of \<^verbatim>\<open>modules/privacy/zk_telemetry.go\<close> take its traces, prove them and file the
  proofs, each worker in two steps, so that workers can overtake one another; and the node that
  \<^verbatim>\<open>cmd/sovereign/main.go\<close> boots.
\<close>

section \<open>Router and workers\<close>

record 'n sovereign_node =
  sn_router :: "'n sovereign_router"
  sn_held :: "nat \<Rightarrow> execution_trace option"

text \<open>
  The trace an application makes, which it does when it has executed the payload and there is
  telemetry; and the traces an application has put into the queue.
\<close>

definition queue_of :: "'n sovereign_router \<Rightarrow> execution_trace list" where
  "queue_of r = (case sr_telemetry r of None \<Rightarrow> [] | Some tel \<Rightarrow> chan_buf (trace_queue tel))"

definition made_traces :: "'n sovereign_router \<Rightarrow> anchored_transaction \<Rightarrow> 'n sovereign_router \<times> go_error option \<Rightarrow> execution_trace list" where
  "made_traces r a out =
     (if snd out = None \<and> at_jurisdiction a = node_jurisdiction (vaults r (sr_vault r)) \<and> sr_telemetry r \<noteq> None
      then [\<lparr>et_tx_id = at_tx_id a, et_jurisdiction = at_jurisdiction a,
             et_pre_root = sha256 (index_or [] (private_state r) (at_tx_id a)),
             et_post_root = sha256 (index_or [] (private_state (fst out)) (at_tx_id a)), et_payload_hash = at_payload_hash a\<rparr>]
      else [])"

definition new_traces :: "'n sovereign_router \<Rightarrow> 'n sovereign_router \<Rightarrow> execution_trace list" where
  "new_traces r r' = drop (length (queue_of r)) (queue_of r')"

definition file_proof :: "execution_trace \<Rightarrow> (string \<rightharpoonup> zk_proof) \<Rightarrow> (string \<rightharpoonup> zk_proof)" where
  "file_proof trace registry = (case mock_prover trace of Inl _ \<Rightarrow> registry | Inr proof \<Rightarrow> registry(et_tx_id trace \<mapsto> proof))"

text \<open>An application is recorded with the traces it made and those that entered the queue.\<close>

datatype node_event = Applied anchored_transaction "execution_trace list" "execution_trace list" | Took nat execution_trace | Filed nat execution_trace

text \<open>\<^verbatim>\<open>Start\<close> launches \<open>tel_workers\<close> goroutines, none when the number is not positive.\<close>

inductive sovereign_step :: "'n peer_network \<Rightarrow> 'n sovereign_node \<Rightarrow> node_event \<Rightarrow> 'n sovereign_node \<Rightarrow> bool"
  for request :: "'n peer_network" where
  applied: "sovereign_apply request (sn_router s) a = (r', err) \<Longrightarrow>
    sovereign_step request s (Applied a (made_traces (sn_router s) a (r', err)) (new_traces (sn_router s) r')) (s\<lparr>sn_router := r'\<rparr>)"
| took: "sr_telemetry (sn_router s) = Some tel \<Longrightarrow> int i < tel_workers tel \<Longrightarrow> sn_held s i = None \<Longrightarrow>
    recv (trace_queue tel) = Some (trace, q) \<Longrightarrow>
    sovereign_step request s (Took i trace) (s\<lparr>sn_router := (sn_router s)\<lparr>sr_telemetry := Some (tel\<lparr>trace_queue := q\<rparr>)\<rparr>,
      sn_held := (sn_held s)(i := Some trace)\<rparr>)"
| filed: "sr_telemetry (sn_router s) = Some tel \<Longrightarrow> int i < tel_workers tel \<Longrightarrow> sn_held s i = Some trace \<Longrightarrow>
    sovereign_step request s (Filed i trace)
      (s\<lparr>sn_router := (sn_router s)\<lparr>sr_telemetry := Some (tel\<lparr>zk_registry := file_proof trace (zk_registry tel)\<rparr>)\<rparr>,
      sn_held := (sn_held s)(i := None)\<rparr>)"

inductive sovereign_node_run :: "'n peer_network \<Rightarrow> 'n sovereign_node \<Rightarrow> node_event list \<Rightarrow> 'n sovereign_node \<Rightarrow> bool"
  for request :: "'n peer_network" where
  node_nil: "sovereign_node_run request s [] s"
| node_snoc: "sovereign_node_run request s evs s' \<Longrightarrow> sovereign_step request s' ev s'' \<Longrightarrow>
    sovereign_node_run request s (evs @ [ev]) s''"

definition made :: "node_event list \<Rightarrow> execution_trace list" where
  "made evs = concat (map (\<lambda>ev. case ev of Applied a ts qs \<Rightarrow> ts | _ \<Rightarrow> []) evs)"

definition queued :: "node_event list \<Rightarrow> execution_trace list" where
  "queued evs = concat (map (\<lambda>ev. case ev of Applied a ts qs \<Rightarrow> qs | _ \<Rightarrow> []) evs)"

text \<open>The traces of the applications that put nothing into the queue.\<close>

definition dropped :: "node_event list \<Rightarrow> execution_trace list" where
  "dropped evs = concat (map (\<lambda>ev. case ev of Applied a ts qs \<Rightarrow> if qs = [] then ts else [] | _ \<Rightarrow> []) evs)"

definition taken :: "node_event list \<Rightarrow> execution_trace list" where
  "taken evs = concat (map (\<lambda>ev. case ev of Took i t \<Rightarrow> [t] | _ \<Rightarrow> []) evs)"

definition filed_traces :: "node_event list \<Rightarrow> execution_trace list" where
  "filed_traces evs = concat (map (\<lambda>ev. case ev of Filed i t \<Rightarrow> [t] | _ \<Rightarrow> []) evs)"

definition anchors_of :: "node_event list \<Rightarrow> anchored_transaction list" where
  "anchors_of evs = concat (map (\<lambda>ev. case ev of Applied a ts qs \<Rightarrow> [a] | _ \<Rightarrow> []) evs)"

lemma lists_snoc [simp]:
  "made (evs @ [ev]) = made evs @ (case ev of Applied a ts qs \<Rightarrow> ts | _ \<Rightarrow> [])"
  "queued (evs @ [ev]) = queued evs @ (case ev of Applied a ts qs \<Rightarrow> qs | _ \<Rightarrow> [])"
  "dropped (evs @ [ev]) = dropped evs @ (case ev of Applied a ts qs \<Rightarrow> if qs = [] then ts else [] | _ \<Rightarrow> [])"
  "taken (evs @ [ev]) = taken evs @ (case ev of Took i t \<Rightarrow> [t] | _ \<Rightarrow> [])"
  "filed_traces (evs @ [ev]) = filed_traces evs @ (case ev of Filed i t \<Rightarrow> [t] | _ \<Rightarrow> [])"
  "anchors_of (evs @ [ev]) = anchors_of evs @ (case ev of Applied a ts qs \<Rightarrow> [a] | _ \<Rightarrow> [])"
  "made [] = []" "queued [] = []" "dropped [] = []" "taken [] = []" "filed_traces [] = []" "anchors_of [] = []"
  by (simp_all add: made_def queued_def dropped_def taken_def filed_traces_def anchors_of_def)

section \<open>Accounting for the traces\<close>

fun held_list :: "(nat \<Rightarrow> execution_trace option) \<Rightarrow> nat \<Rightarrow> execution_trace list" where
  "held_list h 0 = []"
| "held_list h (Suc n) = held_list h n @ (case h n of None \<Rightarrow> [] | Some t \<Rightarrow> [t])"

lemma held_list_other: "n \<le> i \<Longrightarrow> held_list (h(i := x)) n = held_list h n"
  by (induction n) simp_all

lemma held_list_upd:
  "i < n \<Longrightarrow> mset (held_list (h(i := x)) n) = mset (held_list (h(i := None)) n) + (case x of None \<Rightarrow> {#} | Some t \<Rightarrow> {#t#})"
  by (induction n) (auto simp: held_list_other less_Suc_eq split: option.split)

text \<open>What an application leaves alone in the telemetry.\<close>

definition tel_view :: "'n sovereign_router \<Rightarrow> ((string \<rightharpoonup> zk_proof) \<times> int \<times> nat) option" where
  "tel_view r = map_option (\<lambda>t. (zk_registry t, tel_workers t, chan_cap (trace_queue t))) (sr_telemetry r)"

text \<open>An application either leaves telemetry and private state alone or commits one payload.\<close>

definition executes :: "'n sovereign_router \<Rightarrow> anchored_transaction \<Rightarrow> 'n sovereign_router \<times> go_error option \<Rightarrow> bool" where
  "executes r a out \<longleftrightarrow> snd out = None \<and> at_jurisdiction a = node_jurisdiction (vaults r (sr_vault r))"

definition app_shape :: "'n sovereign_router \<Rightarrow> anchored_transaction \<Rightarrow> 'n sovereign_router \<times> go_error option \<Rightarrow> bool" where
  "app_shape r a out \<longleftrightarrow> (\<exists>x. sr_telemetry x = sr_telemetry r \<and> private_state x = private_state r \<and>
     (if executes r a out then \<exists>d. fst out = sovereign_commit a d x else fst out = x))"

lemma app_shape_same:
  "at_jurisdiction a \<noteq> node_jurisdiction (vaults r (sr_vault r)) \<Longrightarrow> app_shape r a (r\<lparr>global_state := g\<rparr>, None)"
  "app_shape r a (r\<lparr>global_state := g\<rparr>, Some e)" "app_shape r a (r\<lparr>global_state := g, sr_network := n, vaults := vs\<rparr>, Some e)"
  by (simp_all add: app_shape_def executes_def)

lemma app_shape_commit:
  "sr_telemetry x = sr_telemetry r \<Longrightarrow> private_state x = private_state r \<Longrightarrow>
     at_jurisdiction a = node_jurisdiction (vaults r (sr_vault r)) \<Longrightarrow> app_shape r a (sovereign_commit a d x, None)"
  unfolding app_shape_def executes_def by (intro exI [of _ x]) auto

lemma apply_shape: "app_shape r a (sovereign_apply request r a)"
  unfolding sovereign_apply_def Let_def
  by (auto intro!: app_shape_same app_shape_commit split: sum.split option.split bool.split prod.split)

lemma commit_telemetry:
  "tel_view (sovereign_commit a d x) = tel_view x"
  "queue_of (sovereign_commit a d x) = queue_of x @
     (case sr_telemetry x of None \<Rightarrow> []
      | Some tel \<Rightarrow> if length (chan_buf (trace_queue tel)) < chan_cap (trace_queue tel)
          then [\<lparr>et_tx_id = at_tx_id a, et_jurisdiction = at_jurisdiction a,
                 et_pre_root = sha256 (index_or [] (private_state x) (at_tx_id a)), et_post_root = sha256 d,
                 et_payload_hash = at_payload_hash a\<rparr>] else [])"
  by (auto simp: sovereign_commit_def tel_view_def queue_of_def try_send_def index_or_def Let_def split: option.split)

text \<open>The one trace an execution makes enters the queue exactly when there is room.\<close>

lemma apply_telemetry:
  fixes r :: "'n sovereign_router" and request :: "'n peer_network" and a :: anchored_transaction
  defines "out \<equiv> sovereign_apply request r a"
  shows "tel_view (fst out) = tel_view r" and "queue_of (fst out) = queue_of r @ new_traces r (fst out)"
    and "sr_telemetry r = Some tel \<Longrightarrow> new_traces r (fst out) =
      (if length (chan_buf (trace_queue tel)) < chan_cap (trace_queue tel) then made_traces r a out else [])"
proof -
  obtain x where x: "sr_telemetry x = sr_telemetry r" "private_state x = private_state r"
    "executes r a out \<and> (\<exists>d. fst out = sovereign_commit a d x) \<or> \<not> executes r a out \<and> fst out = x"
    using apply_shape [of r a request] unfolding app_shape_def out_def [symmetric] by (metis (no_types))
  have same: "tel_view x = tel_view r" "queue_of x = queue_of r" using x(1) by (simp_all add: tel_view_def queue_of_def)
  show "tel_view (fst out) = tel_view r" using x(3) by (elim disjE conjE exE) (simp_all add: commit_telemetry(1) same(1))
  have "\<exists>ts. queue_of (fst out) = queue_of r @ ts"
    using x(3) by (elim disjE conjE exE) (simp_all add: commit_telemetry(2) same(2))
  then show "queue_of (fst out) = queue_of r @ new_traces r (fst out)" by (auto simp: new_traces_def)
  assume tel: "sr_telemetry r = Some tel"
  show "new_traces r (fst out) =
      (if length (chan_buf (trace_queue tel)) < chan_cap (trace_queue tel) then made_traces r a out else [])"
  proof (cases "executes r a out")
    case True
    then obtain d where d: "fst out = sovereign_commit a d x" using x(3) by blast
    then have "index_or [] (private_state (fst out)) (at_tx_id a) = d" by (simp add: index_or_def)
    with True d tel x(1,2) same(2) show ?thesis
      by (simp add: new_traces_def commit_telemetry(2) made_traces_def executes_def)
  next
    case False
    then have "fst out = x" using x(3) by blast
    with False show ?thesis using same(2) by (auto simp: new_traces_def made_traces_def executes_def)
  qed
qed

text \<open>Where a trace comes from: its anchor, and what the anchored payload hashes to.\<close>

lemma made_traces_anchored:
  assumes "t \<in> set (made_traces r a (sovereign_apply request r a))"
  shows "et_tx_id t = at_tx_id a \<and> at_jurisdiction a = node_jurisdiction (vaults r (sr_vault r)) \<and>
     (et_post_root t = at_payload_hash a \<or> \<not> shares_vault r \<and> et_post_root t = sha256 [])"
proof -
  from assms have e: "snd (sovereign_apply request r a) = None" "at_jurisdiction a = node_jurisdiction (vaults r (sr_vault r))"
    and t: "et_tx_id t = at_tx_id a" "et_post_root t = sha256 (index_or [] (private_state (fst (sovereign_apply request r a))) (at_tx_id a))"
    by (auto simp: made_traces_def split: if_splits)
  from sovereign_apply_step [where request = request and r = r and a = a] e
  obtain d where "private_state (fst (sovereign_apply request r a)) = (private_state r)(at_tx_id a \<mapsto> d)"
    "sha256 d = at_payload_hash a \<or> \<not> shares_vault r \<and> d = []" by (auto simp: case_prod_beta)
  with e t show ?thesis by (auto simp: index_or_def)
qed

text \<open>
  What holds of a node in every run from its start, on a fixed jurisdiction \<open>j\<close>, number of workers and
  fetcher; \<open>own\<close> says that the fetcher fills the router's vault.
\<close>

definition trace_of :: "bool \<Rightarrow> string \<Rightarrow> execution_trace \<Rightarrow> anchored_transaction \<Rightarrow> bool" where
  "trace_of own j t a \<longleftrightarrow> at_tx_id a = et_tx_id t \<and> at_jurisdiction a = j \<and>
     (et_post_root t = at_payload_hash a \<or> \<not> own \<and> et_post_root t = sha256 [])"

definition drops_when_full :: "node_event list \<Rightarrow> bool" where
  "drops_when_full evs \<longleftrightarrow> (\<forall>xs a t ts ys. evs = xs @ Applied a (t # ts) [] # ys \<longrightarrow> length (queued xs) = length (taken xs) + 10000)"

definition node_inv :: "bool \<Rightarrow> string \<Rightarrow> int \<Rightarrow> node_event list \<Rightarrow> 'n sovereign_node \<Rightarrow> bool" where
  "node_inv own j n evs s \<longleftrightarrow> shares_vault (sn_router s) = own \<and> node_jurisdiction (vaults (sn_router s) (sr_vault (sn_router s))) = j \<and>
     tel_view (sn_router s) = Some (foldl (\<lambda>m t. file_proof t m) Map.empty (filed_traces evs), n, 10000) \<and>
     length (queue_of (sn_router s)) \<le> 10000 \<and>
     taken evs @ queue_of (sn_router s) = queued evs \<and> mset (made evs) = mset (queued evs) + mset (dropped evs) \<and>
     mset (taken evs) = mset (filed_traces evs) + mset (held_list (sn_held s) (nat n)) \<and> drops_when_full evs \<and>
     (\<forall>t \<in> set (made evs). \<exists>a \<in> set (anchors_of evs). trace_of own j t a)"

lemma drops_when_full_snoc:
  assumes "drops_when_full evs" and "\<And>a t ts. ev = Applied a (t # ts) [] \<Longrightarrow> length (queued evs) = length (taken evs) + 10000"
  shows "drops_when_full (evs @ [ev])"
  unfolding drops_when_full_def
proof (intro allI impI)
  fix xs a t ts ys assume e: "evs @ [ev] = xs @ Applied a (t # ts) [] # ys"
  show "length (queued xs) = length (taken xs) + 10000"
  proof (cases ys rule: rev_cases)
    case Nil
    with e assms(2) show ?thesis by simp
  next
    case (snoc zs z)
    with e have "evs = xs @ Applied a (t # ts) [] # zs" by simp
    with assms(1) show ?thesis unfolding drops_when_full_def by blast
  qed
qed

lemma node_inv_telemetry:
  "node_inv own j n evs s \<Longrightarrow> \<exists>tel. sr_telemetry (sn_router s) = Some tel \<and> tel_workers tel = n \<and>
     chan_cap (trace_queue tel) = 10000 \<and> queue_of (sn_router s) = chan_buf (trace_queue tel) \<and>
     zk_registry tel = foldl (\<lambda>m t. file_proof t m) Map.empty (filed_traces evs)"
  by (auto simp: node_inv_def tel_view_def queue_of_def)

lemma router_upd [simp]:
  "shares_vault (r\<lparr>sr_telemetry := x\<rparr>) = shares_vault r" "tel_view (r\<lparr>sr_telemetry := Some tel\<rparr>) = Some (zk_registry tel, tel_workers tel, chan_cap (trace_queue tel))"
  "queue_of (r\<lparr>sr_telemetry := Some tel\<rparr>) = chan_buf (trace_queue tel)"
  by (simp_all add: shares_vault_def tel_view_def queue_of_def)

lemma node_inv_applied:
  fixes s :: "'n sovereign_node" and request :: "'n peer_network" and a :: anchored_transaction
  defines "out \<equiv> sovereign_apply request (sn_router s) a"
  assumes "node_inv own j n evs s"
  shows "node_inv own j n (evs @ [Applied a (made_traces (sn_router s) a out) (new_traces (sn_router s) (fst out))])
     (s\<lparr>sn_router := fst out\<rparr>)"
proof -
  let ?r = "sn_router s" and ?ts = "made_traces (sn_router s) a out" and ?qs = "new_traces (sn_router s) (fst out)"
  note inv = assms(2) [unfolded node_inv_def]
  obtain tel where tel: "sr_telemetry ?r = Some tel" "chan_cap (trace_queue tel) = 10000" "queue_of ?r = chan_buf (trace_queue tel)"
    using node_inv_telemetry [OF assms(2)] by blast
  have set_up: "same_set_up ?r (fst out)" unfolding out_def by (rule same_set_up_apply)
  then have own: "shares_vault (fst out) = own" "node_jurisdiction (vaults (fst out) (sr_vault (fst out))) = j"
    using inv by (auto simp: same_set_up_def shares_vault_def)
  note t = apply_telemetry [where request = request and r = ?r and a = a, folded out_def]
  have qs: "?qs = (if length (queue_of ?r) < 10000 then ?ts else [])" using t(3) [OF tel(1)] tel(2,3) by simp
  have short: "length ?ts \<le> 1" by (simp add: made_traces_def)
  have len: "length (queue_of (fst out)) \<le> 10000" using inv t(2) qs short by (auto split: if_splits)
  have full: "length (queue_of ?r) = 10000" if "?ts \<noteq> []" "?qs = []"
    using that qs inv by (cases "length (queue_of ?r) < 10000") auto
  have "length (queued evs) = length (taken evs) + length (queue_of ?r)" using inv by (metis length_append)
  then have dwf: "drops_when_full (evs @ [Applied a ?ts ?qs])" using inv full by (intro drops_when_full_snoc) auto
  have bag: "mset ?ts = mset ?qs + mset (if ?qs = [] then ?ts else [])" using qs by simp
  have src: "\<forall>t \<in> set ?ts. trace_of own j t a"
    using made_traces_anchored [where r = ?r and a = a and request = request, folded out_def] inv by (auto simp: trace_of_def)
  show ?thesis
    unfolding node_inv_def using inv own t(1,2) len dwf bag src by (auto simp del: mset_append simp: mset_append)
qed

lemma node_inv_step:
  assumes "sovereign_step request s ev s'" and "node_inv own j n evs s"
  shows "node_inv own j n (evs @ [ev]) s'"
  using assms
proof (induction rule: sovereign_step.induct)
  case (applied s a r' err)
  then show ?case using node_inv_applied [where own = own and j = j and n = n and evs = evs and s = s and request = request and a = a] by simp
next
  case (took s tel i trace q)
  from node_inv_telemetry [OF took.prems] took.hyps(1)
  have tel: "tel_workers tel = n" "chan_cap (trace_queue tel) = 10000" "queue_of (sn_router s) = chan_buf (trace_queue tel)"
    "zk_registry tel = foldl (\<lambda>m t. file_proof t m) Map.empty (filed_traces evs)" by auto
  have q: "chan_buf (trace_queue tel) = trace # chan_buf q" "chan_cap q = 10000"
    using took.hyps(4) tel(2) by (auto simp: recv_def split: list.splits)
  have i: "i < nat n" using took.hyps(2) tel(1) by simp
  have same: "(sn_held s)(i := None) = sn_held s" using took.hyps(3) by auto
  have dwf: "drops_when_full (evs @ [Took i trace])" using took.prems by (intro drops_when_full_snoc) (auto simp: node_inv_def)
  show ?case
    using took.prems held_list_upd [OF i, of "sn_held s" "Some trace"] dwf same by (auto simp: node_inv_def tel q)
next
  case (filed s tel i trace)
  from node_inv_telemetry [OF filed.prems] filed.hyps(1)
  have tel: "tel_workers tel = n" "chan_cap (trace_queue tel) = 10000" "queue_of (sn_router s) = chan_buf (trace_queue tel)"
    "zk_registry tel = foldl (\<lambda>m t. file_proof t m) Map.empty (filed_traces evs)" by auto
  have i: "i < nat n" using filed.hyps(2) tel(1) by simp
  have same: "(sn_held s)(i := Some trace) = sn_held s" using filed.hyps(3) by auto
  have dwf: "drops_when_full (evs @ [Filed i trace])" using filed.prems by (intro drops_when_full_snoc) (auto simp: node_inv_def)
  show ?case
    using filed.prems held_list_upd [OF i, of "sn_held s" "Some trace"] dwf same by (auto simp: node_inv_def tel)
qed

definition new_sovereign_node :: "'n sovereign_router \<Rightarrow> 'n sovereign_node" where
  "new_sovereign_node r = \<lparr>sn_router = r, sn_held = (\<lambda>_. None)\<rparr>"

lemma held_list_empty [simp]: "held_list (\<lambda>_. None) n = []"
  by (induction n) simp_all

lemma node_inv_run:
  assumes "sovereign_node_run request s0 evs s" and "node_inv own j n [] s0"
  shows "node_inv own j n evs s"
  using assms by (induction rule: sovereign_node_run.induct) (auto intro: node_inv_step)

lemma registry_from_filed:
  "foldl (\<lambda>m t. file_proof t m) Map.empty ts tx = Some p \<Longrightarrow>
     \<exists>t \<in> set ts. et_tx_id t = tx \<and> zk_proof p = sha256 (et_pre_root t @ et_post_root t)"
  by (induction ts rule: rev_induct) (auto simp: file_proof_def mock_prover_def split: if_splits)

text \<open>
  C22: The telemetry of a node, over any run with any number of workers, any fetcher and any peer
  network: every trace an execution made waits in the queue, is held by a worker, has been filed,
  or was dropped, none twice and none otherwise lost; and a trace was dropped only at a moment
  when 10000 of them waited. Every proof an auditor finds for a transaction was made for an anchor
  of that transaction, of the node's own jurisdiction, with the anchored hash as the state it leads
  to, or the hash of the empty payload where the fetcher was built on another vault than the router's.
\<close>

theorem telemetry_accounts_for_every_trace:
  assumes "sovereign_node_run request (new_sovereign_node (new_sovereign_router vs v fetcher (Some (new_telemetry_pipeline n)) net)) evs s"
  shows "\<exists>tel. sr_telemetry (sn_router s) = Some tel \<and>
     mset (made evs) = mset (filed_traces evs) + mset (held_list (sn_held s) (nat n)) + mset (chan_buf (trace_queue tel)) + mset (dropped evs) \<and>
     (\<forall>xs a t ts ys. evs = xs @ Applied a (t # ts) [] # ys \<longrightarrow> length (queued xs) = length (taken xs) + 10000) \<and>
     (\<forall>tx p. zk_registry tel tx = Some p \<longrightarrow> (\<exists>a \<in> set (anchors_of evs). \<exists>pre root. at_tx_id a = tx \<and>
        at_jurisdiction a = node_jurisdiction (vs v) \<and> zk_proof p = sha256 (pre @ root) \<and>
        (root = at_payload_hash a \<or> root = sha256 [] \<and> fetcher \<noteq> None \<and> fetcher \<noteq> Some v)))"
proof -
  let ?s0 = "new_sovereign_node (new_sovereign_router vs v fetcher (Some (new_telemetry_pipeline n)) net)"
  let ?own = "fetcher = None \<or> fetcher = Some v" and ?j = "node_jurisdiction (vs v)"
  have "node_inv ?own ?j n [] ?s0"
    by (auto simp: node_inv_def new_sovereign_node_def new_sovereign_router_def new_telemetry_pipeline_def
        shares_vault_def tel_view_def queue_of_def make_chan_def drops_when_full_def)
  from node_inv_run [OF assms this] have inv: "node_inv ?own ?j n evs s" .
  then obtain tel where tel: "sr_telemetry (sn_router s) = Some tel" "queue_of (sn_router s) = chan_buf (trace_queue tel)"
    "zk_registry tel = foldl (\<lambda>m t. file_proof t m) Map.empty (filed_traces evs)" using node_inv_telemetry by blast
  have "mset (queued evs) = mset (taken evs) + mset (queue_of (sn_router s))" using inv unfolding node_inv_def by (metis mset_append)
  then have bag: "mset (made evs) = mset (filed_traces evs) + mset (held_list (sn_held s) (nat n)) + mset (chan_buf (trace_queue tel)) + mset (dropped evs)"
    using inv tel(2) unfolding node_inv_def by simp
  have "\<exists>a \<in> set (anchors_of evs). \<exists>pre root. at_tx_id a = tx \<and> at_jurisdiction a = ?j \<and> zk_proof p = sha256 (pre @ root) \<and>
      (root = at_payload_hash a \<or> root = sha256 [] \<and> fetcher \<noteq> None \<and> fetcher \<noteq> Some v)" if "zk_registry tel tx = Some p" for tx p
  proof -
    from registry_from_filed that [unfolded tel(3)] obtain t where
      t: "t \<in> set (filed_traces evs)" "et_tx_id t = tx" "zk_proof p = sha256 (et_pre_root t @ et_post_root t)" by blast
    then have "t \<in># mset (made evs)" by (simp add: bag)
    then obtain a where "a \<in> set (anchors_of evs)" "trace_of ?own ?j t a" using inv by (auto simp: node_inv_def)
    with t show ?thesis unfolding trace_of_def by (metis (no_types, lifting))
  qed
  with tel(1) bag inv show ?thesis unfolding node_inv_def drops_when_full_def by blast
qed

section \<open>The node that main boots\<close>

text \<open>
  \<^verbatim>\<open>main\<close> reads the jurisdiction from the environment, builds vault, telemetry with two workers and
  the router, which gets no fetcher; \<open>net\<close> is the peer network, which nothing is wired to. Root
  certificate, identity gate and ledger are made and not used.
\<close>

definition boot_jurisdiction :: "string \<Rightarrow> string" where
  "boot_jurisdiction env = (if env = [] then ''AE-DU'' else env)"

definition boot_node :: "string \<Rightarrow> 'n \<Rightarrow> 'n sovereign_node" where
  "boot_node env net =
     (let vault = new_jurisdiction_vault (boot_jurisdiction env);
          telemetry = new_telemetry_pipeline 2;
          router = new_sovereign_router (\<lambda>_. vault) 0 None (Some telemetry) net
      in new_sovereign_node router)"

definition idle_node :: "string \<Rightarrow> 'n sovereign_node \<Rightarrow> bool" where
  "idle_node j s \<longleftrightarrow> sr_fetcher (sn_router s) = None \<and> private_state (sn_router s) = Map.empty \<and> queue_of (sn_router s) = [] \<and>
     vaults (sn_router s) (sr_vault (sn_router s)) = new_jurisdiction_vault j \<and> sn_held s = (\<lambda>_. None)"

lemma idle_apply:
  assumes "sr_fetcher r = None" and "vaults r (sr_vault r) = new_jurisdiction_vault j"
  shows "sovereign_apply request r a = (r\<lparr>global_state := (global_state r)(at_tx_id a \<mapsto> at_payload_hash a)\<rparr>,
     if at_jurisdiction a = j then Some (NewError ''execution stalled: PAYLOAD_MISSING: Authorized node lacks side-channel data'') else None)"
  using assms by (simp add: sovereign_apply_def new_jurisdiction_vault_def retrieve_and_verify_def Let_def split: bool.split)

lemma idle_step: "sovereign_step request s ev s' \<Longrightarrow> idle_node j s \<Longrightarrow> idle_node j s' \<and> (\<exists>a. ev = Applied a [] [])"
proof (induction rule: sovereign_step.induct)
  case (applied s a r' err)
  then have r': "r' = (sn_router s)\<lparr>global_state := (global_state (sn_router s))(at_tx_id a \<mapsto> at_payload_hash a)\<rparr>"
    using idle_apply [of "sn_router s" j request a] by (simp add: idle_node_def)
  then have "queue_of r' = queue_of (sn_router s)" by (simp add: queue_of_def)
  moreover have "made_traces (sn_router s) a (r', err) = []"
    using applied idle_apply [of "sn_router s" j request a]
    by (auto simp: made_traces_def idle_node_def new_jurisdiction_vault_def split: if_splits)
  ultimately show ?case using r' applied.prems by (simp add: idle_node_def new_traces_def)
next
  case (took s tel i trace q)
  then show ?case by (simp add: idle_node_def queue_of_def recv_def)
next
  case (filed s tel i trace)
  then show ?case by (simp add: idle_node_def)
qed

lemma idle_run: "sovereign_node_run request s evs s' \<Longrightarrow> idle_node j s \<Longrightarrow> idle_node j s' \<and> made evs = [] \<and> taken evs = []"
proof (induction rule: sovereign_node_run.induct)
  case (node_snoc s evs s' ev s'')
  then show ?case using idle_step [OF node_snoc.hyps(2)] by fastforce
qed simp

text \<open>
  The node as it is booted executes no private transaction: without a fetcher, and as nothing else
  fills its vault, over any run every anchor of its own jurisdiction stalls, the private state
  stays empty and the workers of its telemetry have nothing to prove, whatever the peers hold.
\<close>

theorem booted_node_executes_nothing:
  assumes "sovereign_node_run request (boot_node env net) evs s"
  shows "private_state (sn_router s) = Map.empty \<and> made evs = [] \<and> taken evs = [] \<and>
     snd (sovereign_apply request' (sn_router s) a) =
       (if at_jurisdiction a = boot_jurisdiction env
        then Some (NewError ''execution stalled: PAYLOAD_MISSING: Authorized node lacks side-channel data'') else None)"
proof -
  have "idle_node (boot_jurisdiction env) (boot_node env net)"
    by (simp add: idle_node_def boot_node_def new_sovereign_node_def new_sovereign_router_def new_telemetry_pipeline_def
        queue_of_def make_chan_def Let_def)
  from idle_run [OF assms this] have "idle_node (boot_jurisdiction env) s" "made evs = []" "taken evs = []" by simp_all
  then show ?thesis using idle_apply [of "sn_router s" "boot_jurisdiction env" request' a] by (simp add: idle_node_def)
qed

section \<open>Sample runs\<close>

theorem booted_node_executes_nothing_witness:
  "\<exists>s. sovereign_node_run (sample_network ''deed'') (boot_node [] ()) [Applied (sample_anchor (sha256 ''deed'')) [] []] s \<and>
     private_state (sn_router s) = Map.empty \<and> snd (sovereign_apply (sample_network ''deed'') (sn_router s) (sample_anchor (sha256 ''deed''))) \<noteq> None"
proof -
  let ?a = "sample_anchor (sha256 ''deed'')" and ?s = "boot_node [] () :: unit sovereign_node"
  let ?out = "sovereign_apply (sample_network ''deed'') (sn_router ?s) ?a"
  have "idle_node ''AE-DU'' ?s"
    by (simp add: idle_node_def boot_node_def new_sovereign_node_def new_sovereign_router_def new_telemetry_pipeline_def
        queue_of_def make_chan_def boot_jurisdiction_def Let_def)
  moreover have step: "sovereign_step (sample_network ''deed'') ?s (Applied ?a (made_traces (sn_router ?s) ?a ?out) (new_traces (sn_router ?s) (fst ?out))) (?s\<lparr>sn_router := fst ?out\<rparr>)"
    using sovereign_step.applied [of "sample_network ''deed''" ?s ?a "fst ?out" "snd ?out"] by simp
  ultimately have "made_traces (sn_router ?s) ?a ?out = []" "new_traces (sn_router ?s) (fst ?out) = []" using idle_step [OF step] by simp_all
  with node_snoc [OF node_nil step] have run: "sovereign_node_run (sample_network ''deed'') ?s [Applied ?a [] []] (?s\<lparr>sn_router := fst ?out\<rparr>)"
    by simp
  have "at_jurisdiction ?a = boot_jurisdiction []" by (simp add: sample_anchor_def boot_jurisdiction_def)
  with booted_node_executes_nothing [OF run, of "sample_network ''deed''" ?a] run show ?thesis by auto
qed

theorem telemetry_accounts_for_every_trace_witness:
  "\<exists>t s. sovereign_node_run (sample_network ''deed'')
      (new_sovereign_node (new_sovereign_router (\<lambda>_. new_jurisdiction_vault ''AE-DU'') 0 (Some 0) (Some (new_telemetry_pipeline 2)) ()))
      [Applied (sample_anchor (sha256 ''deed'')) [t] [t], Took 1 t] s \<and> (\<exists>tel. sr_telemetry (sn_router s) = Some tel) \<and> sn_held s 1 = Some t"
proof -
  let ?a = "sample_anchor (sha256 ''deed'')"
  let ?r = "new_sovereign_router (\<lambda>_. new_jurisdiction_vault ''AE-DU'') 0 (Some 0) (Some (new_telemetry_pipeline 2)) () :: unit sovereign_router"
  let ?s = "new_sovereign_node ?r" and ?out = "sovereign_apply (sample_network ''deed'') ?r ?a"
  have miss: "contains ''PAYLOAD_MISSING: Authorized node lacks side-channel data'' ''PAYLOAD_MISSING''"
    by (simp add: contains.simps has_prefix_def)
  have out: "\<exists>t. queue_of (fst ?out) = [t] \<and> queue_of ?r = [] \<and> (\<exists>tel. sr_telemetry (fst ?out) = Some tel \<and> tel_workers tel = 2)"
    using miss
    by (simp add: new_sovereign_router_def new_jurisdiction_vault_def sample_anchor_def sovereign_apply_def sovereign_commit_def
        retrieve_and_verify_def fetch_and_store_cases sample_network_def queue_of_def new_telemetry_pipeline_def make_chan_def
        try_send_def Let_def)
  then obtain t tel where t: "queue_of (fst ?out) = [t]" "queue_of ?r = []" "sr_telemetry (fst ?out) = Some tel" "tel_workers tel = 2" by blast
  have "sovereign_step (sample_network ''deed'') ?s (Applied ?a (made_traces (sn_router ?s) ?a ?out) (new_traces (sn_router ?s) (fst ?out))) (?s\<lparr>sn_router := fst ?out\<rparr>)"
    using sovereign_step.applied [of "sample_network ''deed''" ?s ?a "fst ?out" "snd ?out"] by (simp add: new_sovereign_node_def)
  moreover have q: "new_traces ?r (fst ?out) = [t]" using t by (simp add: new_traces_def)
  moreover have "made_traces ?r ?a ?out = [t]"
  proof -
    have "sr_telemetry ?r = Some (new_telemetry_pipeline 2)" by (simp add: new_sovereign_router_def)
    from apply_telemetry(3) [where request = "sample_network ''deed''" and a = ?a, OF this] q show ?thesis
      by (simp add: new_telemetry_pipeline_def make_chan_def)
  qed
  ultimately have first: "sovereign_step (sample_network ''deed'') ?s (Applied ?a [t] [t]) (?s\<lparr>sn_router := fst ?out\<rparr>)"
    by (simp add: new_sovereign_node_def)
  have "chan_buf (trace_queue tel) = [t]" using t by (simp add: queue_of_def)
  then have second: "sovereign_step (sample_network ''deed'') (?s\<lparr>sn_router := fst ?out\<rparr>) (Took 1 t)
     (?s\<lparr>sn_router := (fst ?out)\<lparr>sr_telemetry := Some (tel\<lparr>trace_queue := (trace_queue tel)\<lparr>chan_buf := []\<rparr>\<rparr>)\<rparr>,
         sn_held := (\<lambda>_. None)(1 := Some t)\<rparr>)"
    using sovereign_step.took [of "?s\<lparr>sn_router := fst ?out\<rparr>" tel 1 t "(trace_queue tel)\<lparr>chan_buf := []\<rparr>" "sample_network ''deed''"] t
    by (simp add: recv_def new_sovereign_node_def)
  let ?s2 = "?s\<lparr>sn_router := (fst ?out)\<lparr>sr_telemetry := Some (tel\<lparr>trace_queue := (trace_queue tel)\<lparr>chan_buf := []\<rparr>\<rparr>)\<rparr>,
         sn_held := (\<lambda>_. None)(1 := Some t)\<rparr>"
  from node_snoc [OF node_snoc [OF node_nil first] second]
  have run: "sovereign_node_run (sample_network ''deed'') ?s [Applied ?a [t] [t], Took 1 t] ?s2" by simp
  from telemetry_accounts_for_every_trace [OF run] have "\<exists>tel. sr_telemetry (sn_router ?s2) = Some tel" by blast
  moreover have "sn_held ?s2 1 = Some t" by simp
  ultimately show ?thesis using run by blast
qed

end
