(* ===== verification/StateRoots.thy ===== *)
theory StateRoots
  imports KvStore DistConfig MetadataService DistQueue DistLock ExecutionEngine Blocks
begin

text \<open>
  The type of what a state machine answers: whatever it is given, and whatever its storage does, an
  answer that is not an error is the root of the state it leaves, and a SHA-256 digest in hexadecimal.
\<close>

definition well_typed :: "('s \<Rightarrow> bytes) \<Rightarrow> 's \<times> bytes result \<Rightarrow> bool" where
  "well_typed root_of out = (case out of (_, Inl _) \<Rightarrow> True | (s, Inr root) \<Rightarrow> root = root_of s \<and> hex_root root)"

lemma well_typed_simps [simp]:
  "well_typed root_of (s, Inl e)" "well_typed root_of (s, Inr root) \<longleftrightarrow> root = root_of s \<and> hex_root root"
  by (auto simp: well_typed_def)

lemma well_typed_answer: "well_typed root_of (s, Inr root) \<Longrightarrow> hex_root root"
  by auto

lemma kv_well_typed: "well_typed kv_get_state_root (kv_apply api u ord kv c)"
  by (auto simp: kv_apply_def kv_recalculate_root_def kv_get_state_root_def Let_def split: sum.split prod.split option.split)

lemma config_well_typed: "well_typed config_get_state_root (config_apply u ord cs c)"
  by (auto simp: config_apply_def config_recalculate_root_def config_get_state_root_def Let_def split: sum.split option.split)

lemma meta_well_typed: "well_typed meta_get_state_root (meta_apply u ord ms c)"
  by (auto simp: meta_apply_def meta_recalculate_root_def meta_get_state_root_def Let_def split: sum.split option.split)

lemma queue_well_typed: "well_typed queue_get_state_root (queue_apply u ord qs c)"
  by (auto simp: queue_apply_def queue_recalculate_root_def queue_get_state_root_def Let_def split: sum.split option.split)

lemma lock_well_typed: "well_typed lock_get_state_root (lock_apply u env ls c)"
  by (auto simp: lock_apply_def lock_recalculate_root_def lock_get_state_root_def Let_def split: sum.split option.split prod.split)

lemma chain_well_typed: "well_typed chain_get_state_root (chain_apply api u env ch c)"
  by (auto simp: chain_apply_def chain_get_state_root_def Let_def split: sum.split option.split prod.split)

lemma exec_well_typed: "well_typed exec_get_state_root (exec_apply u env er c)"
  by (auto simp: exec_apply_def apply_transactional_def exec_get_state_root_def Let_def split: sum.split option.split prod.split)

text \<open>
  C25: Every state machine of the program, on any input, in any state and over any storage, either
  answers with an error or with the root of the state it leaves, 64 lower-case hexadecimal digits.
\<close>

theorem state_roots_are_digests:
  "well_typed kv_get_state_root (kv_apply api u1 o1 kv c) \<and> well_typed config_get_state_root (config_apply u2 o2 cs c) \<and>
   well_typed meta_get_state_root (meta_apply u3 o3 ms c) \<and> well_typed queue_get_state_root (queue_apply u4 o4 qs c) \<and>
   well_typed lock_get_state_root (lock_apply u5 o5 ls c) \<and> well_typed chain_get_state_root (chain_apply api' u6 o6 ch c) \<and>
   well_typed exec_get_state_root (exec_apply u7 o7 er c)"
  by (simp only: kv_well_typed config_well_typed meta_well_typed queue_well_typed lock_well_typed chain_well_typed exec_well_typed)

end
