(* ===== verification/ReplayJson.thy ===== *)
theory ReplayJson
  imports AppCodecs GoTime Replay StateRoots
begin

text \<open>
  The replay log as the JSON text that \<^verbatim>\<open>Serialize\<close> writes and \<^verbatim>\<open>Replay\<close> parses, with its time stamps
  in RFC 3339 (\<^verbatim>\<open>Time.UnmarshalJSON\<close> reads the raw text and refuses one with escapes), and with it
  the recorded run of a key-value store from bytes to bytes.
\<close>

section \<open>The codec\<close>

definition dec_time :: "int decoder" where
  "dec_time j old = (case j of JStr e s \<Rightarrow> if e then None else parse_time s | JNull \<Rightarrow> Some old | _ \<Rightarrow> None)"

definition enc_time :: "int \<Rightarrow> json" where "enc_time t = jstr (rfc3339_nano t)"

definition replay_fields :: "replay_entry field_table" where
  "replay_fields = [(''sequence'', field dec_uint re_sequence re_sequence_update),
     (''timestamp'', field dec_time re_timestamp re_timestamp_update),
     (''payload'', field dec_bytes re_payload re_payload_update),
     (''state_root'', field dec_string re_state_root re_state_root_update)]"

text \<open>The zero \<^verbatim>\<open>time.Time\<close> is the first instant of the year 1.\<close>

definition replay_zero :: replay_entry where
  "replay_zero = \<lparr>re_sequence = 0, re_timestamp = join_instant 0 0 0, re_payload = [], re_state_root = []\<rparr>"

definition enc_replay_entry :: "replay_entry \<Rightarrow> json" where
  "enc_replay_entry e = JObj [(''sequence'', enc_uint (re_sequence e)), (''timestamp'', enc_time (re_timestamp e)),
     (''payload'', enc_bytes False (re_payload e)), (''state_root'', jstr (re_state_root e))]"

definition enc_replay :: "replay_entry list \<Rightarrow> json" where
  "enc_replay es = enc_slice False enc_replay_entry es"

text \<open>\<^verbatim>\<open>Time.MarshalJSON\<close> refuses a year that does not fit four digits.\<close>

definition replay_marshal :: "replay_entry list \<Rightarrow> bytes result" where
  "replay_marshal es = (if \<forall>e \<in> set es. year_in_range (re_timestamp e) then Inr (json_print_indent (enc_replay es))
     else Inl (NewError ''Time.MarshalJSON: year outside of range [0,9999]''))"

definition replay_unmarshal :: "bytes \<Rightarrow> replay_entry list result" where
  "replay_unmarshal = json_unmarshal (dec_slice (dec_struct replay_fields) replay_zero) []"

definition replay_entry_good :: "replay_entry \<Rightarrow> bool" where
  "replay_entry_good e \<longleftrightarrow> year_in_range (re_timestamp e) \<and> valid_text (re_state_root e)"

definition replay_good :: "replay_entry list \<Rightarrow> bool" where
  "replay_good es \<longleftrightarrow> (\<forall>e \<in> set es. replay_entry_good e)"

lemma dec_time_enc [codec]: "year_in_range t \<Longrightarrow> dec_time (sanitize_json (enc_time t)) old = Some t"
  by (simp add: dec_time_def enc_time_def parse_rfc3339_nano)

lemma enc_time_ok [codec]: "numbers_ok (enc_time t)" "height (enc_time t) = 0"
  by (simp_all add: enc_time_def)

lemma dec_replay_entry:
  "replay_entry_good e \<Longrightarrow> dec_struct replay_fields (sanitize_json (enc_replay_entry e)) old = Some e"
  by (simp add: enc_replay_entry_def replay_fields_def replay_entry_good_def codec)

interpretation replay_codec: json_codec enc_replay "dec_slice (dec_struct replay_fields) replay_zero" "[]" replay_good
proof
  fix es assume "replay_good es"
  then have es: "\<And>e. e \<in> set es \<Longrightarrow> replay_entry_good e" by (simp add: replay_good_def)
  have entry: "numbers_ok (enc_replay_entry e)" "height (enc_replay_entry e) = 1" for e
    by (simp_all add: enc_replay_entry_def codec)
  then show "numbers_ok (enc_replay es)" by (simp add: enc_replay_def numbers_enc_slice)
  show "height (enc_replay es) \<le> max_nesting"
    using height_enc_slice [of es enc_replay_entry 1 False] entry by (simp add: enc_replay_def max_nesting_def)
  show "dec_slice (dec_struct replay_fields) replay_zero (sanitize_json (enc_replay es)) [] = Some es"
    unfolding enc_replay_def by (rule dec_slice_enc) (simp add: es dec_replay_entry)
qed

lemma replay_round_trip:
  assumes "replay_good es"
  shows "\<exists>data. replay_marshal es = Inr data \<and> replay_unmarshal data = Inr es"
proof -
  have "\<forall>e \<in> set es. year_in_range (re_timestamp e)" using assms by (simp add: replay_good_def replay_entry_good_def)
  then have "replay_marshal es = Inr (json_print_indent (enc_replay es))" by (simp add: replay_marshal_def)
  then show ?thesis using replay_codec.unmarshal_marshal_indent [OF assms] by (simp add: replay_unmarshal_def)
qed

section \<open>Recorded runs\<close>

text \<open>A machine whose answers are roots records entries that JSON can carry.\<close>

lemma hex_chars_ascii: "c \<in> hex_chars \<Longrightarrow> code c < 128"
  by (auto simp: hex_chars_def)

lemma hex_root_valid: "hex_root s \<Longrightarrow> valid_text s"
  by (rule valid_text_ascii) (auto simp: hex_root_def ascii_def intro: hex_chars_ascii)

lemma recorded_entries_good:
  assumes "\<And>e s c. well_typed root_of (apply_log e s c)" and "\<forall>i. year_in_range (clock i)" and "replay_good (rl_entries rl)"
  shows "replay_good (rl_entries (snd (record_run apply_log clock s rl cs)))"
  using assms(3)
proof (induction cs arbitrary: s rl)
  case (Cons x cs)
  obtain e c where x: "x = (e, c)" by (cases x)
  obtain s' res where step: "apply_log e s c = (s', res)" by (cases "apply_log e s c")
  show ?case
  proof (cases res)
    case (Inl err)
    then show ?thesis using Cons x step by simp
  next
    case (Inr root)
    with step assms(1) [of e s c] have "hex_root root" by auto
    then have "replay_good (rl_entries (record_entry (clock (length (rl_entries rl))) rl c root))"
      using Cons.prems assms(2) hex_root_valid by (simp add: replay_good_def replay_entry_good_def)
    then show ?thesis using Cons.IH x step Inr by simp
  qed
qed simp

text \<open>
  C8: From bytes to bytes: a key-value store on memory that runs through any commits, each of them any
  bytes, with a log beside it, serialises the log to a JSON text without an error as long as the
  clock stays within the years 0 to 9999; replayed on a fresh store, under any legal order of
  its maps, the text brings back the same store and the same root, and no violation is reported.
\<close>

theorem replay_of_serialized_log:
  assumes "record_run (kv_apply memory_api kv_unmarshal) clock (new_kv_state new_memory_storage) new_replay_log cs = (kv, rl)"
    and "legal_run (kv_env_ok memory_api kv_unmarshal) (kv_apply memory_api kv_unmarshal) (new_kv_state new_memory_storage) cs"
    and "legal_run (kv_env_ok memory_api kv_unmarshal) (kv_apply memory_api kv_unmarshal) (new_kv_state new_memory_storage)
           (replay_calls env 0 (rl_entries rl))"
    and "\<forall>i. year_in_range (clock i)"
  shows "\<exists>data. serialize_log replay_marshal rl = Inr data \<and>
     replay (kv_apply memory_api kv_unmarshal) env replay_unmarshal (new_kv_state new_memory_storage) data
     = (kv, Inr (if rl_entries rl = [] then [] else kv_get_state_root kv))"
proof -
  have "replay_good (rl_entries rl)"
  proof -
    have "replay_good (rl_entries (snd (record_run (kv_apply memory_api kv_unmarshal) clock (new_kv_state new_memory_storage) new_replay_log cs)))"
      by (rule recorded_entries_good [OF kv_well_typed assms(4)]) (simp add: replay_good_def)
    then show ?thesis unfolding assms(1) snd_conv .
  qed
  from replay_round_trip [OF this] obtain data
    where data: "replay_marshal (rl_entries rl) = Inr data" "replay_unmarshal data = Inr (rl_entries rl)" by blast
  from assms(1-3) data(2) have "replay (kv_apply memory_api kv_unmarshal) env replay_unmarshal (new_kv_state new_memory_storage) data
     = (kv, Inr (if rl_entries rl = [] then [] else kv_get_state_root kv))" by (rule kv_replay.replay_from_scratch)
  with data(1) show ?thesis unfolding serialize_log_def by blast
qed

section \<open>A log of one put\<close>

lemma sample_put:
  assumes "u c = Inr \<lparr>kvp_op = ''PUT'', kvp_key = ''k'', kvp_value = ''v''\<rparr>"
  shows "\<exists>kv. kv_apply memory_api u [''k''] (new_kv_state new_memory_storage) c = (kv, Inr (kv_root kv)) \<and>
    in_memory kv = [''k'' \<mapsto> ''v''] \<and> kv_env_ok memory_api u [''k''] (new_kv_state new_memory_storage) c"
  by (simp add: kv_apply_def assms memory_put_def op_put_def new_kv_state_def Let_def kv_env_ok_def iter_order_def)

theorem replay_of_serialized_log_witness:
  "\<exists>kv rl data. record_run (kv_apply memory_api kv_unmarshal) (\<lambda>_. 0) (new_kv_state new_memory_storage) new_replay_log
       [([''k''], json_print (enc_kv \<lparr>kvp_op = ''PUT'', kvp_key = ''k'', kvp_value = ''v''\<rparr>))] = (kv, rl) \<and>
     serialize_log replay_marshal rl = Inr data \<and>
     replay (kv_apply memory_api kv_unmarshal) (\<lambda>_. [''k'']) replay_unmarshal (new_kv_state new_memory_storage) data
       = (kv, Inr (kv_get_state_root kv)) \<and> kv_get kv ''k'' = Some ''v''"
proof -
  let ?p = "\<lparr>kvp_op = ''PUT'', kvp_key = ''k'', kvp_value = ''v''\<rparr>"
  obtain c where c: "json_print (enc_kv ?p) = c" by blast
  let ?c = c and ?s = "new_kv_state new_memory_storage"
  have "kv_good ?p" by (simp add: kv_good_def)
  then have u: "kv_unmarshal ?c = Inr ?p" unfolding kv_unmarshal_def c [symmetric] by (rule kv_codec.unmarshal_marshal)
  from sample_put [of kv_unmarshal c, OF u] obtain kv where step: "kv_apply memory_api kv_unmarshal [''k''] ?s ?c = (kv, Inr (kv_root kv))"
    "in_memory kv = [''k'' \<mapsto> ''v'']" "kv_env_ok memory_api kv_unmarshal [''k''] ?s ?c" by blast
  let ?kv = kv
  let ?rl = "record_entry 0 new_replay_log ?c (kv_root ?kv)"
  have run: "record_run (kv_apply memory_api kv_unmarshal) (\<lambda>_. 0) ?s new_replay_log [([''k''], ?c)] = (?kv, ?rl)"
    by (simp add: step(1))
  from step(3) have legal: "legal_run (kv_env_ok memory_api kv_unmarshal) (kv_apply memory_api kv_unmarshal) ?s [([''k''], ?c)]"
    "legal_run (kv_env_ok memory_api kv_unmarshal) (kv_apply memory_api kv_unmarshal) ?s (replay_calls (\<lambda>_. [''k'']) 0 (rl_entries ?rl))"
    by simp_all
  have clock: "\<forall>i :: nat. year_in_range 0" by (simp add: year_in_range_0)
  from replay_of_serialized_log [OF run legal clock] obtain data where
    data: "serialize_log replay_marshal ?rl = Inr data"
      "replay (kv_apply memory_api kv_unmarshal) (\<lambda>_. [''k'']) replay_unmarshal ?s data
        = (?kv, Inr (if rl_entries ?rl = [] then [] else kv_get_state_root ?kv))" by blast
  show ?thesis unfolding c
    by (rule exI [of _ ?kv], rule exI [of _ ?rl], rule exI [of _ data])
       (use run data step in \<open>simp add: kv_get_def\<close>)
qed

end
