(* ===== verification/Logger.thy ===== *)
theory Logger
  imports JsonCodec GoTime Sha256
begin

text \<open>
  \<^verbatim>\<open>core/types/logger.go\<close>: one JSON object per call of \<^verbatim>\<open>Log\<close>, on a line of its own. What is shown
  is that nothing a caller puts in a message can break the lines: JSON escapes every control
  character, so that a log is read back line by line.
\<close>

section \<open>Log lines\<close>

record line_entry =
  lg_timestamp :: string
  lg_level :: string
  lg_module :: string
  lg_message :: string
  lg_node_id :: string

definition line_fields :: "line_entry field_table" where
  "line_fields = [(''time'', field dec_string lg_timestamp lg_timestamp_update),
     (''level'', field dec_string lg_level lg_level_update), (''module'', field dec_string lg_module lg_module_update),
     (''msg'', field dec_string lg_message lg_message_update), (''node_id'', field dec_string lg_node_id lg_node_id_update)]"

definition line_zero :: line_entry where
  "line_zero = \<lparr>lg_timestamp = [], lg_level = [], lg_module = [], lg_message = [], lg_node_id = []\<rparr>"

definition enc_line :: "line_entry \<Rightarrow> json" where
  "enc_line e = JObj ([(''time'', jstr (lg_timestamp e)), (''level'', jstr (lg_level e)), (''module'', jstr (lg_module e)),
     (''msg'', jstr (lg_message e))] @ omit_empty ''node_id'' (jstr (lg_node_id e)) (lg_node_id e))"

text \<open>What a call prints at the instant \<open>now\<close>.\<close>

definition log_line :: "int \<Rightarrow> string \<Rightarrow> string \<Rightarrow> string \<Rightarrow> string \<Rightarrow> string" where
  "log_line now level md msg nid =
     (let entry = \<lparr>lg_timestamp = rfc3339 now, lg_level = level, lg_module = md, lg_message = msg, lg_node_id = nid\<rparr>
      in json_print (enc_line entry) @ [CHR 0x0A])"

section \<open>No control characters\<close>

definition printable :: "string \<Rightarrow> bool" where "printable s \<longleftrightarrow> (\<forall>c \<in> set s. 0x20 \<le> code c)"

lemma printable_simps [simp]:
  "printable []" "printable (c # s) \<longleftrightarrow> 0x20 \<le> code c \<and> printable s" "printable (s @ t) \<longleftrightarrow> printable s \<and> printable t"
  by (auto simp: printable_def)

lemma printable_concat: "(\<And>x. x \<in> set xs \<Longrightarrow> printable (f x)) \<Longrightarrow> printable (concat (map f xs))"
  by (auto simp: printable_def)

lemma hex_digit_printable: "n < 16 \<Longrightarrow> 0x20 \<le> code (hex_digit n)"
  using hex_digit_in [of n] by (auto simp: hex_chars_def)

lemma printable_hex4: "printable (hex4 n)"
  by (simp add: hex4_def hex_digit_printable)

lemma printable_escape: "printable (escape_ascii c)"
  by (auto simp: escape_ascii_def html_safe_def printable_hex4)

text \<open>A rune that is copied consists of bytes beyond ASCII.\<close>

lemma copied_rune_printable:
  assumes "decode_rune (c # cs) = (r, rest)" and "length rest < length cs" and "\<not> code c < 0x80"
  shows "printable (take (length (c # cs) - length rest) (c # cs))"
  using assms
  by (auto simp: decode_rune.simps(2) Let_def cont_def second_ok_def Suc_diff_le split: if_splits list.splits)

lemma printable_quote_body: "printable (quote_body s)"
proof (induction s rule: quote_body.induct)
  case (2 c cs)
  obtain r rest where d: "decode_rune (c # cs) = (r, rest)" by (cases "decode_rune (c # cs)")
  from "2.IH" [OF refl, of r rest] d have IH: "printable (quote_body rest)" by simp
  show ?case
    using copied_rune_printable [OF d] IH by (simp add: quote_body.simps(2) d printable_escape printable_hex4)
qed simp

lemma printable_quote: "printable (quote s)"
  by (simp add: quote_def printable_quote_body)

fun string_tokens :: "token list \<Rightarrow> bool" where
  "string_tokens [] \<longleftrightarrow> True"
| "string_tokens (TNum s # ts) \<longleftrightarrow> printable s \<and> string_tokens ts"
| "string_tokens (t # ts) \<longleftrightarrow> string_tokens ts"

lemma printable_token_text: "string_tokens [t] \<Longrightarrow> printable (token_text t)"
  by (cases t) (simp_all add: printable_quote)

lemma printable_tokens: "string_tokens ts \<Longrightarrow> printable (concat (map token_text ts))"
proof (induction ts)
  case (Cons t ts)
  then have "string_tokens [t]" "string_tokens ts" by (cases t; simp)+
  then show ?case using Cons.IH printable_token_text by simp
qed simp

lemma printable_line: "printable (json_print (enc_line e))"
  unfolding json_print_def by (rule printable_tokens) (simp add: enc_line_def omit_empty_def)

section \<open>Reading a log\<close>

fun split_lines :: "string \<Rightarrow> string \<Rightarrow> string list" where
  "split_lines acc [] = (if acc = [] then [] else [acc])"
| "split_lines acc (c # cs) = (if c = CHR 0x0A then acc # split_lines [] cs else split_lines (acc @ [c]) cs)"

lemma split_line: "printable s \<Longrightarrow> split_lines acc (s @ CHR 0x0A # rest) = (acc @ s) # split_lines [] rest"
  by (induction s arbitrary: acc) auto

definition sanitize_line :: "line_entry \<Rightarrow> line_entry" where
  "sanitize_line e = \<lparr>lg_timestamp = sanitize (lg_timestamp e), lg_level = sanitize (lg_level e), lg_module = sanitize (lg_module e),
     lg_message = sanitize (lg_message e), lg_node_id = sanitize (lg_node_id e)\<rparr>"

lemma read_line: "json_unmarshal (dec_struct line_fields) line_zero (json_print (enc_line e)) = Inr (sanitize_line e)"
proof -
  have "numbers_ok (enc_line e)" by (simp add: enc_line_def omit_empty_def codec)
  moreover have "height (enc_line e) \<le> max_nesting" by (simp add: enc_line_def omit_empty_def codec max_nesting_def)
  ultimately have "json_parse (json_print (enc_line e)) = Some (sanitize_json (enc_line e))" by (rule parse_print)
  moreover have "dec_struct line_fields (sanitize_json (enc_line e)) line_zero = Some (sanitize_line e)"
    by (cases "lg_node_id e = []")
       (simp_all add: enc_line_def omit_empty_def line_fields_def line_zero_def sanitize_line_def dec_string_def codec)
  ultimately show ?thesis by (simp add: json_unmarshal_def)
qed

record log_call =
  lc_now :: int
  lc_level :: string
  lc_module :: string
  lc_message :: string
  lc_node_id :: string

text \<open>The output of a series of calls.\<close>

definition log_output :: "log_call list \<Rightarrow> string" where
  "log_output cs = concat (map (\<lambda>c. log_line (lc_now c) (lc_level c) (lc_module c) (lc_message c) (lc_node_id c)) cs)"

definition logged :: "log_call \<Rightarrow> line_entry" where
  "logged c = sanitize_line \<lparr>lg_timestamp = rfc3339 (lc_now c), lg_level = lc_level c, lg_module = lc_module c,
     lg_message = lc_message c, lg_node_id = lc_node_id c\<rparr>"

text \<open>
  C31: No message forges a log line: for any series of calls, whatever bytes levels, modules, messages
  and node names consist of, the output splits at its newlines into as many lines as there were
  calls, and each line parses to the fields of its call, with ill-formed UTF-8 replaced.
\<close>

theorem log_reads_back:
  "map (json_unmarshal (dec_struct line_fields) line_zero) (split_lines [] (log_output cs)) = map (\<lambda>c. Inr (logged c)) cs"
proof (induction cs)
  case Nil
  then show ?case by (simp add: log_output_def)
next
  case (Cons c cs)
  then show ?case
    by (simp add: log_output_def log_line_def split_line [OF printable_line] read_line logged_def)
qed

end
