(* ===== verification/JsonStream.thy ===== *)
theory JsonStream
  imports JsonCodec
begin

text \<open>
  \<^verbatim>\<open>json.NewDecoder(body).Decode\<close>, which the HTTP handlers use: it reads the first value of the input
  and leaves what follows it unread. And what any parsed value has in common: its strings are
  well-formed UTF-8, whatever bytes the text consists of.
\<close>

section \<open>The first value of a stream\<close>

definition finished :: "mode \<Rightarrow> frame list \<Rightarrow> json option" where
  "finished m stk = (case m of EndValue v \<Rightarrow> if stk = [] then Some v else None | _ \<Rightarrow> None)"

lemma finished_iff: "finished m stk = Some v \<longleftrightarrow> m = EndValue v \<and> stk = []"
  by (auto simp: finished_def split: mode.split)

function json_first_from :: "mode \<Rightarrow> frame list \<Rightarrow> string \<Rightarrow> json option" where
  "json_first_from m stk [] = None"
| "json_first_from m stk (c # cs) =
     (if is_ws c then json_first_from m stk cs
      else case lex_token c cs of
          None \<Rightarrow> None
        | Some (t, rest) \<Rightarrow> (case machine_step m stk t of
            None \<Rightarrow> None
          | Some (m', stk') \<Rightarrow> (case finished m' stk' of Some v \<Rightarrow> Some v | None \<Rightarrow> json_first_from m' stk' rest)))"
  by pat_completeness auto
termination
  by (relation "measure (\<lambda>(m, stk, s). length s)") (auto dest: lex_token_shorter)

declare json_first_from.simps(2) [simp del]

definition json_first :: "string \<Rightarrow> json option" where "json_first = json_first_from BeginValue []"

definition json_decode :: "'r decoder \<Rightarrow> 'r \<Rightarrow> bytes \<Rightarrow> 'r result" where
  "json_decode d zero input = (case json_first input of
      None \<Rightarrow> Inl (NewError ''json: syntax error'')
    | Some j \<Rightarrow> (case d j zero of None \<Rightarrow> Inl (NewError ''json: cannot unmarshal'') | Some r \<Rightarrow> Inr r))"

lemma machine_done: "machine (EndValue v) [] ts = Some w \<Longrightarrow> ts = [] \<and> w = v"
  by (cases ts) (simp_all add: end_value_def)

lemma json_first_from_machine:
  assumes "tokenize s = Some ts" and "machine m stk ts = Some v" and "finished m stk = None"
  shows "json_first_from m stk s = Some v"
  using assms
proof (induction s arbitrary: m stk ts rule: tokenize.induct)
  case 1
  then show ?case by (cases m) (auto simp: finished_def split: if_splits)
next
  case (2 c cs)
  show ?case
  proof (cases "is_ws c")
    case True
    with 2 show ?thesis by (simp add: tokenize.simps(2) json_first_from.simps(2))
  next
    case False
    then obtain t rest ts' where t: "lex_token c cs = Some (t, rest)" "tokenize rest = Some ts'" "ts = t # ts'"
      using 2 by (auto simp: tokenize.simps(2) split: option.splits prod.splits)
    then obtain m' stk' where step: "machine_step m stk t = Some (m', stk')" "machine m' stk' ts' = Some v"
      using 2 by (auto split: option.splits prod.splits)
    show ?thesis
    proof (cases "finished m' stk'")
      case None
      then have "json_first_from m' stk' rest = Some v" using 2(2) [OF False t(1) refl t(2) step(2)] by blast
      with step(1) t(1) False None show ?thesis by (simp add: json_first_from.simps(2))
    next
      case (Some w)
      moreover from Some have "v = w" using step(2) machine_done by (auto simp: finished_iff)
      ultimately show ?thesis using step(1) t(1) False by (simp add: json_first_from.simps(2))
    qed
  qed
qed

lemma json_first_parse: "json_parse s = Some v \<Longrightarrow> json_first s = Some v"
  by (auto simp: json_parse_def json_first_def finished_def intro: json_first_from_machine split: option.splits)

lemma json_decode_unmarshal: "json_unmarshal d zero s = Inr r \<Longrightarrow> json_decode d zero s = Inr r"
  by (auto simp: json_unmarshal_def json_decode_def json_first_parse split: option.splits)

section \<open>Parsed strings are well-formed\<close>

fun clean :: "json \<Rightarrow> bool" where
  "clean (JStr e s) = valid_text s"
| "clean (JArr js) = (\<forall>j \<in> set js. clean j)"
| "clean (JObj ms) = (\<forall>m \<in> set ms. valid_text (fst m) \<and> clean (snd m))"
| "clean j = True"

fun clean_token :: "token \<Rightarrow> bool" where
  "clean_token (TStr e s) = valid_text s"
| "clean_token t = True"

fun clean_frame :: "frame \<Rightarrow> bool" where
  "clean_frame (FArr js) = clean (JArr js)"
| "clean_frame (FKey ms) = clean (JObj ms)"
| "clean_frame (FVal ms k) = (clean (JObj ms) \<and> valid_text k)"

fun clean_mode :: "mode \<Rightarrow> bool" where
  "clean_mode (EndValue v) = clean v"
| "clean_mode m = True"

lemma clean_begin_value:
  "begin_value t stk = Some (m, stk') \<Longrightarrow> clean_token t \<Longrightarrow> list_all clean_frame stk \<Longrightarrow> clean_mode m \<and> list_all clean_frame stk'"
  by (cases t) (auto simp: begin_value_def split: if_splits)

lemma clean_begin_key:
  "begin_key t stk = Some (m, stk') \<Longrightarrow> clean_token t \<Longrightarrow> list_all clean_frame stk \<Longrightarrow> clean_mode m \<and> list_all clean_frame stk'"
  by (auto simp: begin_key_def split: token.splits list.splits frame.splits)

lemma clean_end_value:
  "end_value v t stk = Some (m, stk') \<Longrightarrow> clean v \<Longrightarrow> list_all clean_frame stk \<Longrightarrow> clean_mode m \<and> list_all clean_frame stk'"
  by (auto simp: end_value_def split: list.splits frame.splits if_splits)

lemma clean_step:
  assumes "machine_step m stk t = Some (m', stk')" and "clean_token t" and "clean_mode m" and "list_all clean_frame stk"
  shows "clean_mode m' \<and> list_all clean_frame stk'"
  using assms
  by (cases m) (auto dest: clean_begin_value clean_begin_key clean_end_value split: if_splits list.splits frame.splits)

lemma lex_token_clean:
  assumes "lex_token c cs = Some (t, rest)"
  shows "clean_token t"
proof -
  have p: "punctuation c = Some t \<Longrightarrow> clean_token t" by (auto simp: punctuation_def split: if_splits)
  have k: "keyword_of c = Some (w, t) \<Longrightarrow> clean_token t" for w by (auto simp: keyword_of_def split: if_splits)
  from assms consider "punctuation c = Some t" | w where "keyword_of c = Some (w, t)"
    | e x where "unquote cs = Some (x, rest)" "t = TStr e x" | x where "t = TNum x"
    by (auto simp: lex_token_def literal_def split: option.splits if_splits)
  then show ?thesis by cases (auto simp: p valid_text_def dest: k unquote_sanitized)
qed

lemma json_first_from_clean:
  "json_first_from m stk s = Some v \<Longrightarrow> clean_mode m \<Longrightarrow> list_all clean_frame stk \<Longrightarrow> clean v"
proof (induction m stk s rule: json_first_from.induct)
  case (2 m stk c cs)
  show ?case
  proof (cases "is_ws c")
    case True
    with 2 show ?thesis by (simp add: json_first_from.simps(2))
  next
    case False
    then obtain t rest m' stk' where t: "lex_token c cs = Some (t, rest)" "machine_step m stk t = Some (m', stk')"
      using 2(3) by (auto simp: json_first_from.simps(2) split: option.splits prod.splits)
    have next_ok: "clean_mode m' \<and> list_all clean_frame stk'"
      using clean_step [OF t(2) lex_token_clean [OF t(1)]] 2 by blast
    show ?thesis
    proof (cases "finished m' stk'")
      case None
      then have "json_first_from m' stk' rest = Some v" using 2(3) False t by (simp add: json_first_from.simps(2))
      then show ?thesis using 2(2) [OF False t(1) refl t(2) refl None] next_ok by blast
    next
      case (Some w)
      with next_ok t False 2(3) show ?thesis by (auto simp: json_first_from.simps(2) finished_iff)
    qed
  qed
qed simp

lemma json_first_clean: "json_first s = Some v \<Longrightarrow> clean v"
  using json_first_from_clean [of BeginValue "[]" s v] by (simp add: json_first_def)

end
