(* ===== verification/GoFloat.thy ===== *)
theory GoFloat
  imports GoTime
begin

text \<open>
  \<^verbatim>\<open>float64\<close> as \<^verbatim>\<open>encoding/json\<close> writes and reads it. A number is its bit pattern, a 64-bit word: a
  sign and a magnitude of 63 bits, whose order is that of the numbers. Magnitudes are measured in
  units of the smallest positive number, so that everything is arithmetic of natural numbers:
  reading rounds a decimal to the nearest magnitude, ties to even; writing looks for the fewest
  digits that read back.
\<close>

section \<open>Magnitudes\<close>

definition mag_finite :: "nat \<Rightarrow> bool" where "mag_finite k \<longleftrightarrow> k < 2047 * 2 ^ 52"

text \<open>The value of a magnitude, in units of \<open>2 ^ - 1074\<close>.\<close>

definition units :: "nat \<Rightarrow> nat" where
  "units k = (if k < 2 ^ 53 then k else (2 ^ 52 + k mod 2 ^ 52) * 2 ^ (k div 2 ^ 52 - 1))"

definition unit_den :: nat where "unit_den = 2 ^ 1074"

fun bit_length :: "nat \<Rightarrow> nat" where
  "bit_length n = (if n = 0 then 0 else Suc (bit_length (n div 2)))"

declare bit_length.simps [simp del]

text \<open>The quotient rounded to the nearest integer, ties to even.\<close>

definition round_div :: "nat \<Rightarrow> nat \<Rightarrow> nat" where
  "round_div a b = (let q = a div b; r = a mod b in if b < 2 * r \<or> (b = 2 * r \<and> odd q) then q + 1 else q)"

text \<open>
  The magnitude nearest to a fraction: 53 bits are kept; a carry out of them leads to the
  magnitude after, and one beyond the last to infinity.
\<close>

definition nearest :: "nat \<Rightarrow> nat \<Rightarrow> nat" where
  "nearest num den = (let a = num * unit_den; s = bit_length (a div den) - 53 in s * 2 ^ 52 + round_div a (den * 2 ^ s))"

lemma bit_length_0 [simp]: "bit_length 0 = 0"
  by (subst bit_length.simps) simp

lemma bit_length_unique: "2 ^ n \<le> m \<Longrightarrow> m < 2 ^ Suc n \<Longrightarrow> bit_length m = Suc n"
proof (induction n arbitrary: m)
  case 0
  then have "m = 1" by simp
  then show ?case by (simp add: bit_length.simps)
next
  case (Suc n)
  then have "bit_length (m div 2) = Suc n" by (intro Suc.IH) auto
  moreover have "m \<noteq> 0" using Suc.prems(1) by (metis le_zero_eq power_eq_0_iff zero_neq_numeral)
  ultimately show ?case by (subst bit_length.simps) simp
qed

lemma bit_length_small: "m < 2 ^ n \<Longrightarrow> bit_length m \<le> n"
proof (induction n arbitrary: m)
  case (Suc n)
  then have "bit_length (m div 2) \<le> n" by (intro Suc.IH) auto
  then show ?case by (subst bit_length.simps) simp
qed (simp add: bit_length.simps)

lemma round_div_exact: "0 < b \<Longrightarrow> round_div (m * b) b = m"
  by (simp add: round_div_def)

lemma nearest_units:
  assumes "0 < den" and "num * unit_den = units k * den"
  shows "nearest num den = k"
proof (cases "k < 2 ^ 53")
  case True
  then have u: "units k = k" by (simp add: units_def)
  have "bit_length k - 53 = 0" using bit_length_small [OF True] by simp
  then show ?thesis using assms by (simp add: nearest_def u round_div_exact Let_def)
next
  case False
  let ?m = "2 ^ 52 + k mod 2 ^ 52" and ?s = "k div 2 ^ 52 - 1"
  have u: "units k = ?m * 2 ^ ?s" using False by (simp add: units_def)
  have m: "2 ^ 52 \<le> ?m" "?m < 2 ^ 53" by simp_all
  have "2 ^ 52 * 2 ^ ?s \<le> ?m * 2 ^ ?s" "?m * 2 ^ ?s < 2 ^ 53 * 2 ^ ?s" using m by simp_all
  then have "bit_length (units k) = Suc (52 + ?s)" unfolding u by (intro bit_length_unique) (simp_all add: power_add)
  then have s: "bit_length (units k) - 53 = ?s" by simp
  have "num * unit_den = ?m * (den * 2 ^ ?s)" using assms(2) u by simp
  then have r: "round_div (num * unit_den) (den * 2 ^ ?s) = ?m" using assms(1) by (simp add: round_div_exact)
  have "1 \<le> k div 2 ^ 52" using False by (simp add: Suc_le_eq div_greater_zero_iff)
  then have "?s * 2 ^ 52 + ?m = k" using div_mult_mod_eq [of k "2 ^ 52"] by (simp add: diff_mult_distrib)
  then show ?thesis using assms s r by (simp add: nearest_def Let_def)
qed

lemma round_div_scale:
  assumes "0 < c"
  shows "round_div (x * c) (y * c) = round_div x y"
proof -
  have "2 * (x mod y * c) = 2 * (x mod y) * c" by (rule mult.assoc [symmetric])
  moreover have "y * c < 2 * (x mod y) * c \<longleftrightarrow> y < 2 * (x mod y)" "y * c = 2 * (x mod y) * c \<longleftrightarrow> y = 2 * (x mod y)"
    using assms by simp_all
  moreover have "x * c div (y * c) = x div y" using assms by simp
  ultimately show ?thesis by (simp only: round_div_def Let_def mod_mult_mult2)
qed

lemma nearest_scale:
  assumes "0 < c"
  shows "nearest (num * c) (den * c) = nearest num den"
proof -
  have ac: "x * c * y = x * y * c" for x y by simp
  have d: "x * c div (y * c) = x div y" for x y using assms by simp
  show ?thesis unfolding nearest_def Let_def ac [of num] ac [of den] d round_div_scale [OF assms] ..
qed

lemma nearest_zero [simp]: "nearest 0 den = 0"
  by (simp add: nearest_def round_div_def Let_def)

section \<open>Decimals\<close>

text \<open>The magnitude nearest to \<open>d * 10 ^ x\<close>.\<close>

definition read_decimal :: "nat \<Rightarrow> int \<Rightarrow> nat" where
  "read_decimal d x = nearest (d * 10 ^ nat x) (10 ^ nat (- x))"

lemma read_decimal_zero [simp]: "read_decimal 0 x = 0"
  by (simp add: read_decimal_def)

lemma read_decimal_shift: "read_decimal (d * 10 ^ n) x = read_decimal d (x + int n)"
proof -
  have "nat (- x) + nat (x + int n) = nat x + n + nat (- (x + int n))" by linarith
  then have e: "(10 :: nat) ^ nat (- x) * 10 ^ nat (x + int n) = 10 ^ nat x * 10 ^ n * 10 ^ nat (- (x + int n))"
    by (simp only: power_add [symmetric])
  have "read_decimal (d * 10 ^ n) x = nearest (d * 10 ^ n * 10 ^ nat x * 10 ^ nat (- (x + int n))) (10 ^ nat (- x) * 10 ^ nat (- (x + int n)))"
    by (simp add: read_decimal_def nearest_scale)
  also have "d * 10 ^ n * 10 ^ nat x * 10 ^ nat (- (x + int n)) = d * 10 ^ nat (x + int n) * 10 ^ nat (- x)"
    using e by (simp add: ac_simps)
  also have "10 ^ nat (- x) * 10 ^ nat (- (x + int n)) = 10 ^ nat (- (x + int n)) * (10 :: nat) ^ nat (- x)" by simp
  also have "nearest (d * 10 ^ nat (x + int n) * 10 ^ nat (- x)) (10 ^ nat (- (x + int n)) * 10 ^ nat (- x)) = read_decimal d (x + int n)"
    by (subst nearest_scale) (simp_all add: read_decimal_def)
  finally show ?thesis .
qed

text \<open>
  \<^verbatim>\<open>FormatFloat\<close> with precision -1: at ever smaller powers of ten, the multiples next to the number,
  the nearer one first, until one of them reads back.
\<close>

definition candidates :: "nat \<Rightarrow> int \<Rightarrow> nat list" where
  "candidates k j = (let a = units k * 10 ^ nat (- j); b = unit_den * 10 ^ nat j; q = a div b; r = a mod b
     in if r = 0 then [q] else if 2 * r < b \<or> (2 * r = b \<and> even q) then [q, q + 1] else [q + 1, q])"

definition unit_exponents :: "int list" where
  "unit_exponents = map (\<lambda>n. 309 - int n) [0..<1384]"

definition shortest :: "nat \<Rightarrow> nat \<times> int" where
  "shortest k = (case find (\<lambda>(d, j). read_decimal d j = k) (concat (map (\<lambda>j. map (\<lambda>d. (d, j)) (candidates k j)) unit_exponents)) of
     Some dj \<Rightarrow> dj | None \<Rightarrow> (0, 0))"

text \<open>The search succeeds at \<open>10 ^ - 1074\<close> at the latest, of which every number is a multiple.\<close>

lemma ten_1074: "(10 :: nat) ^ 1074 = 5 ^ 1074 * unit_den"
proof -
  have "(10 :: nat) ^ n = 5 ^ n * 2 ^ n" for n using power_mult_distrib [of "5 :: nat" 2 n] by simp
  then show ?thesis unfolding unit_den_def .
qed

lemma unit_den_pos: "0 < unit_den"
  unfolding unit_den_def by (rule zero_less_power) simp

lemma exact_quotient: "0 < u \<Longrightarrow> t = f * u \<Longrightarrow> x * t div (u * 1) = x * f \<and> x * t mod (u * 1) = (0 :: nat)"
  by simp

lemma last_candidate: "candidates k (- 1074) = [units k * 5 ^ 1074]" "read_decimal (units k * 5 ^ 1074) (- 1074) = k"
proof -
  have nats: "nat (- (- 1074)) = 1074" "nat (- 1074) = 0" by simp_all
  have q: "units k * 10 ^ 1074 div (unit_den * 1) = units k * 5 ^ 1074 \<and> units k * 10 ^ 1074 mod (unit_den * 1) = 0"
    by (rule exact_quotient [OF unit_den_pos ten_1074])
  show "candidates k (- 1074) = [units k * 5 ^ 1074]"
    unfolding candidates_def Let_def nats power_0 conjunct1 [OF q] conjunct2 [OF q] by (rule if_P) (rule refl)
  have pos: "0 < (10 :: nat) ^ 1074" by (rule zero_less_power) simp
  have e: "a * f * 1 * u = a * t" if "t = f * u" for a f u t :: nat using that by simp
  show "read_decimal (units k * 5 ^ 1074) (- 1074) = k" unfolding read_decimal_def nats power_0
    by (rule nearest_units [OF pos e [OF ten_1074]])
qed

lemma last_exponent: "- 1074 \<in> set unit_exponents"
proof -
  have "- 1074 = 309 - int 1383" by simp
  moreover have "1383 \<in> set [0..<1384]" by (simp only: set_upt atLeastLessThan_iff) simp
  ultimately show ?thesis unfolding unit_exponents_def set_map by (rule image_eqI)
qed

lemma find_hit: "x \<in> set xs \<Longrightarrow> P x \<Longrightarrow> \<exists>y. find P xs = Some y \<and> P y"
  by (induction xs) auto

lemma in_search: "j \<in> set js \<Longrightarrow> d \<in> set (f j) \<Longrightarrow> (d, j) \<in> set (concat (map (\<lambda>j. map (\<lambda>d. (d, j)) (f j)) js))"
  by auto

lemma shortest_reads:
  assumes "shortest k = (d, j)"
  shows "read_decimal d j = k"
proof -
  let ?P = "\<lambda>(d, j). read_decimal d j = k" and ?xs = "concat (map (\<lambda>j. map (\<lambda>d. (d, j)) (candidates k j)) unit_exponents)"
  have "units k * 5 ^ 1074 \<in> set (candidates k (- 1074))" unfolding last_candidate(1) by (rule list.set_intros)
  note in_search [OF last_exponent, where f = "candidates k", OF this]
  moreover have "?P (units k * 5 ^ 1074, - 1074)" unfolding prod.case by (rule last_candidate)
  ultimately have "\<exists>dj. find ?P ?xs = Some dj \<and> ?P dj" by (rule find_hit)
  then obtain dj where "find ?P ?xs = Some dj" "?P dj" by (elim exE conjE)
  with assms show ?thesis unfolding shortest_def by simp
qed

section \<open>Text\<close>

text \<open>
  The digits without trailing zeros and the decimal point: the number is \<open>0.digits * 10 ^ point\<close>.
  Within the range of the constants \<^verbatim>\<open>1e-6\<close> and \<^verbatim>\<open>1e21\<close> JSON has no exponent.
\<close>

definition fixed_text :: "string \<Rightarrow> int \<Rightarrow> string" where
  "fixed_text ds dp =
     (if dp \<le> 0 then ''0.'' @ replicate (nat (- dp)) (CHR ''0'') @ ds
      else if int (length ds) \<le> dp then ds @ replicate (nat dp - length ds) (CHR ''0'')
      else take (nat dp) ds @ ''.'' @ drop (nat dp) ds)"

definition exp_text :: "int \<Rightarrow> string" where
  "exp_text e = (if e < 0 then ''e-'' @ fmt_nat (nat (- e)) else ''e+'' @ (if e < 10 then ''0'' else []) @ fmt_nat (nat e))"

definition scientific_text :: "string \<Rightarrow> int \<Rightarrow> string" where
  "scientific_text ds dp = take 1 ds @ (if length ds = 1 then [] else ''.'' @ drop 1 ds) @ exp_text (dp - 1)"

definition mag_text :: "nat \<Rightarrow> string" where
  "mag_text k = (if k = 0 then ''0''
     else case shortest k of (d, j) \<Rightarrow>
       (let ds = trim_zeros (fmt_nat d); dp = int (length (fmt_nat d)) + j
        in if k < read_decimal 1 (- 6) \<or> read_decimal 1 21 \<le> k then scientific_text ds dp else fixed_text ds dp))"

definition mag_of :: "64 word \<Rightarrow> nat" where "mag_of w = unat w mod 2 ^ 63"

definition is_negative :: "64 word \<Rightarrow> bool" where "is_negative w \<longleftrightarrow> 2 ^ 63 \<le> unat w"

definition float_finite :: "64 word \<Rightarrow> bool" where "float_finite w \<longleftrightarrow> mag_finite (mag_of w)"

definition float_text :: "64 word \<Rightarrow> string" where
  "float_text w = (if is_negative w then ''-'' else []) @ mag_text (mag_of w)"

text \<open>
  \<^verbatim>\<open>ParseFloat\<close> on a JSON number. The exponent saturates; beyond the largest number is an error.
\<close>

definition read_exp :: "string \<Rightarrow> int" where
  "read_exp s = (case s of
      [] \<Rightarrow> 0
    | c # cs \<Rightarrow> (case opt_char ''+-'' cs of (sign, ds) \<Rightarrow>
        let e = foldl (\<lambda>e d. if e < 10000 then 10 * e + (of_char d - 48) else e) 0 ds
        in if sign = ''-'' then - int e else int e))"

definition read_mag :: "string \<Rightarrow> nat" where
  "read_mag s = (case digits s of (i, s1) \<Rightarrow>
     (case (case s1 of c # cs \<Rightarrow> if c = CHR ''.'' then digits cs else ([], s1) | [] \<Rightarrow> ([], [])) of (f, s2) \<Rightarrow>
        read_decimal (read_nat 0 (i @ f)) (read_exp s2 - int (length f))))"

definition parse_float :: "string \<Rightarrow> 64 word option" where
  "parse_float lit = (case opt_char ''-'' lit of (sign, s) \<Rightarrow>
     (let k = read_mag s in if mag_finite k then Some (of_nat (k + (if sign = [] then 0 else 2 ^ 63))) else None))"

section \<open>What is written reads back\<close>

definition all_digits :: "string \<Rightarrow> bool" where "all_digits s \<longleftrightarrow> (\<forall>c \<in> set s. is_digit c)"

definition number_stop :: "string \<Rightarrow> bool" where
  "number_stop u \<longleftrightarrow> (case u of [] \<Rightarrow> True | c # _ \<Rightarrow> \<not> is_digit c)"

lemma digits_append: "all_digits ds \<Longrightarrow> number_stop u \<Longrightarrow> digits (ds @ u) = (ds, u)"
  by (cases u) (auto simp: all_digits_def number_stop_def digits_def)

lemma all_digits_simps [simp]:
  "all_digits []" "all_digits (c # s) \<longleftrightarrow> is_digit c \<and> all_digits s" "all_digits (s @ t) \<longleftrightarrow> all_digits s \<and> all_digits t"
  "all_digits (replicate n (CHR ''0''))" "all_digits s \<Longrightarrow> all_digits (take n s)" "all_digits s \<Longrightarrow> all_digits (drop n s)"
  by (auto simp: all_digits_def is_digit_def dest: in_set_takeD in_set_dropD)

lemma all_digits_fmt_nat [simp]: "all_digits (fmt_nat n)"
  by (simp add: all_digits_def is_digit_fmt_nat)

lemma number_stop_simps [simp]: "number_stop []" "number_stop (c # u) \<longleftrightarrow> \<not> is_digit c"
  by (simp_all add: number_stop_def)

lemma not_digits [simp]: "\<not> is_digit (CHR ''.'')" "\<not> is_digit (CHR ''e'')" "\<not> is_digit (CHR ''-'')" "\<not> is_digit (CHR ''+'')"
  by (simp_all add: is_digit_def)

lemma read_nat_acc: "read_nat acc (s @ t) = read_nat (read_nat acc s) t"
  by (induction s arbitrary: acc) simp_all

lemma read_nat_zeros: "read_nat acc (s @ replicate k (CHR ''0'')) = read_nat acc s * 10 ^ k"
proof -
  have "read_nat a (replicate k (CHR ''0'')) = a * 10 ^ k" for a by (induction k arbitrary: a) simp_all
  then show ?thesis by (simp add: read_nat_acc)
qed

lemma read_nat_leading: "read_nat 0 (replicate k (CHR ''0'') @ s) = read_nat 0 s"
  by (simp add: read_nat_acc read_zeros)

text \<open>Exponents below the saturation.\<close>

lemma saturating_read:
  assumes "all_digits ds" and "acc * 10 ^ length ds < 10 ^ 5" and "(acc + 1) * 10 ^ length ds \<le> 10 ^ 4"
  shows "foldl (\<lambda>e d. if e < 10000 then 10 * e + (of_char d - 48) else e) acc ds = read_nat acc ds"
  using assms
proof (induction ds arbitrary: acc)
  case (Cons c cs)
  let ?a = "10 * acc + (of_char c - 48 :: nat)"
  have "of_char c - 48 \<le> (9 :: nat)" using Cons.prems(1) by (auto simp: is_digit_def)
  then have "(?a + 1) * 10 ^ length cs \<le> (10 * acc + 10) * 10 ^ length cs" by (intro mult_right_mono) simp_all
  then have a: "(?a + 1) * 10 ^ length cs \<le> 10 ^ 4" using Cons.prems(3) by (simp add: algebra_simps)
  moreover have "?a * 10 ^ length cs < 10 ^ 5" using a by (simp add: algebra_simps)
  moreover have "acc < 10000"
  proof -
    have "m \<le> m * x" if "1 \<le> x" for m x :: nat using that by (cases x) simp_all
    moreover have "(1 :: nat) \<le> 10 ^ length (c # cs)" by (rule one_le_power) simp
    ultimately have "acc + 1 \<le> 10 ^ 4" using Cons.prems(3) by (blast intro: order_trans)
    then show ?thesis by simp
  qed
  ultimately show ?case using Cons.IH [of ?a] Cons.prems(1) by simp
qed simp

lemma length_fmt_nat: "n < 10 ^ m \<Longrightarrow> 0 < m \<Longrightarrow> length (fmt_nat n) \<le> m"
proof (induction m arbitrary: n)
  case (Suc m)
  show ?case
  proof (cases "n < 10")
    case False
    then have "0 < m" using Suc.prems(1) by (cases m) simp_all
    then have "length (fmt_nat (n div 10)) \<le> m" using Suc.prems(1) by (intro Suc.IH) auto
    with False show ?thesis by (subst fmt_nat.simps) simp
  qed (subst fmt_nat.simps, simp)
qed simp

lemma read_exp_text:
  assumes "\<bar>e\<bar> < 10000"
  shows "read_exp (exp_text e) = e"
proof -
  have read: "foldl (\<lambda>e d. if e < 10000 then 10 * e + (of_char d - 48) else e) 0 ds = read_nat 0 ds"
    if "all_digits ds" "length ds \<le> 4" for ds
    using that power_increasing [of "length ds" 4 "10 :: nat"] by (intro saturating_read) simp_all
  have len: "length (fmt_nat n) \<le> 4" if "n < 10000" for n using that by (intro length_fmt_nat) simp_all
  have one: "length (fmt_nat n) = 1" if "n < 10" for n using that by (subst fmt_nat.simps) simp
  have neg: "opt_char ''+-'' (CHR ''-'' # s) = (''-'', s)" "opt_char ''+-'' (CHR ''+'' # s) = (''+'', s)" for s
    by (simp_all add: opt_char_def)
  show ?thesis
  proof (cases "e < 0")
    case True
    then show ?thesis using assms
      by (simp add: exp_text_def read_exp_def neg read len read_fmt_nat)
  next
    case False
    have zero: "read_nat 0 (CHR ''0'' # s) = read_nat 0 s" for s by simp
    show ?thesis
    proof (cases "e < 10")
      case True
      with False have "read_nat 0 (CHR ''0'' # fmt_nat (nat e)) = nat e" unfolding zero by (rule_tac read_fmt_nat)
      moreover have "length (CHR ''0'' # fmt_nat (nat e)) \<le> 4" using one [of "nat e"] True by simp
      moreover have "all_digits (CHR ''0'' # fmt_nat (nat e))" by (simp add: is_digit_def)
      ultimately show ?thesis using True False read [of "CHR ''0'' # fmt_nat (nat e)"]
        by (simp only: exp_text_def read_exp_def) (simp add: neg)
    next
      case False': False
      with False assms show ?thesis by (simp add: exp_text_def read_exp_def neg read len read_fmt_nat)
    qed
  qed
qed

lemma read_exp_Nil [simp]: "read_exp [] = 0"
  by (simp add: read_exp_def)

lemma read_mag_plain: "all_digits i \<Longrightarrow> read_mag i = read_decimal (read_nat 0 i) 0"
  using digits_append [of i "[]"] by (simp add: read_mag_def)

lemma read_mag_point:
  "all_digits i \<Longrightarrow> all_digits f \<Longrightarrow> number_stop u \<Longrightarrow>
     read_mag (i @ ''.'' @ f @ u) = read_decimal (read_nat 0 (i @ f)) (read_exp u - int (length f))"
  using digits_append [of i "''.'' @ f @ u"] digits_append [of f u] by (simp add: read_mag_def)

lemma read_mag_no_point:
  "all_digits i \<Longrightarrow> u = CHR ''e'' # v \<Longrightarrow> read_mag (i @ u) = read_decimal (read_nat 0 i) (read_exp u)"
  using digits_append [of i u] by (simp add: read_mag_def)

lemma read_fixed_text:
  assumes "all_digits ds"
  shows "read_mag (fixed_text ds dp) = read_decimal (read_nat 0 ds) (dp - int (length ds))"
proof -
  consider "dp \<le> 0" | "0 < dp" "int (length ds) \<le> dp" | "0 < dp" "dp < int (length ds)" by linarith
  then show ?thesis
  proof cases
    case 1
    then have "read_mag (fixed_text ds dp) = read_mag (''0'' @ ''.'' @ (replicate (nat (- dp)) (CHR ''0'') @ ds) @ [])"
      by (simp add: fixed_text_def)
    also have "\<dots> = read_decimal (read_nat 0 (''0'' @ replicate (nat (- dp)) (CHR ''0'') @ ds))
        (0 - int (length (replicate (nat (- dp)) (CHR ''0'') @ ds)))"
      by (subst read_mag_point) (simp_all add: assms is_digit_def)
    also have "read_nat 0 (''0'' @ replicate (nat (- dp)) (CHR ''0'') @ ds) = read_nat 0 ds" by (simp add: read_nat_leading)
    also have "0 - int (length (replicate (nat (- dp)) (CHR ''0'') @ ds)) = dp - int (length ds)" using 1 by simp
    finally show ?thesis .
  next
    case 2
    then have "read_mag (fixed_text ds dp) = read_decimal (read_nat 0 ds * 10 ^ (nat dp - length ds)) 0"
      by (simp add: fixed_text_def read_mag_plain assms read_nat_zeros)
    then show ?thesis using 2 by (simp add: read_decimal_shift)
  next
    case 3
    then have "read_mag (fixed_text ds dp) = read_mag (take (nat dp) ds @ ''.'' @ drop (nat dp) ds @ [])"
      by (simp add: fixed_text_def)
    also have "\<dots> = read_decimal (read_nat 0 (take (nat dp) ds @ drop (nat dp) ds)) (0 - int (length (drop (nat dp) ds)))"
      by (subst read_mag_point) (simp_all add: assms)
    finally show ?thesis using 3 by simp
  qed
qed

lemma read_scientific_text:
  assumes "all_digits ds" and "ds \<noteq> []" and "\<bar>dp - 1\<bar> < 10000"
  shows "read_mag (scientific_text ds dp) = read_decimal (read_nat 0 ds) (dp - int (length ds))"
proof -
  obtain d r where ds: "ds = d # r" using assms(2) by (cases ds) auto
  have "\<exists>v. exp_text (dp - 1) = CHR ''e'' # v" by (simp add: exp_text_def)
  then obtain v where v: "exp_text (dp - 1) = CHR ''e'' # v" ..
  show ?thesis
  proof (cases "r = []")
    case True
    then show ?thesis
      using read_mag_no_point [of "[d]" "exp_text (dp - 1)" v] assms(1) v read_exp_text [OF assms(3)]
      by (simp add: scientific_text_def ds)
  next
    case False
    then have "read_mag (scientific_text ds dp) = read_mag ([d] @ ''.'' @ r @ exp_text (dp - 1))"
      by (simp add: scientific_text_def ds)
    also have "\<dots> = read_decimal (read_nat 0 ([d] @ r)) (read_exp (exp_text (dp - 1)) - int (length r))"
      by (rule read_mag_point) (use assms(1) ds v in simp_all)
    finally show ?thesis using read_exp_text [OF assms(3)] ds by (simp add: algebra_simps)
  qed
qed

text \<open>The digits found are not many, so the exponent is small.\<close>

lemma shifted_bound: "m < 2 ^ a \<Longrightarrow> e \<le> b \<Longrightarrow> m * 2 ^ e < (2 :: nat) ^ (a + b)"
  unfolding power_add by (rule mult_less_le_imp_less) (auto intro: power_increasing)

lemma two_ten: "(2 :: nat) ^ (4 * n) \<le> 10 ^ (2 * n)"
  unfolding power_mult by (rule power_mono) simp_all

lemma units_bound:
  assumes "mag_finite k"
  shows "units k < 10 ^ (2 * 525)"
proof -
  have "k div 2 ^ 52 < 2047" using assms by (simp add: mag_finite_def less_mult_imp_div_less)
  then have e: "k div 2 ^ 52 - 1 \<le> 2047" by linarith
  have m: "2 ^ 52 + k mod 2 ^ 52 < 2 ^ 53" by simp
  have n: "53 + 2047 = 4 * (525 :: nat)" by simp
  have k: "k < 2 ^ 53 \<Longrightarrow> k * 2 ^ 0 < 2 ^ (53 + 2047)" by (rule shifted_bound) simp_all
  have "units k < 2 ^ (53 + 2047)"
  proof (cases "k < 2 ^ 53")
    case True
    from k [OF this] have "k < 2 ^ (53 + 2047)" by (simp only: power_0 mult_1_right)
    with True show ?thesis unfolding units_def by (simp only: if_True)
  next
    case False
    from shifted_bound [OF m e] False show ?thesis unfolding units_def by (simp only: if_False)
  qed
  then show ?thesis unfolding n using two_ten [of 525] by (rule less_le_trans)
qed

lemma candidates_bound:
  assumes "d \<in> set (candidates k j)" and "units k < 10 ^ m" and "- 1074 \<le> j"
  shows "d \<le> 10 ^ (m + 1074)"
proof -
  let ?a = "units k * 10 ^ nat (- j)" and ?b = "unit_den * 10 ^ nat j"
  have "d \<le> ?a div ?b + 1" using assms(1) by (auto simp: candidates_def Let_def split: if_splits)
  also have "\<dots> \<le> ?a + 1" by (simp add: div_le_dividend)
  also have "\<dots> \<le> 10 ^ m * 10 ^ nat (- j)" using assms(2) by (simp add: Suc_le_eq)
  also have "\<dots> \<le> 10 ^ (m + 1074)"
    unfolding power_add using assms(3) by (intro mult_left_mono power_increasing) simp_all
  finally show ?thesis .
qed

lemma shortest_facts:
  assumes "mag_finite k" and "shortest k = (d, j)"
  shows "\<bar>int (length (fmt_nat d)) + j - 1\<bar> < 10000"
proof -
  have "(d, j) = (0, 0) \<or> (d \<in> set (candidates k j) \<and> j \<in> set unit_exponents)"
    using assms(2) unfolding shortest_def by (auto simp: find_Some_iff split: option.splits dest!: nth_mem)
  then show ?thesis
  proof
    assume "(d, j) = (0, 0)"
    then show ?thesis by (simp add: fmt_nat.simps)
  next
    assume d: "d \<in> set (candidates k j) \<and> j \<in> set unit_exponents"
    then have j: "- 1074 \<le> j" "j \<le> 309" unfolding unit_exponents_def by auto
    have "d \<le> 10 ^ (2 * 525 + 1074)" using candidates_bound [OF _ units_bound [OF assms(1)] j(1)] d by blast
    also have "\<dots> < 10 ^ (2 * 525 + 1074 + 1)" by (rule power_strict_increasing) simp_all
    finally have "length (fmt_nat d) \<le> 2 * 525 + 1074 + 1" by (rule length_fmt_nat) simp
    with j show ?thesis by linarith
  qed
qed

lemma trimmed_digits:
  assumes "0 < d"
  shows "all_digits (trim_zeros (fmt_nat d))" and "trim_zeros (fmt_nat d) \<noteq> []" and "hd (trim_zeros (fmt_nat d)) \<noteq> CHR ''0''"
    and "read_decimal (read_nat 0 (trim_zeros (fmt_nat d))) (int (length (fmt_nat d)) + j - int (length (trim_zeros (fmt_nat d)))) = read_decimal d j"
proof -
  let ?ds = "trim_zeros (fmt_nat d)"
  obtain z where z: "fmt_nat d = ?ds @ replicate z (CHR ''0'')" using trim_zeros_append by blast
  show "all_digits ?ds" using all_digits_fmt_nat [of d] z by (metis all_digits_simps(3))
  have d: "d = read_nat 0 ?ds * 10 ^ z" using read_fmt_nat [of d] read_nat_zeros [of 0 ?ds z] z by simp
  then show ne: "?ds \<noteq> []" using assms by auto
  then show "hd ?ds \<noteq> CHR ''0''"
    using fmt_nat_zero [of d "tl (fmt_nat d)"] z assms by (metis hd_append2 hd_Cons_tl fmt_nat_nonempty less_numeral_extra(3))
  have "length (fmt_nat d) = length ?ds + z" using arg_cong [OF z, of length] by simp
  then have e: "int (length (fmt_nat d)) + j - int (length ?ds) = j + int z" by simp
  show "read_decimal (read_nat 0 ?ds) (int (length (fmt_nat d)) + j - int (length ?ds)) = read_decimal d j"
    unfolding e read_decimal_shift [symmetric] d [symmetric] ..
qed

text \<open>The shape of a number: what the lexer of JSON accepts as a whole.\<close>

definition number_shape :: "string \<Rightarrow> string \<Rightarrow> string \<Rightarrow> bool" where
  "number_shape i f e \<longleftrightarrow> (i = ''0'' \<or> all_digits i \<and> i \<noteq> [] \<and> hd i \<noteq> CHR ''0'') \<and>
     (f = [] \<or> (\<exists>fd. f = CHR ''.'' # fd \<and> all_digits fd \<and> fd \<noteq> [])) \<and>
     (e = [] \<or> (\<exists>c ed. e = CHR ''e'' # c # ed \<and> c \<in> set ''+-'' \<and> all_digits ed \<and> ed \<noteq> []))"

lemma int_part_shape:
  assumes "i = ''0'' \<or> all_digits i \<and> i \<noteq> [] \<and> hd i \<noteq> CHR ''0''" and "number_stop u"
  shows "int_part (i @ u) = Some (i, u)"
proof (cases "i = ''0''")
  case False
  then obtain c cs where "i = c # cs" using assms(1) by (cases i) auto
  with assms False digits_append [of cs u] show ?thesis by (auto simp: int_part_def)
qed (simp add: int_part_def)

lemma frac_part_shape:
  assumes "f = [] \<or> (\<exists>fd. f = CHR ''.'' # fd \<and> all_digits fd \<and> fd \<noteq> [])" and "number_stop u" and "f = [] \<Longrightarrow> u = [] \<or> hd u \<noteq> CHR ''.''"
  shows "frac_part (f @ u) = Some (f, u)"
proof (cases f)
  case Nil
  then show ?thesis using assms(3) by (cases u) (simp_all add: frac_part_def)
next
  case (Cons c fd)
  with assms(1) have "c = CHR ''.''" "all_digits fd" "fd \<noteq> []" by auto
  with Cons assms(2) show ?thesis by (simp add: frac_part_def digits_append)
qed

lemma exp_part_shape:
  assumes "e = [] \<or> (\<exists>c ed. e = CHR ''e'' # c # ed \<and> c \<in> set ''+-'' \<and> all_digits ed \<and> ed \<noteq> [])" and "number_end u"
  shows "exp_part (e @ u) = Some (e, u)"
proof (cases "e = []")
  case True
  then show ?thesis using number_end_parts(3) [OF assms(2)] by simp
next
  case False
  then obtain c ed where e: "e = CHR ''e'' # c # ed" "c \<in> set ''+-''" "all_digits ed" "ed \<noteq> []" using assms(1) by blast
  have "number_stop u" using assms(2) by (simp add: number_end_def number_stop_def split: list.splits)
  then have "digits (ed @ u) = (ed, u)" using e(3) by (simp add: digits_append)
  moreover have "opt_char ''+-'' (c # ed @ u) = ([c], ed @ u)" using e(2) by (simp add: opt_char_def)
  ultimately show ?thesis using e(1,4) by (simp add: exp_part_def)
qed

lemma lex_number_shape:
  assumes "number_shape i f e" and "number_end u"
  shows "lex_number (i @ f @ e @ u) = Some (i @ f @ e, u)" and "lex_number (CHR ''-'' # i @ f @ e @ u) = Some (CHR ''-'' # i @ f @ e, u)"
proof -
  have stop: "number_stop u" "u = [] \<or> hd u \<noteq> CHR ''.''"
    using assms(2) by (auto simp: number_end_def number_stop_def split: list.splits)
  have e: "number_stop (e @ u)" "e @ u = [] \<or> hd (e @ u) \<noteq> CHR ''.''" using assms(1) stop by (auto simp: number_shape_def)
  have f: "number_stop (f @ e @ u)" using assms(1) e(1) by (auto simp: number_shape_def)
  have i: "int_part (i @ f @ e @ u) = Some (i, f @ e @ u)" using assms(1) by (intro int_part_shape f) (simp add: number_shape_def)
  have fr: "frac_part (f @ e @ u) = Some (f, e @ u)" using assms(1) e by (intro frac_part_shape) (simp_all add: number_shape_def)
  have ex: "exp_part (e @ u) = Some (e, u)" using assms by (intro exp_part_shape) (simp_all add: number_shape_def)
  have "i \<noteq> [] \<and> hd i \<noteq> CHR ''-''" using assms(1) by (cases i) (auto simp: number_shape_def)
  then have "opt_char ''-'' (i @ f @ e @ u) = ([], i @ f @ e @ u)" by (cases i) (simp_all add: opt_char_def)
  then show "lex_number (i @ f @ e @ u) = Some (i @ f @ e, u)" by (simp add: lex_number_def i fr ex)
  show "lex_number (CHR ''-'' # i @ f @ e @ u) = Some (CHR ''-'' # i @ f @ e, u)" by (simp add: lex_number_def opt_char_def i fr ex)
qed

lemma is_number_shape:
  assumes "number_shape i f e"
  shows "is_number (i @ f @ e)" and "is_number (CHR ''-'' # i @ f @ e)"
proof -
  obtain c cs where "i = c # cs" "is_digit c" using assms by (cases i) (auto simp: number_shape_def is_digit_def)
  then show "is_number (i @ f @ e)" "is_number (CHR ''-'' # i @ f @ e)"
    using lex_number_shape [OF assms] by (simp_all add: is_number_def)
qed

lemma fixed_shape:
  assumes "all_digits ds" and "ds \<noteq> []" and "hd ds \<noteq> CHR ''0''"
  shows "\<exists>i f. fixed_text ds dp = i @ f @ [] \<and> number_shape i f []"
proof -
  consider "dp \<le> 0" | "0 < dp" "int (length ds) \<le> dp" | "0 < dp" "dp < int (length ds)" by linarith
  then show ?thesis
  proof cases
    case 1
    then show ?thesis using assms
      by (intro exI [of _ "''0''"] exI [of _ "CHR ''.'' # replicate (nat (- dp)) (CHR ''0'') @ ds"]) (simp add: fixed_text_def number_shape_def)
  next
    case 2
    then show ?thesis using assms
      by (intro exI [of _ "ds @ replicate (nat dp - length ds) (CHR ''0'')"] exI [of _ "[]"]) (simp add: fixed_text_def number_shape_def)
  next
    case 3
    then show ?thesis using assms
      by (intro exI [of _ "take (nat dp) ds"] exI [of _ "CHR ''.'' # drop (nat dp) ds"]) (simp add: fixed_text_def number_shape_def hd_take)
  qed
qed

lemma scientific_shape:
  assumes "all_digits ds" and "ds \<noteq> []" and "hd ds \<noteq> CHR ''0''"
  shows "\<exists>i f e. scientific_text ds dp = i @ f @ e \<and> number_shape i f e"
proof -
  obtain d r where ds: "ds = d # r" using assms(2) by (cases ds) auto
  have e: "\<exists>c ed. exp_text x = CHR ''e'' # c # ed \<and> c \<in> set ''+-'' \<and> all_digits ed \<and> ed \<noteq> []" for x
    by (simp add: exp_text_def is_digit_def)
  show ?thesis using assms e [of "dp - 1"] unfolding ds
    by (intro exI [of _ "[d]"] exI [of _ "if r = [] then [] else CHR ''.'' # r"] exI [of _ "exp_text (dp - 1)"])
       (auto simp: scientific_text_def number_shape_def)
qed

lemma mag_text_facts:
  assumes "mag_finite k"
  shows "read_mag (mag_text k) = k" and "\<exists>i f e. mag_text k = i @ f @ e \<and> number_shape i f e"
proof -
  have "read_mag (mag_text k) = k \<and> (\<exists>i f e. mag_text k = i @ f @ e \<and> number_shape i f e)"
  proof (cases "k = 0")
    case True
    have "number_shape ''0'' [] []" by (simp add: number_shape_def)
    then have "\<exists>i f e. ''0'' = i @ f @ e \<and> number_shape i f e" by (metis append_Nil2)
    with True show ?thesis by (simp add: mag_text_def read_mag_plain is_digit_def)
  next
    case False
    obtain d j where dj: "shortest k = (d, j)" by (cases "shortest k")
    have r: "read_decimal d j = k" using shortest_reads [OF dj] .
    with False have "0 < d" by (cases d) simp_all
    note ds = trimmed_digits [OF this]
    define ds where "ds = trim_zeros (fmt_nat d)"
    define dp where "dp = int (length (fmt_nat d)) + j"
    have small: "\<bar>dp - 1\<bar> < 10000" using shortest_facts [OF assms dj] by (simp add: dp_def)
    have shown: "mag_text k = scientific_text ds dp \<or> mag_text k = fixed_text ds dp"
      unfolding mag_text_def dj prod.case Let_def ds_def dp_def using False by metis
    have read: "read_mag (scientific_text ds dp) = k" "read_mag (fixed_text ds dp) = k"
      using read_scientific_text [OF ds(1,2), where dp = dp] read_fixed_text [OF ds(1), where dp = dp] small ds(4) [of j] r
      unfolding ds_def [symmetric] dp_def [symmetric] by simp_all
    from shown show ?thesis
      using read scientific_shape [OF ds(1-3), where dp = dp] fixed_shape [OF ds(1-3), where dp = dp] unfolding ds_def [symmetric] by metis
  qed
  then show "read_mag (mag_text k) = k" and "\<exists>i f e. mag_text k = i @ f @ e \<and> number_shape i f e" by blast+
qed

lemma is_number_float_text: "float_finite w \<Longrightarrow> is_number (float_text w)"
  using mag_text_facts(2) [of "mag_of w"] is_number_shape by (auto simp: float_finite_def float_text_def)

text \<open>A finite number, minus zero included, reads back bit by bit.\<close>

lemma parse_float_text:
  assumes "float_finite w"
  shows "parse_float (float_text w) = Some w"
proof -
  have fin: "mag_finite (mag_of w)" using assms by (simp add: float_finite_def)
  obtain i f e where "mag_text (mag_of w) = i @ f @ e" "number_shape i f e" using mag_text_facts(2) [OF fin] by blast
  then have "mag_text (mag_of w) \<noteq> [] \<and> hd (mag_text (mag_of w)) \<noteq> CHR ''-''" by (cases i) (auto simp: number_shape_def)
  then have plain: "opt_char ''-'' (mag_text (mag_of w)) = ([], mag_text (mag_of w))"
    by (cases "mag_text (mag_of w)") (simp_all add: opt_char_def)
  have neg: "opt_char ''-'' (CHR ''-'' # s) = (''-'', s)" for s by (simp add: opt_char_def)
  have "unat w < 2 ^ LENGTH(64)" by (rule unsigned_less)
  then have "unat w div 2 ^ 63 < 2" by (simp add: less_mult_imp_div_less)
  then have "unat w div 2 ^ 63 = (if is_negative w then 1 else 0)"
    using div_less [of "unat w" "2 ^ 63"] by (auto simp: is_negative_def not_le div_greater_zero_iff less_2_cases_iff)
  then have "mag_of w + (if is_negative w then 2 ^ 63 else 0) = unat w"
    using div_mult_mod_eq [of "unat w" "2 ^ 63"] by (cases "is_negative w") (simp_all add: mag_of_def)
  moreover have "of_nat (unat w) = w" by simp
  ultimately have "of_nat (mag_of w + (if is_negative w then 2 ^ 63 else 0)) = w" by (simp only:)
  then show ?thesis using fin mag_text_facts(1) [OF fin]
    by (auto simp: parse_float_def float_text_def plain neg Let_def)
qed

end
