(* ===== verification/BlockJson.thy ===== *)
theory BlockJson
  imports JsonStream GoFloat Blocks
begin

text \<open>
  Transactions and blocks as JSON text. Marshalling drops the monotonic reading of a time and fails
  for a number that is not finite, a year that does not fit four digits, and an offset of a day or
  more; unmarshalling accepts offsets of up to 25 hours, so that a transaction can be read that
  cannot be written.
\<close>

section \<open>Times and amounts\<close>

definition enc_go_time :: "go_time \<Rightarrow> json" where
  "enc_go_time t = jstr (zoned_text (tm_offset t) (tm_instant t))"

definition dec_go_time :: "go_time decoder" where
  "dec_go_time j old = (case j of
      JStr e s \<Rightarrow> if e then None else map_option (\<lambda>(t, off). \<lparr>tm_instant = t, tm_offset = off, tm_mono = None\<rparr>) (parse_zoned s)
    | JNull \<Rightarrow> Some old | _ \<Rightarrow> None)"

text \<open>\<^verbatim>\<open>Time.MarshalJSON\<close>: the year is that of the zone, and the hours of the zone are below 24.\<close>

definition time_writable :: "go_time \<Rightarrow> bool" where
  "time_writable t \<longleftrightarrow> year_in_range (tm_instant t + tm_offset t * nanos_per_second) \<and> \<bar>tm_offset t\<bar> < 86400"

definition enc_float :: "64 word \<Rightarrow> json" where "enc_float w = JNum (float_text w)"

definition dec_float :: "64 word decoder" where
  "dec_float j old = (case j of JNum lit \<Rightarrow> parse_float lit | JNull \<Rightarrow> Some old | _ \<Rightarrow> None)"

text \<open>The zero \<^verbatim>\<open>time.Time\<close> is the first instant of the year 1.\<close>

definition zero_time :: go_time where
  "zero_time = \<lparr>tm_instant = join_instant 0 0 0, tm_offset = 0, tm_mono = None\<rparr>"

section \<open>How a time prints\<close>

text \<open>
  \<^verbatim>\<open>Time.String\<close>, which the hash of a block covers: the layout \<^verbatim>\<open>2006-01-02 15:04:05.999999999 -0700 MST\<close>
  and, for a time with a monotonic reading, that reading. The abbreviation of the zone is the
  argument \<open>zone\<close>: it depends on the location, which JSON does not carry; an empty one prints as
  the offset. \<open>append_int\<close> is the library's \<^verbatim>\<open>appendInt\<close>: a sign and at least \<open>w\<close> digits.
\<close>

definition append_int :: "nat \<Rightarrow> int \<Rightarrow> string" where
  "append_int w i = (if i < 0 then ''-'' else []) @ (let n = nat \<bar>i\<bar> in if n < 10 ^ w then pad w n else fmt_nat n)"

definition num_zone :: "int \<Rightarrow> string" where
  "num_zone off = (let z = int (nat \<bar>off\<bar> div 60)
     in (if off \<le> - 60 then ''-'' else ''+'') @ append_int 2 (z div 60) @ append_int 2 (z mod 60))"

definition wall_text :: "string \<Rightarrow> int \<Rightarrow> int \<Rightarrow> string" where
  "wall_text zone off t = (case split_instant (t + off * nanos_per_second) of (day, sec, ns) \<Rightarrow>
     (case civil_of_day day of (y, m, d) \<Rightarrow>
        append_int 4 y @ ''-'' @ append_int 2 (int m) @ ''-'' @ append_int 2 d @ '' '' @ clock_text sec @ fraction ns
        @ '' '' @ num_zone off @ '' '' @ (if zone = [] then num_zone off else zone)))"

definition mono_text :: "int option \<Rightarrow> string" where
  "mono_text mr = (case mr of None \<Rightarrow> []
     | Some m \<Rightarrow> '' m='' @ (if m < 0 then ''-'' else ''+'') @ fmt_nat (nat \<bar>m\<bar> div 10 ^ 9) @ ''.'' @ pad 9 (nat \<bar>m\<bar> mod 10 ^ 9))"

definition go_time_string :: "string \<Rightarrow> go_time \<Rightarrow> string" where
  "go_time_string zone t = wall_text zone (tm_offset t) (tm_instant t) @ mono_text (tm_mono t)"

text \<open>The monotonic reading is the only part with an equals sign.\<close>

lemma no_eq_pad: "CHR ''='' \<notin> set (pad w n)"
  using pad_plain(2) [of w n] by (auto simp: list_all_iff is_digit_def)

lemma no_eq_fmt_nat: "CHR ''='' \<notin> set (fmt_nat n)"
  by (auto simp: is_digit_def dest: is_digit_fmt_nat)

lemma no_eq_append_int: "CHR ''='' \<notin> set (append_int w i)"
  by (simp add: append_int_def no_eq_pad no_eq_fmt_nat Let_def)

lemma no_eq_fraction: "CHR ''='' \<notin> set (fraction ns)"
proof -
  have "set (trim_zeros s) \<subseteq> set s" for s using set_dropWhileD by (fastforce simp: trim_zeros_def)
  then show ?thesis using no_eq_pad [of 9 ns] by (auto simp: fraction_def)
qed

lemma no_eq_wall:
  assumes "CHR ''='' \<notin> set zone"
  shows "CHR ''='' \<notin> set (wall_text zone off t)"
proof -
  obtain day sec ns where s: "split_instant (t + off * nanos_per_second) = (day, sec, ns)" by (rule prod_cases3)
  obtain y m d where c: "civil_of_day day = (y, m, d)" by (rule prod_cases3)
  have z: "CHR ''='' \<notin> set (num_zone off)" by (simp add: num_zone_def no_eq_append_int Let_def)
  show ?thesis unfolding wall_text_def s c prod.case
    using assms z by (simp add: no_eq_append_int no_eq_fraction clock_text_def no_eq_pad)
qed

lemma count_mono: "count_list (mono_text m) (CHR ''='') = (if m = None then 0 else 1)"
  using no_eq_pad [of 9] no_eq_fmt_nat by (auto simp: mono_text_def count_list_append count_list_0_iff split: option.split)

lemma count_time_string:
  assumes "CHR ''='' \<notin> set zone"
  shows "count_list (go_time_string zone t) (CHR ''='') = (if tm_mono t = None then 0 else 1)"
  using no_eq_wall [OF assms] by (simp add: go_time_string_def count_list_append count_mono count_list_0_iff)

section \<open>The codec\<close>

definition tx_fields :: "transaction field_table" where
  "tx_fields = [(''id'', field dec_string tx_id tx_id_update), (''sender'', field dec_string tx_sender tx_sender_update),
     (''recipient'', field dec_string tx_recipient tx_recipient_update), (''amount'', field dec_float tx_amount tx_amount_update),
     (''timestamp'', field dec_go_time tx_timestamp tx_timestamp_update)]"

definition tx_zero :: transaction where
  "tx_zero = \<lparr>tx_id = [], tx_sender = [], tx_recipient = [], tx_amount = 0, tx_timestamp = zero_time\<rparr>"

definition enc_tx :: "transaction \<Rightarrow> json" where
  "enc_tx tx = JObj [(''id'', jstr (tx_id tx)), (''sender'', jstr (tx_sender tx)), (''recipient'', jstr (tx_recipient tx)),
     (''amount'', enc_float (tx_amount tx)), (''timestamp'', enc_go_time (tx_timestamp tx))]"

definition block_fields :: "block field_table" where
  "block_fields = [(''index'', field dec_int bl_index bl_index_update),
     (''timestamp'', field dec_go_time bl_timestamp bl_timestamp_update),
     (''transactions'', field (dec_slice (dec_struct tx_fields) tx_zero) bl_transactions bl_transactions_update),
     (''prev_hash'', field dec_string bl_prev_hash bl_prev_hash_update), (''hash'', field dec_string bl_hash bl_hash_update),
     (''nonce'', field dec_int bl_nonce bl_nonce_update)]"

definition block_zero :: block where
  "block_zero = \<lparr>bl_index = 0, bl_timestamp = zero_time, bl_transactions = [], bl_prev_hash = [], bl_hash = [], bl_nonce = 0\<rparr>"

definition enc_block :: "bool \<Rightarrow> block \<Rightarrow> json" where
  "enc_block nil b = JObj [(''index'', enc_int (bl_index b)), (''timestamp'', enc_go_time (bl_timestamp b)),
     (''transactions'', enc_slice nil enc_tx (bl_transactions b)), (''prev_hash'', jstr (bl_prev_hash b)),
     (''hash'', jstr (bl_hash b)), (''nonce'', enc_int (bl_nonce b))]"

definition tx_writable :: "transaction \<Rightarrow> bool" where
  "tx_writable tx \<longleftrightarrow> float_finite (tx_amount tx) \<and> time_writable (tx_timestamp tx)"

definition block_writable :: "block \<Rightarrow> bool" where
  "block_writable b \<longleftrightarrow> time_writable (bl_timestamp b) \<and> (\<forall>tx \<in> set (bl_transactions b). tx_writable tx)"

definition block_marshal :: "bool \<Rightarrow> block \<Rightarrow> bytes result" where
  "block_marshal nil b = (if block_writable b then Inr (json_print (enc_block nil b)) else Inl (NewError ''json: cannot marshal''))"

definition block_unmarshal :: "bytes \<Rightarrow> block result" where
  "block_unmarshal = json_unmarshal (dec_struct block_fields) block_zero"

definition tx_decode :: "bytes \<Rightarrow> transaction result" where
  "tx_decode = json_decode (dec_struct tx_fields) tx_zero"

definition block_decode :: "bytes \<Rightarrow> block result" where
  "block_decode = json_decode (dec_struct block_fields) block_zero"

section \<open>A block that is written reads back\<close>

text \<open>What decoding leaves: texts that are well-formed, offsets in whole minutes, no monotonic reading.\<close>

definition time_plain :: "go_time \<Rightarrow> bool" where "time_plain t \<longleftrightarrow> 60 dvd tm_offset t \<and> tm_mono t = None"

definition tx_plain :: "transaction \<Rightarrow> bool" where
  "tx_plain tx \<longleftrightarrow> valid_text (tx_id tx) \<and> valid_text (tx_sender tx) \<and> valid_text (tx_recipient tx) \<and> time_plain (tx_timestamp tx)"

definition block_plain :: "block \<Rightarrow> bool" where
  "block_plain b \<longleftrightarrow> in_int64 (bl_index b) \<and> in_int64 (bl_nonce b) \<and> valid_text (bl_prev_hash b) \<and> valid_text (bl_hash b) \<and>
     time_plain (bl_timestamp b) \<and> (\<forall>tx \<in> set (bl_transactions b). tx_plain tx)"

lemma dec_enc_go_time [codec]:
  "time_writable t \<Longrightarrow> time_plain t \<Longrightarrow> dec_go_time (sanitize_json (enc_go_time t)) old = Some t"
  using parse_zoned_text [of "tm_instant t" "tm_offset t"]
  by (simp add: dec_go_time_def enc_go_time_def time_writable_def time_plain_def whole_minutes_def)

lemma dec_enc_float [codec]: "float_finite w \<Longrightarrow> dec_float (sanitize_json (enc_float w)) old = Some w"
  by (simp add: dec_float_def enc_float_def parse_float_text)

lemma enc_time_float_ok [codec]:
  "numbers_ok (enc_go_time t)" "height (enc_go_time t) = 0" "float_finite w \<Longrightarrow> numbers_ok (enc_float w)" "height (enc_float w) = 0"
  by (simp_all add: enc_go_time_def enc_float_def is_number_float_text)

lemma enc_tx_ok: "tx_writable tx \<Longrightarrow> numbers_ok (enc_tx tx)" "height (enc_tx tx) = 1"
  by (simp_all add: enc_tx_def tx_writable_def codec)

lemma dec_enc_tx: "tx_writable tx \<Longrightarrow> tx_plain tx \<Longrightarrow> dec_struct tx_fields (sanitize_json (enc_tx tx)) old = Some tx"
  by (simp add: enc_tx_def tx_fields_def tx_writable_def tx_plain_def codec)

lemma dec_enc_txs:
  assumes "\<forall>tx \<in> set txs. tx_writable tx \<and> tx_plain tx"
  shows "dec_slice (dec_struct tx_fields) tx_zero (sanitize_json (enc_slice nil enc_tx txs)) old = Some txs"
  by (rule dec_slice_enc) (simp add: assms dec_enc_tx)

interpretation block_codec: json_codec "enc_block nil" "dec_struct block_fields" block_zero "\<lambda>b. block_writable b \<and> block_plain b" for nil
proof
  fix b assume b: "block_writable b \<and> block_plain b"
  then show "numbers_ok (enc_block nil b)"
    by (simp add: enc_block_def block_writable_def codec numbers_enc_slice enc_tx_ok)
  have "height (enc_slice nil enc_tx (bl_transactions b)) \<le> 2"
    using height_enc_slice [of "bl_transactions b" enc_tx 1 nil] enc_tx_ok(2) by (simp add: numeral_2_eq_2)
  then show "height (enc_block nil b) \<le> max_nesting" by (simp add: enc_block_def max_nesting_def codec)
  show "dec_struct block_fields (sanitize_json (enc_block nil b)) block_zero = Some b"
    using b by (simp add: enc_block_def block_fields_def block_writable_def block_plain_def codec dec_enc_txs)
qed

section \<open>What decoding can produce\<close>

text \<open>An invariant of every member of a struct is an invariant of decoding the struct.\<close>

definition keeps :: "('r \<Rightarrow> bool) \<Rightarrow> 'r decoder \<Rightarrow> bool" where
  "keeps P f \<longleftrightarrow> (\<forall>v r r'. clean v \<longrightarrow> P r \<longrightarrow> f v r = Some r' \<longrightarrow> P r')"

lemma keepsD: "keeps P f \<Longrightarrow> clean v \<Longrightarrow> P r \<Longrightarrow> f v r = Some r' \<Longrightarrow> P r'"
  unfolding keeps_def by blast

lemma find_field_in: "find_field fs k = Some f \<Longrightarrow> f \<in> snd ` set fs"
proof -
  assume "find_field fs k = Some f"
  then consider "map_of fs k = Some f" | nf where "find (\<lambda>nf. fold_name (fst nf) = fold_name k) fs = Some nf" "f = snd nf"
    by (auto simp: find_field_def split: option.splits)
  then show ?thesis
  proof cases
    case 1
    from map_of_SomeD [OF this] show ?thesis by (rule rev_image_eqI) simp
  next
    case 2
    then have "nf \<in> set fs" by (auto simp: find_Some_iff)
    with 2 show ?thesis by simp
  qed
qed

lemma keeps_members:
  assumes "\<forall>nf \<in> set fs. keeps P (snd nf)"
  shows "dec_members fs ms r = Some r' \<Longrightarrow> clean (JObj ms) \<Longrightarrow> P r \<Longrightarrow> P r'"
proof (induction ms arbitrary: r)
  case (Cons m ms)
  obtain k v where m: "m = (k, v)" by (cases m)
  show ?case
  proof (cases "find_field fs k")
    case (Some f)
    then have "keeps P f" using find_field_in [OF Some] assms by auto
    moreover obtain r1 where "f v r = Some r1" "dec_members fs ms r1 = Some r'" using Cons.prems(1) m Some by (auto split: option.splits)
    ultimately show ?thesis using Cons m keepsD [of P f v r r1] by auto
  qed (use Cons m in simp)
qed simp

lemma keeps_struct: "\<forall>nf \<in> set fs. keeps P (snd nf) \<Longrightarrow> keeps P (dec_struct fs)"
  using keeps_members [of fs P] unfolding keeps_def [of P "dec_struct fs"] dec_struct_def by (auto split: json.splits)

lemma keeps_elems:
  assumes "keeps P d" and "P zero"
  shows "dec_elems d zero js old = Some xs \<Longrightarrow> \<forall>j \<in> set js. clean j \<Longrightarrow> \<forall>x \<in> set old. P x \<Longrightarrow> \<forall>x \<in> set xs. P x"
proof (induction js arbitrary: old xs)
  case (Cons j js)
  let ?old = "case old of [] \<Rightarrow> zero | x # _ \<Rightarrow> x"
  obtain x xs' where x: "d j ?old = Some x" "dec_elems d zero js (tl old) = Some xs'" "xs = x # xs'"
    using Cons.prems(1) by (auto split: option.splits)
  have "P ?old" using Cons.prems(3) assms(2) by (cases old) auto
  then have "P x" using keepsD [OF assms(1) _ _ x(1)] Cons.prems(2) by simp
  moreover have "\<forall>x \<in> set (tl old). P x" using Cons.prems(3) by (cases old) auto
  ultimately show ?case using Cons.IH [OF x(2)] Cons.prems(2) x(3) by auto
qed simp

lemma keeps_slice: "keeps P d \<Longrightarrow> P zero \<Longrightarrow> keeps (\<lambda>xs. \<forall>x \<in> set xs. P x) (dec_slice d zero)"
  using keeps_elems [of P d zero] unfolding keeps_def [of _ "dec_slice d zero"] dec_slice_def by (auto split: json.splits)

lemma dec_string_valid: "clean v \<Longrightarrow> dec_string v old = Some s \<Longrightarrow> valid_text old \<Longrightarrow> valid_text s"
  by (auto simp: dec_string_def split: json.splits)

lemma parse_float_finite: "parse_float lit = Some w \<Longrightarrow> float_finite w"
proof -
  assume "parse_float lit = Some w"
  moreover obtain sign s where o: "opt_char ''-'' lit = (sign, s)" by (cases "opt_char ''-'' lit")
  ultimately have "mag_finite (read_mag s)" "w = of_nat (read_mag s + (if sign = [] then 0 else 2 ^ 63))"
    unfolding parse_float_def o Let_def prod.case by (metis option.distinct(1), metis option.distinct(1) option.inject)
  then obtain k sg where w: "mag_finite k" "w = of_nat (k + sg)" "sg = 0 \<or> sg = 2 ^ 63" by metis
  then have k: "k < 2 ^ 63" by (simp add: mag_finite_def)
  have "n < 2 ^ 64 \<Longrightarrow> unat (of_nat n :: 64 word) = n" for n by (simp add: unat_of_nat take_bit_nat_eq_self)
  moreover have "k + sg < 2 ^ 64" using k w(3) by auto
  ultimately have "unat w = k + sg" unfolding w(2) by blast
  then show ?thesis using w(1,3) k by (auto simp: float_finite_def mag_of_def)
qed

lemma dec_float_finite: "dec_float v old = Some w \<Longrightarrow> float_finite old \<Longrightarrow> float_finite w"
  by (auto simp: dec_float_def parse_float_finite split: json.splits)

lemma dec_int_range: "dec_int v old = Some i \<Longrightarrow> in_int64 old \<Longrightarrow> in_int64 i"
  by (auto simp: dec_int_def parse_int_def Let_def split: json.splits prod.splits if_splits)

definition time_sound :: "go_time \<Rightarrow> bool" where
  "time_sound t \<longleftrightarrow> time_plain t \<and> year_in_range (tm_instant t + tm_offset t * nanos_per_second) \<and> \<bar>tm_offset t\<bar> \<le> 90000"

definition tx_sound :: "transaction \<Rightarrow> bool" where
  "tx_sound tx \<longleftrightarrow> tx_plain tx \<and> float_finite (tx_amount tx) \<and> time_sound (tx_timestamp tx)"

definition block_sound :: "block \<Rightarrow> bool" where
  "block_sound b \<longleftrightarrow> block_plain b \<and> time_sound (bl_timestamp b) \<and> (\<forall>tx \<in> set (bl_transactions b). tx_sound tx)"

lemma dec_time_sound: "dec_go_time v old = Some t \<Longrightarrow> time_sound old \<Longrightarrow> time_sound t"
  by (auto simp: dec_go_time_def time_sound_def time_plain_def dest: parse_zoned_range split: json.splits if_splits)

lemma time_sound_plain: "time_sound t \<Longrightarrow> time_plain t"
  by (simp add: time_sound_def)

lemma zero_sound: "time_sound zero_time" "tx_sound tx_zero" "block_sound block_zero"
proof -
  have "days_before_year 1 = 0" by (simp add: days_before_year_def)
  then have "year_of_day 0 = 1" by (intro year_of_day_unique) (simp_all add: days_before_year_def)
  then show t: "time_sound zero_time"
    by (simp add: time_sound_def time_plain_def zero_time_def year_in_range_def split_join)
  have "float_finite 0" by (simp add: float_finite_def mag_of_def mag_finite_def)
  then show "tx_sound tx_zero" using t by (simp add: tx_sound_def tx_zero_def tx_plain_def time_sound_plain)
  show "block_sound block_zero"
    using t by (simp add: block_sound_def block_zero_def block_plain_def time_sound_plain in_int64_def int64_min_def int64_max_def)
qed

lemma keeps_tx: "keeps tx_sound (dec_struct tx_fields)"
proof (rule keeps_struct)
  show "\<forall>nf \<in> set tx_fields. keeps tx_sound (snd nf)"
    by (auto simp: tx_fields_def keeps_def field_def tx_sound_def tx_plain_def
        dest: dec_string_valid dec_float_finite dec_time_sound time_sound_plain [OF dec_time_sound])
qed

lemma keeps_block: "keeps block_sound (dec_struct block_fields)"
proof (rule keeps_struct)
  have "\<forall>tx \<in> set txs'. tx_sound tx"
    if "clean v" "dec_slice (dec_struct tx_fields) tx_zero v txs = Some txs'" "\<forall>tx \<in> set txs. tx_sound tx" for v txs txs'
    using keepsD [OF keeps_slice [OF keeps_tx zero_sound(2)] that(1,3,2)] .
  moreover have "tx_sound tx \<Longrightarrow> tx_plain tx" for tx by (simp add: tx_sound_def)
  ultimately show "\<forall>nf \<in> set block_fields. keeps block_sound (snd nf)"
    by (auto simp: block_fields_def keeps_def field_def block_sound_def block_plain_def
        dest: dec_string_valid dec_int_range dec_time_sound time_sound_plain [OF dec_time_sound])
qed

lemma tx_decode_sound: "tx_decode body = Inr tx \<Longrightarrow> tx_sound tx"
  using keepsD [OF keeps_tx _ zero_sound(2)] json_first_clean
  by (fastforce simp: tx_decode_def json_decode_def split: option.splits)

lemma block_decode_sound: "block_decode body = Inr b \<Longrightarrow> block_sound b"
  using keepsD [OF keeps_block _ zero_sound(3)] json_first_clean
  by (fastforce simp: block_decode_def json_decode_def split: option.splits)

lemma block_unmarshal_sound: "block_unmarshal body = Inr b \<Longrightarrow> block_sound b"
  using block_decode_sound json_decode_unmarshal by (metis block_decode_def block_unmarshal_def)

text \<open>All that can be wrong with a decoded transaction is its offset.\<close>

lemma sound_writable: "tx_sound tx \<Longrightarrow> tx_writable tx \<longleftrightarrow> \<bar>tm_offset (tx_timestamp tx)\<bar> < 86400"
  by (auto simp: tx_sound_def tx_writable_def time_sound_def time_writable_def)

end
