(* ===== verification/BlockNetwork.thy ===== *)
theory BlockNetwork
  imports BlockJson NodeLifecycle
begin

text \<open>
  Nodes with the JSON of the program between them: a node mines blocks and publishes their text, another
  one hears the texts, decodes and applies them. The chain of a node is the run of the chain state
  machine over the blocks its loop has taken or mined; what one node publishes is what the other
  applies.
\<close>

definition program_deps :: "bool \<Rightarrow> 'st storage_api \<Rightarrow> (go_time \<Rightarrow> string) \<Rightarrow> 'st runtime_deps" where
  "program_deps nil api time_string = \<lparr>nd_api = api, nd_marshal = block_marshal nil, nd_unmarshal = block_unmarshal,
     nd_decode_tx = tx_decode, nd_decode_block = block_decode, nd_time_string = time_string\<rparr>"

lemma program_deps_sel [simp]:
  "nd_api (program_deps nil api ts) = api" "nd_marshal (program_deps nil api ts) = block_marshal nil"
  "nd_unmarshal (program_deps nil api ts) = block_unmarshal" "nd_decode_tx (program_deps nil api ts) = tx_decode"
  "nd_decode_block (program_deps nil api ts) = block_decode" "nd_time_string (program_deps nil api ts) = ts"
  by (simp_all add: program_deps_def)

section \<open>Blocks in a run\<close>

definition applied_blocks :: "loop_event list \<Rightarrow> block list" where
  "applied_blocks evs = concat (map (\<lambda>ev. case ev of GotBlock b \<Rightarrow> [b] | Mined b \<Rightarrow> [b] | _ \<Rightarrow> []) evs)"

definition got_blocks :: "loop_event list \<Rightarrow> block list" where
  "got_blocks evs = concat (map (\<lambda>ev. case ev of GotBlock b \<Rightarrow> [b] | _ \<Rightarrow> []) evs)"

definition right_list :: "'a result \<Rightarrow> 'a list" where
  "right_list x = (case x of Inl _ \<Rightarrow> [] | Inr a \<Rightarrow> [a])"

text \<open>The messages of other nodes, and the blocks a run has put into the channel.\<close>

definition heard :: "string option \<Rightarrow> loop_event list \<Rightarrow> bytes list" where
  "heard host evs = concat (map (\<lambda>ev. case ev of Gossip s m \<Rightarrow> (if Some s = host then [] else [m]) | _ \<Rightarrow> []) evs)"

definition received_blocks :: "'st runtime_deps \<Rightarrow> string option \<Rightarrow> loop_event list \<Rightarrow> block list" where
  "received_blocks d host evs = concat (map (\<lambda>ev. case ev of
      Gossip s m \<Rightarrow> (if Some s = host then [] else right_list (nd_unmarshal d m))
    | HttpBlock meth body status \<Rightarrow> (if status = 202 then right_list (nd_decode_block d body) else [])
    | _ \<Rightarrow> []) evs)"

lemma run_lists_Cons:
  "applied_blocks (ev # evs) = applied_blocks [ev] @ applied_blocks evs" "got_blocks (ev # evs) = got_blocks [ev] @ got_blocks evs"
  "heard h (ev # evs) = heard h [ev] @ heard h evs" "received_blocks d h (ev # evs) = received_blocks d h [ev] @ received_blocks d h evs"
  "mined_blocks (ev # evs) = mined_blocks [ev] @ mined_blocks evs"
  by (simp_all add: applied_blocks_def got_blocks_def heard_def received_blocks_def mined_blocks_def)

lemma run_lists_Nil [simp]:
  "applied_blocks [] = []" "got_blocks [] = []" "heard h [] = []" "received_blocks d h [] = []" "mined_blocks [] = []"
  by (simp_all add: applied_blocks_def got_blocks_def heard_def received_blocks_def mined_blocks_def)

definition chain_run_of :: "'st runtime_deps \<Rightarrow> 'st chain_state \<Rightarrow> bytes list \<Rightarrow> 'st chain_state" where
  "chain_run_of d c datas = run_commits (chain_apply (nd_api d) (nd_unmarshal d)) c (map (Pair ()) datas)"

lemma chain_run_of_simps [simp]:
  "chain_run_of d c [] = c" "chain_run_of d c (x # xs) = chain_run_of d (fst (chain_apply (nd_api d) (nd_unmarshal d) () c x)) xs"
  "chain_run_of d c (xs @ ys) = chain_run_of d (chain_run_of d c xs) ys"
  by (simp_all add: chain_run_of_def run_commits_append)

text \<open>What one turn does to the chain, the published texts, the block channel and the fixed parts.\<close>

lemma handlers_keep_block_chan:
  "handle_tx decode p meth body = (p', reply) \<Longrightarrow> block_chan p' = block_chan p \<and> p2p_host p' = p2p_host p"
  "handle_block decode' p meth body = (p', Reply status msg) \<Longrightarrow> p2p_host p' = p2p_host p \<and>
     chan_buf (block_chan p') = chan_buf (block_chan p) @ (if status = 202 then right_list (decode' body) else [])"
  "listen_gossip decode' p sender data = Some p' \<Longrightarrow> p2p_host p' = p2p_host p \<and>
     chan_buf (block_chan p') = chan_buf (block_chan p) @ (if Some sender = p2p_host p then [] else right_list (decode' data))"
  by (auto simp: handle_tx_def handle_block_def listen_gossip_def http_error_def right_list_def Let_def dest: send_Some
      split: if_splits sum.splits option.splits)

lemma broadcast_keeps:
  "block_chan (broadcast_block marshal p b) = block_chan p" "p2p_host (broadcast_block marshal p b) = p2p_host p"
  "p2p_topic p \<Longrightarrow> published (broadcast_block marshal p b) = published p @ right_list (marshal b)"
  by (simp_all add: broadcast_block_def right_list_def split: sum.split)

lemma step_blocks:
  assumes "loop_step d r ev r'"
  shows "rt_chain r' = chain_run_of d (rt_chain r) (map (marshal_or_nil d) (applied_blocks [ev]))"
    and "p2p_host (rt_p2p r') = p2p_host (rt_p2p r) \<and> p2p_topic (rt_p2p r') = p2p_topic (rt_p2p r)"
    and "p2p_topic (rt_p2p r) \<Longrightarrow> published (rt_p2p r') = published (rt_p2p r) @ concat (map (right_list \<circ> nd_marshal d) (mined_blocks [ev]))"
    and "got_blocks [ev] @ chan_buf (block_chan (rt_p2p r')) = chan_buf (block_chan (rt_p2p r)) @ received_blocks d (p2p_host (rt_p2p r)) [ev]"
  using assms
  by (induction rule: loop_step.induct)
     (auto simp: applied_blocks_def got_blocks_def received_blocks_def mined_blocks_def apply_block_def broadcast_life broadcast_keeps recv_def
        dest: handlers_keep_life handlers_keep_block_chan split: list.splits)

lemma run_blocks:
  assumes "loop_run d r evs r'"
  shows "rt_chain r' = chain_run_of d (rt_chain r) (map (marshal_or_nil d) (applied_blocks evs)) \<and>
     p2p_host (rt_p2p r') = p2p_host (rt_p2p r) \<and> p2p_topic (rt_p2p r') = p2p_topic (rt_p2p r) \<and>
     (p2p_topic (rt_p2p r) \<longrightarrow> published (rt_p2p r') = published (rt_p2p r) @ concat (map (right_list \<circ> nd_marshal d) (mined_blocks evs))) \<and>
     got_blocks evs @ chan_buf (block_chan (rt_p2p r')) = chan_buf (block_chan (rt_p2p r)) @ received_blocks d (p2p_host (rt_p2p r)) evs"
  using assms
proof (induction rule: loop_run.induct)
  case (run_cons r ev r' evs r'')
  note step = step_blocks [OF run_cons.hyps(1)]
  have "got_blocks (ev # evs) @ chan_buf (block_chan (rt_p2p r'')) =
      (got_blocks [ev] @ chan_buf (block_chan (rt_p2p r'))) @ received_blocks d (p2p_host (rt_p2p r')) evs"
    using run_cons.IH unfolding run_lists_Cons(2) [of ev evs] by simp
  then have "got_blocks (ev # evs) @ chan_buf (block_chan (rt_p2p r'')) =
      chan_buf (block_chan (rt_p2p r)) @ received_blocks d (p2p_host (rt_p2p r)) (ev # evs)"
    using step(2,4) unfolding run_lists_Cons(4) [of d "p2p_host (rt_p2p r)" ev evs] by simp
  then show ?case
    using run_cons.IH step(1-3) unfolding run_lists_Cons(1) [of ev evs] run_lists_Cons(5) [of ev evs] by (simp add: comp_def)
qed simp

section \<open>A block reads back at another node\<close>

definition without_mono :: "block \<Rightarrow> block" where
  "without_mono b = b\<lparr>bl_timestamp := (bl_timestamp b)\<lparr>tm_mono := None\<rparr>\<rparr>"

lemma enc_without_mono: "enc_block nil (without_mono b) = enc_block nil b" "block_writable (without_mono b) = block_writable b"
  by (simp_all add: without_mono_def enc_block_def enc_go_time_def block_writable_def time_writable_def)

text \<open>Which blocks a node can mine from decoded transactions.\<close>

definition clock_ok :: "go_time \<Rightarrow> bool" where
  "clock_ok t \<longleftrightarrow> time_writable t \<and> 60 dvd tm_offset t"

lemma block_reads_back_from:
  assumes "block_writable b" and "block_plain (without_mono b)"
  shows "\<exists>data. block_marshal nil b = Inr data \<and> block_unmarshal data = Inr (without_mono b) \<and>
     block_decode data = Inr (without_mono b) \<and> block_marshal nil (without_mono b) = Inr data"
proof -
  have u: "block_unmarshal (json_print (enc_block nil b)) = Inr (without_mono b)"
    using block_codec.unmarshal_marshal [of "without_mono b" nil] assms by (simp add: block_unmarshal_def enc_without_mono)
  then have "block_decode (json_print (enc_block nil b)) = Inr (without_mono b)"
    unfolding block_unmarshal_def block_decode_def by (rule json_decode_unmarshal)
  with u show ?thesis using assms(1) by (simp add: block_marshal_def enc_without_mono)
qed

text \<open>The text that \<^verbatim>\<open>CalculateHash\<close> digests.\<close>

definition hash_record :: "(go_time \<Rightarrow> string) \<Rightarrow> block \<Rightarrow> string" where
  "hash_record time_string b = fmt_d (bl_index b) @ time_string (bl_timestamp b) @ bl_prev_hash b @ fmt_d (bl_nonce b)"

lemma calculate_hash_record: "calculate_hash time_string b = sha_hex [hash_record time_string b]"
  by (simp add: calculate_hash_def hash_record_def)

text \<open>Without the monotonic reading of its time the text of a block is another, whatever the zones are called.\<close>

lemma hash_record_without_mono:
  assumes "tm_mono (bl_timestamp b) \<noteq> None" and "CHR ''='' \<notin> set zone" and "CHR ''='' \<notin> set zone'"
  shows "hash_record (go_time_string zone') (without_mono b) \<noteq> hash_record (go_time_string zone) b"
proof
  assume "hash_record (go_time_string zone') (without_mono b) = hash_record (go_time_string zone) b"
  then have "count_list (hash_record (go_time_string zone') (without_mono b)) (CHR ''='') =
      count_list (hash_record (go_time_string zone) b) (CHR ''='')" by (rule arg_cong)
  then show False
    using assms(1) by (simp add: hash_record_def without_mono_def count_list_append count_time_string [OF assms(2)] count_time_string [OF assms(3)])
qed

text \<open>
  C9: What survives the wire. A block with an amount that is not finite, a year that does not fit four
  digits or an offset of a day or more, in its own time or in that of a transaction, is not written at
  all. Any other block that carries its own hash, whose texts are valid UTF-8, whose offsets are
  whole minutes and whose transactions have times without a monotonic reading, which is what
  decoding a transaction leaves, is written as a text that reads back, by \<^verbatim>\<open>Unmarshal\<close> and by the stream decoder of the handlers, as
  the block without the monotonic reading of its own time, bit by bit in the amounts, and is written
  again as the same text. The hash it carries is kept, but cannot be checked: it is the digest of a
  text with the time as the miner printed it, and when that time had a monotonic reading, as every
  \<^verbatim>\<open>time.Now\<close> has, the text that the reader would digest is a different one, whatever
  abbreviations, free of equals signs, the two nodes have for their zones.
\<close>

theorem block_reads_back:
  assumes "CHR ''='' \<notin> set zone" and "CHR ''='' \<notin> set zone'"
  shows "if block_writable b
     then block_plain (without_mono b) \<and> bl_hash b = calculate_hash (go_time_string zone) b \<longrightarrow>
       (\<exists>data b'. block_marshal nil b = Inr data \<and> block_unmarshal data = Inr b' \<and> block_decode data = Inr b' \<and>
         block_marshal nil b' = Inr data \<and> b' = b\<lparr>bl_timestamp := (bl_timestamp b)\<lparr>tm_mono := None\<rparr>\<rparr> \<and>
         bl_hash b' = sha_hex [hash_record (go_time_string zone) b] \<and>
         calculate_hash (go_time_string zone') b' = sha_hex [hash_record (go_time_string zone') b'] \<and>
         (tm_mono (bl_timestamp b) \<noteq> None \<longrightarrow> hash_record (go_time_string zone') b' \<noteq> hash_record (go_time_string zone) b))
     else \<exists>e. block_marshal nil b = Inl e"
proof (cases "block_writable b")
  case True
  show ?thesis unfolding if_P [OF True]
  proof (rule impI, elim conjE)
    assume plain: "block_plain (without_mono b)" and hash: "bl_hash b = calculate_hash (go_time_string zone) b"
    from block_reads_back_from [OF True plain, of nil] obtain data where
      "block_marshal nil b = Inr data" "block_unmarshal data = Inr (without_mono b)" "block_decode data = Inr (without_mono b)"
      "block_marshal nil (without_mono b) = Inr data" by blast
    moreover have "bl_hash (without_mono b) = sha_hex [hash_record (go_time_string zone) b]"
      using hash by (simp add: without_mono_def calculate_hash_record)
    moreover have "without_mono b = b\<lparr>bl_timestamp := (bl_timestamp b)\<lparr>tm_mono := None\<rparr>\<rparr>" by (simp add: without_mono_def)
    ultimately show "\<exists>data b'. block_marshal nil b = Inr data \<and> block_unmarshal data = Inr b' \<and> block_decode data = Inr b' \<and>
         block_marshal nil b' = Inr data \<and> b' = b\<lparr>bl_timestamp := (bl_timestamp b)\<lparr>tm_mono := None\<rparr>\<rparr> \<and>
         bl_hash b' = sha_hex [hash_record (go_time_string zone) b] \<and>
         calculate_hash (go_time_string zone') b' = sha_hex [hash_record (go_time_string zone') b'] \<and>
         (tm_mono (bl_timestamp b) \<noteq> None \<longrightarrow> hash_record (go_time_string zone') b' \<noteq> hash_record (go_time_string zone) b)"
      using hash_record_without_mono [OF _ assms] calculate_hash_record [of "go_time_string zone'" "without_mono b"]
      by (intro exI [of _ data] exI [of _ "without_mono b"] conjI impI)
  qed
next
  case False
  then show ?thesis by (simp add: block_marshal_def)
qed

lemma hex_valid: "hex_root s \<Longrightarrow> valid_text s"
  by (rule valid_text_ascii) (auto simp: hex_root_def ascii_def hex_chars_def)

lemma mined_block_plain:
  assumes "block_ok d n b" and "60 dvd tm_offset (bl_timestamp b)" and "\<forall>tx \<in> set (bl_transactions b). tx_plain tx"
  shows "block_plain (without_mono b)"
proof -
  have "valid_text genesis_prev_hash" by (rule valid_text_ascii) (simp add: genesis_prev_hash_def ascii_def)
  moreover have "valid_text (bl_hash b)"
    using assms(1) hex_root_sha_hex hex_valid by (auto simp: block_ok_def calculate_hash_def)
  moreover have "in_int64 1" by (simp add: in_int64_def int64_min_def int64_max_def)
  ultimately show ?thesis using assms by (simp add: block_plain_def without_mono_def block_ok_def time_plain_def)
qed

section \<open>A node that follows another\<close>

text \<open>Transactions as decoding leaves them, with an offset that can be written.\<close>

definition tx_carried :: "transaction \<Rightarrow> bool" where "tx_carried tx \<longleftrightarrow> tx_sound tx \<and> \<bar>tm_offset (tx_timestamp tx)\<bar> < 86400"

lemma mined_blocks_carried:
  assumes "loop_run (program_deps nil api ts) r evs r'" and "\<forall>tx \<in> set (waiting_txs r @ accepted_txs (program_deps nil api ts) evs). tx_carried tx"
    and "b \<in> set (mined_blocks evs)" and "clock_ok (bl_timestamp b)"
  shows "block_writable b" and "block_plain (without_mono b)" and "bl_transactions b \<noteq> []"
proof -
  let ?d = "program_deps nil api ts"
  note run = run_transactions [OF assms(1)]
  have txs: "set (concat (map bl_transactions (mined_blocks evs))) \<subseteq> set (waiting_txs r @ accepted_txs ?d evs)"
    using run by (metis set_append sup_ge1)
  have ok: "block_ok ?d (rt_difficulty r) b" using run assms(3) by blast
  have tx: "\<forall>tx \<in> set (bl_transactions b). tx_carried tx" using txs assms(2,3) by auto
  then show "block_writable b" using assms(4) sound_writable by (auto simp: block_writable_def clock_ok_def tx_carried_def)
  have "\<forall>tx \<in> set (bl_transactions b). tx_plain tx" using tx by (auto simp: tx_carried_def tx_sound_def)
  then show "block_plain (without_mono b)" using mined_block_plain [OF ok] assms(4) by (simp add: clock_ok_def)
  show "bl_transactions b \<noteq> []" using ok by (simp add: block_ok_def)
qed

lemma marshal_nonempty: "bl_transactions b \<noteq> [] \<Longrightarrow> block_marshal nil b = block_marshal nil' b"
  by (simp add: block_marshal_def enc_block_def enc_slice_def)

lemma no_got: "\<forall>b. GotBlock b \<notin> set evs \<Longrightarrow> applied_blocks evs = mined_blocks evs"
  by (induction evs) (auto simp: applied_blocks_def mined_blocks_def split: loop_event.splits)

lemma no_mined: "\<forall>b. Mined b \<notin> set evs \<Longrightarrow> applied_blocks evs = got_blocks evs"
  by (induction evs) (auto simp: applied_blocks_def got_blocks_def split: loop_event.splits)

lemma only_heard:
  "\<forall>meth body. HttpBlock meth body 202 \<notin> set evs \<Longrightarrow>
     received_blocks d host evs = concat (map (right_list \<circ> nd_unmarshal d) (heard host evs))"
  by (induction evs) (auto simp: received_blocks_def heard_def split: loop_event.splits)

lemma chain_run_same_api:
  "chain_run_of (program_deps nil api ts) = chain_run_of (program_deps nil' api ts')"
  by (intro ext) (simp add: chain_run_of_def)

text \<open>The text of a block that a miner of carried transactions has mined.\<close>

definition block_text :: "block \<Rightarrow> bytes" where "block_text b = json_print (enc_block False b)"

lemma carried_text:
  assumes "block_writable b" and "block_plain (without_mono b)" and "bl_transactions b \<noteq> []"
  shows "block_marshal nil b = Inr (block_text b)" and "block_marshal nil (without_mono b) = Inr (block_text b)"
    and "block_unmarshal (block_text b) = Inr (without_mono b)"
proof -
  from block_reads_back_from [OF assms(1,2), of False] have f: "block_marshal False b = Inr (block_text b)"
    "block_marshal False (without_mono b) = Inr (block_text b)" "block_unmarshal (block_text b) = Inr (without_mono b)"
    by (auto simp: block_marshal_def block_text_def enc_without_mono assms(1))
  have "bl_transactions (without_mono b) \<noteq> []" using assms(3) by (simp add: without_mono_def)
  with f assms(3) show "block_marshal nil b = Inr (block_text b)" "block_marshal nil (without_mono b) = Inr (block_text b)"
    "block_unmarshal (block_text b) = Inr (without_mono b)" by (metis marshal_nonempty)+
qed

lemma concat_right: "\<forall>x \<in> set xs. f x = Inr (g x) \<Longrightarrow> concat (map (right_list \<circ> f) xs) = map g xs"
  by (induction xs) (simp_all add: right_list_def)

lemma miner_outcome:
  assumes "loop_run (program_deps nil api ts) r evs r'" and "\<forall>b. GotBlock b \<notin> set evs"
    and "\<forall>tx \<in> set (waiting_txs r @ accepted_txs (program_deps nil api ts) evs). tx_carried tx"
    and "\<forall>b \<in> set (mined_blocks evs). clock_ok (bl_timestamp b)" and "p2p_topic (rt_p2p r)"
  shows "rt_chain r' = chain_run_of (program_deps nil api ts) (rt_chain r) (map block_text (mined_blocks evs)) \<and>
     published (rt_p2p r') = published (rt_p2p r) @ map block_text (mined_blocks evs)"
proof -
  let ?d = "program_deps nil api ts"
  have m: "block_marshal nil b = Inr (block_text b)" if "b \<in> set (mined_blocks evs)" for b
    using carried_text(1) [OF mined_blocks_carried [OF assms(1,3) that]] assms(4) that by blast
  then have "map (marshal_or_nil ?d) (mined_blocks evs) = map block_text (mined_blocks evs)"
    by (simp add: marshal_or_nil_def)
  moreover have "concat (map (right_list \<circ> nd_marshal ?d) (mined_blocks evs)) = map block_text (mined_blocks evs)"
    by (rule concat_right) (simp add: m)
  ultimately show ?thesis using run_blocks [OF assms(1)] no_got [OF assms(2)] assms(5) by metis
qed

lemma follower_outcome:
  assumes "loop_run (program_deps nil api ts) r evs r'" and "\<forall>b. Mined b \<notin> set evs" and "\<forall>meth body. HttpBlock meth body 202 \<notin> set evs"
    and "chan_buf (block_chan (rt_p2p r)) = []" and "heard (p2p_host (rt_p2p r)) evs = map block_text bs"
    and "\<forall>b \<in> set bs. block_writable b \<and> block_plain (without_mono b) \<and> bl_transactions b \<noteq> []"
  shows "\<exists>n. n + length (chan_buf (block_chan (rt_p2p r'))) = length bs \<and>
     rt_chain r' = chain_run_of (program_deps nil api ts) (rt_chain r) (map block_text (take n bs))"
proof -
  let ?d = "program_deps nil api ts"
  have text_of: "\<forall>b \<in> set bs. (block_unmarshal \<circ> block_text) b = Inr (without_mono b)" "\<forall>b \<in> set bs. marshal_or_nil ?d (without_mono b) = block_text b"
    using assms(6) carried_text(2,3) by (simp_all add: marshal_or_nil_def)
  have "received_blocks ?d (p2p_host (rt_p2p r)) evs = concat (map (right_list \<circ> (block_unmarshal \<circ> block_text)) bs)"
    by (simp add: only_heard [OF assms(3)] assms(5) comp_assoc)
  also have "\<dots> = map without_mono bs" by (rule concat_right [OF text_of(1)])
  finally have "got_blocks evs @ chan_buf (block_chan (rt_p2p r')) = map without_mono bs"
    using run_blocks [OF assms(1)] assms(4) by simp
  moreover define n where "n = length (got_blocks evs)"
  ultimately have got: "got_blocks evs = map without_mono (take n bs)" "n + length (chan_buf (block_chan (rt_p2p r'))) = length bs"
    by (metis append_eq_conv_conj take_map, metis length_append length_map)
  have "map (marshal_or_nil ?d) (map without_mono (take n bs)) = map block_text (take n bs)"
    using text_of(2) by (auto dest: in_set_takeD)
  then have "rt_chain r' = chain_run_of ?d (rt_chain r) (map block_text (take n bs))"
    using got(1) run_blocks [OF assms(1)] no_mined [OF assms(2)] by metis
  with got(2) show ?thesis by blast
qed

text \<open>
  C3: Two nodes with JSON and a network between them. One mines: it starts with carried transactions or
  none, takes more from its HTTP clients and applies no blocks but its own. The other does not
  mine and hears, in order, what the first has published, or a part of it so far. Then the second node's
  chain is the first's chain as it was some blocks ago, storage, stored bytes and root; when all texts
  have arrived and its channel is empty, it is the same chain. Of the transactions only the offset
  of their time has to be below a day, of the miner's clock that its times can be written.
\<close>

theorem mined_blocks_reach_followers:
  assumes "loop_run (program_deps nil api ts) miner evs miner'" and "\<forall>b. GotBlock b \<notin> set evs"
    and "\<forall>tx \<in> set (pending_txs miner @ chan_buf (tx_chan (rt_p2p miner))). tx_carried tx"
    and "\<forall>tx \<in> set (accepted_txs (program_deps nil api ts) evs). tx_carried tx"
    and "\<forall>b \<in> set (mined_blocks evs). clock_ok (bl_timestamp b)"
    and "p2p_topic (rt_p2p miner)" and "published (rt_p2p miner) = []"
    and "loop_run (program_deps nil' api ts') node evs' node'" and "\<forall>b. Mined b \<notin> set evs'"
    and "\<forall>meth body. HttpBlock meth body 202 \<notin> set evs'" and "chan_buf (block_chan (rt_p2p node)) = []"
    and "rt_chain node = rt_chain miner"
    and "heard (p2p_host (rt_p2p node)) evs' @ still_out = published (rt_p2p miner')"
  shows "\<exists>n \<le> length (published (rt_p2p miner')).
     rt_chain node' = run_commits (chain_apply api block_unmarshal) (rt_chain miner) (map (Pair ()) (take n (published (rt_p2p miner')))) \<and>
     rt_chain miner' = run_commits (chain_apply api block_unmarshal) (rt_chain node') (map (Pair ()) (drop n (published (rt_p2p miner')))) \<and>
     (chan_buf (block_chan (rt_p2p node')) = [] \<and> still_out = [] \<longrightarrow> rt_chain node' = rt_chain miner')"
proof -
  let ?d = "program_deps nil api ts" and ?bs = "mined_blocks evs"
  have txs: "\<forall>tx \<in> set (waiting_txs miner @ accepted_txs ?d evs). tx_carried tx" using assms(3,4) by (auto simp: waiting_txs_def)
  note out = miner_outcome [OF assms(1,2) txs assms(5,6), unfolded assms(7) append_Nil]
  have good: "\<forall>b \<in> set ?bs. block_writable b \<and> block_plain (without_mono b) \<and> bl_transactions b \<noteq> []"
    using mined_blocks_carried [OF assms(1) txs] assms(5) by blast
  define k where "k = length (heard (p2p_host (rt_p2p node)) evs')"
  have texts: "map block_text ?bs = heard (p2p_host (rt_p2p node)) evs' @ still_out" using assms(13) out by simp
  then have heard: "heard (p2p_host (rt_p2p node)) evs' = map block_text (take k ?bs)"
    unfolding take_map [symmetric] texts k_def by simp
  have "\<forall>b \<in> set (take k ?bs). block_writable b \<and> block_plain (without_mono b) \<and> bl_transactions b \<noteq> []"
    using good by (auto dest: in_set_takeD)
  from follower_outcome [OF assms(8-11) heard this] obtain n where
    n: "n + length (chan_buf (block_chan (rt_p2p node'))) = length (take k ?bs)"
    and chain: "rt_chain node' = chain_run_of (program_deps nil' api ts') (rt_chain node) (map block_text (take n (take k ?bs)))" by blast
  have k: "k + length still_out = length ?bs" using arg_cong [OF texts, of length] by (simp add: k_def)
  then have "take n (take k ?bs) = take n ?bs" "n \<le> length ?bs" using n by simp_all
  then have at_n: "rt_chain node' = chain_run_of ?d (rt_chain miner) (take n (published (rt_p2p miner')))"
    using chain out assms(12) unfolding chain_run_same_api [of nil' api ts' nil ts] by (simp add: take_map)
  moreover have rest: "rt_chain miner' = chain_run_of ?d (rt_chain node') (drop n (published (rt_p2p miner')))"
    unfolding at_n chain_run_of_simps(3) [symmetric] append_take_drop_id using out by simp
  moreover have "chan_buf (block_chan (rt_p2p node')) = [] \<and> still_out = [] \<longrightarrow> rt_chain node' = rt_chain miner'"
  proof
    assume "chan_buf (block_chan (rt_p2p node')) = [] \<and> still_out = []"
    then have "drop n (published (rt_p2p miner')) = []" using n k out by simp
    then show "rt_chain node' = rt_chain miner'" using rest by simp
  qed
  moreover have "n \<le> length (published (rt_p2p miner'))" using \<open>n \<le> length ?bs\<close> out by simp
  ultimately show ?thesis unfolding chain_run_of_def program_deps_sel by blast
qed

section \<open>One block is kept\<close>

lemma unmarshal_nothing: "\<exists>e. block_unmarshal [] = Inl e"
  by (simp add: block_unmarshal_def json_unmarshal_def json_parse_def)

lemma block_index_reads_back:
  assumes "block_marshal nil b = Inr data" and "block_unmarshal data = Inr b'" and "in_int64 (bl_index b)"
  shows "bl_index b' = bl_index b"
proof -
  have w: "block_writable b" and data: "data = json_print (enc_block nil b)"
    using assms(1) by (auto simp: block_marshal_def split: if_splits)
  have "height (enc_slice nil enc_tx (bl_transactions b)) \<le> 2"
    using height_enc_slice [of "bl_transactions b" enc_tx 1 nil] enc_tx_ok(2) by (simp add: numeral_2_eq_2)
  then have "height (enc_block nil b) \<le> max_nesting" by (simp add: enc_block_def max_nesting_def codec)
  moreover have "numbers_ok (enc_block nil b)" using w by (simp add: enc_block_def block_writable_def codec numbers_enc_slice enc_tx_ok)
  ultimately have "json_parse data = Some (sanitize_json (enc_block nil b))" unfolding data by (intro parse_print)
  with assms(2) have "dec_struct block_fields (sanitize_json (enc_block nil b)) block_zero = Some b'"
    by (simp add: block_unmarshal_def json_unmarshal_def split: option.splits)
  then show ?thesis using assms(3)
    by (auto simp: enc_block_def block_fields_def codec split: option.splits)
qed

lemma program_keeps_index: "codec_keeps_index (program_deps nil api ts)"
proof -
  have one: "in_int64 1" by (simp add: in_int64_def int64_min_def int64_max_def)
  have "bl_index b' = 1" if "bl_index b = 1" "block_marshal nil b = Inr data" "block_unmarshal data = Inr b'" for b data b'
    using block_index_reads_back [OF that(2,3)] one unfolding that(1) by blast
  moreover have "block_unmarshal [] \<noteq> Inr b" for b using unmarshal_nothing by (metis sum.distinct(1))
  ultimately show ?thesis unfolding codec_keeps_index_def program_deps_sel by blast
qed

text \<open>
  A node of the program on the in-memory storage that applies no block but its own keeps a single
  block, however many it mines: all of them have the index 1, and each replaces the one before.
\<close>

theorem miner_keeps_one_block:
  assumes "loop_run (program_deps nil memory_api ts) r evs r'" and "dom (mem_data (chain_storage (rt_chain r))) \<subseteq> {block_key 1}"
    and "\<forall>b. GotBlock b \<notin> set evs"
  shows "dom (mem_data (chain_storage (rt_chain r'))) \<subseteq> {block_key 1}"
  by (rule mining_overwrites_stored_block [OF assms(1) program_keeps_index _ assms(2,3)]) simp

section \<open>A transaction that loses a block\<close>

lemma seal_unwritable:
  assumes "\<not> block_writable b"
  shows "rt_chain (seal_block (program_deps nil api ts) b r) = rt_chain r" and "rt_p2p (seal_block (program_deps nil api ts) b r) = rt_p2p r"
    and "pending_txs (seal_block (program_deps nil api ts) b r) = []" and "blocks_mined (seal_block (program_deps nil api ts) b r) = blocks_mined r + 1"
  using unmarshal_nothing assms
  by (auto simp: marshal_or_nil_def block_marshal_def chain_apply_def broadcast_block_def seal_block_def apply_block_def Let_def)

text \<open>
  C39: One client can make the transactions of all others vanish. The decoder of the handler accepts a
  time with an offset of a day or more, the encoder refuses it. When the loop mines while such a
  transaction is pending, the block takes all pending transactions with it and is counted as mined,
  but its text is never made: the error is dropped, the chain stays as it was, nothing is
  published, and the pending list is cleared.
\<close>

theorem one_offset_loses_the_block:
  assumes "loop_step (program_deps nil api ts) r (Mined b) r'" and "tx \<in> set (pending_txs r)" and "86400 \<le> \<bar>tm_offset (tx_timestamp tx)\<bar>"
  shows "bl_transactions b = pending_txs r \<and> blocks_mined r' = blocks_mined r + 1 \<and> pending_txs r' = [] \<and>
     rt_chain r' = rt_chain r \<and> published (rt_p2p r') = published (rt_p2p r)"
proof -
  from assms(1) have r': "bl_transactions b = pending_txs r" "r' = seal_block (program_deps nil api ts) b r"
    by (cases rule: loop_step.cases, auto dest: mine_block_result simp: candidate_block_def)+
  have "\<not> tx_writable tx" using assms(3) by (simp add: tx_writable_def time_writable_def)
  then have "\<not> block_writable b" using assms(2) r'(1) by (auto simp: block_writable_def)
  from seal_unwritable [OF this, of nil api ts r, folded r'(2)] show ?thesis using r'(1) by simp
qed

text \<open>A text with such a transaction: the second of January 1970 at midnight, 24 hours ahead of UTC.\<close>

definition poison_text :: bytes where
  "poison_text = json_print (JObj [(''timestamp'', jstr (zoned_text 86400 0))])"

definition poison_tx :: transaction where
  "poison_tx = tx_zero\<lparr>tx_timestamp := \<lparr>tm_instant = 0, tm_offset = 86400, tm_mono = None\<rparr>\<rparr>"

lemma poison_decodes: "tx_decode poison_text = Inr poison_tx"
proof -
  have t: "parse_zoned (zoned_text 86400 0) = Some (0, 86400)"
    by (rule parse_zoned_text) (simp_all add: year_in_range_0 whole_minutes_def)
  have a: "ascii ''timestamp''" by (simp add: ascii_def)
  have "json_parse poison_text = Some (JObj [(''timestamp'', jstr (zoned_text 86400 0))])"
    unfolding poison_text_def by (subst parse_print) (simp_all add: max_nesting_def a)
  from json_first_parse [OF this] show ?thesis
    by (simp add: tx_decode_def json_decode_def tx_fields_def dec_struct_def find_field_def field_def dec_go_time_def t poison_tx_def)
qed

section \<open>Sample nodes\<close>

lemma sample_tx_carried: "tx_carried sample_tx"
proof -
  have "valid_text (tx_id sample_tx) \<and> valid_text (tx_sender sample_tx) \<and> valid_text (tx_recipient sample_tx)"
    by (auto simp: sample_tx_def ascii_def intro!: valid_text_ascii)
  moreover have "float_finite (tx_amount sample_tx)" using zero_sound(2) by (simp add: tx_sound_def tx_zero_def sample_tx_def)
  moreover have "time_sound (tx_timestamp sample_tx)"
    by (simp add: time_sound_def time_plain_def sample_tx_def sample_time_def year_in_range_0)
  ultimately show ?thesis
    by (simp add: tx_carried_def tx_sound_def tx_plain_def time_sound_plain) (simp add: sample_tx_def sample_time_def)
qed

lemma sample_clock: "clock_ok sample_time"
  by (simp add: clock_ok_def time_writable_def sample_time_def year_in_range_0)

lemma program_mining:
  assumes "loop_alive r" and "pending_txs r \<noteq> []" and "rt_difficulty r = 0"
  obtains b where "loop_step (program_deps nil api ts) r (Mined b) (seal_block (program_deps nil api ts) b r)"
    and "b = (candidate_block sample_time r)\<lparr>bl_hash := calculate_hash ts (candidate_block sample_time r)\<rparr>"
proof -
  let ?b = "candidate_block sample_time r"
  let ?b' = "?b\<lparr>bl_hash := calculate_hash ts ?b\<rparr>"
  have "mine_loop ts (NewError []) (\<lambda>_. False) [] 0 ?b = Some (?b', None)"
    by (subst mine_loop.simps) (simp add: has_prefix_def Let_def)
  then have "mine_block ts (NewError []) (\<lambda>_. False) (rt_difficulty r) ?b = Return (Some (?b', None))"
    using assms(3) by (simp add: mine_block_def pow_target_def)
  then show ?thesis using assms(1,2) by (intro that loop_step.mined) simp_all
qed

text \<open>A miner on the network with one transaction, and a node beside it that listens.\<close>

definition sample_miner :: "memory_storage runtime" where
  "sample_miner = sample_runtime\<lparr>rt_p2p := (new_p2p_node 8080 [])\<lparr>p2p_topic := True\<rparr>\<rparr>"

definition sample_follower :: "memory_storage runtime" where
  "sample_follower = sample_runtime\<lparr>rt_p2p := (new_p2p_node 8081 [])\<lparr>p2p_topic := True, listeners := 1\<rparr>, pending_txs := []\<rparr>"

abbreviation sample_program :: "memory_storage runtime_deps" where
  "sample_program \<equiv> program_deps False memory_api (\<lambda>_. [])"

lemma sample_nodes [simp]:
  "loop_alive sample_miner" "pending_txs sample_miner = [sample_tx]" "rt_difficulty sample_miner = 0"
  "rt_p2p sample_miner = (new_p2p_node 8080 [])\<lparr>p2p_topic := True\<rparr>" "loop_alive sample_follower"
  "rt_p2p sample_follower = (new_p2p_node 8081 [])\<lparr>p2p_topic := True, listeners := 1\<rparr>"
  "rt_chain sample_follower = rt_chain sample_miner"
  by (simp_all add: sample_miner_def sample_follower_def sample_runtime_def)

lemma sample_mined:
  obtains b miner' where "loop_step sample_program sample_miner (Mined b) miner'" "clock_ok (bl_timestamp b)" "mined_blocks [Mined b] = [b]"
proof -
  have "pending_txs sample_miner \<noteq> []" by simp
  from program_mining [OF sample_nodes(1) this sample_nodes(3)] obtain b where
    b: "loop_step sample_program sample_miner (Mined b) (seal_block sample_program b sample_miner)"
    "b = (candidate_block sample_time sample_miner)\<lparr>bl_hash := calculate_hash (\<lambda>_. []) (candidate_block sample_time sample_miner)\<rparr>" by metis
  have "bl_timestamp b = sample_time" unfolding b(2) by (simp add: candidate_block_def)
  then have "clock_ok (bl_timestamp b)" by (simp add: sample_clock)
  then show ?thesis by (rule that [OF b(1)]) (simp add: mined_blocks_def)
qed

lemma sample_followed:
  assumes "block_unmarshal m = Inr b"
  obtains node' where "loop_run sample_program sample_follower [Gossip ''peer'' m, GotBlock b] node'"
    "chan_buf (block_chan (rt_p2p node')) = []"
proof -
  let ?p = "rt_p2p sample_follower"
  have l: "listen_gossip block_unmarshal ?p ''peer'' m = Some (?p\<lparr>block_chan := (block_chan ?p)\<lparr>chan_buf := [b]\<rparr>\<rparr>)"
    by (simp add: listen_gossip_def assms new_p2p_node_def send_def make_chan_def)
  let ?r = "sample_follower\<lparr>rt_p2p := ?p\<lparr>block_chan := (block_chan ?p)\<lparr>chan_buf := [b]\<rparr>\<rparr>\<rparr>"
  have g: "loop_step sample_program sample_follower (Gossip ''peer'' m) ?r"
    by (rule loop_step.gossip) (simp_all only: l program_deps_sel, simp)
  let ?r' = "apply_block sample_program b (?r\<lparr>rt_p2p := (rt_p2p ?r)\<lparr>block_chan := (block_chan ?p)\<lparr>chan_buf := []\<rparr>\<rparr>\<rparr>)"
  have t: "loop_step sample_program ?r (GotBlock b) ?r'" by (rule loop_step.got_block) (simp_all add: recv_def)
  show ?thesis by (rule that [of ?r']) (use g t in \<open>auto simp: loop_run_Cons apply_block_def\<close>)
qed

theorem mined_blocks_reach_followers_witness:
  "\<exists>b b' miner' node'. loop_run sample_program sample_miner [Mined b] miner' \<and>
     loop_run sample_program sample_follower [Gossip ''peer'' (block_text b), GotBlock b'] node' \<and> rt_chain node' = rt_chain miner'"
proof -
  obtain b miner' where b: "loop_step sample_program sample_miner (Mined b) miner'" "clock_ok (bl_timestamp b)" "mined_blocks [Mined b] = [b]"
    by (rule sample_mined)
  then have run: "loop_run sample_program sample_miner [Mined b] miner'" by (simp add: loop_run_Cons)
  have txs: "\<forall>tx \<in> set (pending_txs sample_miner @ chan_buf (tx_chan (rt_p2p sample_miner))). tx_carried tx"
    "\<forall>tx \<in> set (accepted_txs sample_program [Mined b]). tx_carried tx"
    by (simp_all add: sample_tx_carried new_p2p_node_def make_chan_def accepted_txs_def)
  have carried: "\<forall>tx \<in> set (waiting_txs sample_miner @ accepted_txs sample_program [Mined b]). tx_carried tx"
    using txs by (auto simp: waiting_txs_def)
  have good: "block_writable b" "block_plain (without_mono b)" "bl_transactions b \<noteq> []"
    using mined_blocks_carried [OF run carried _ b(2)] b(3) by auto
  note texts = carried_text [OF good]
  obtain node' where follow: "loop_run sample_program sample_follower [Gossip ''peer'' (block_text b), GotBlock (without_mono b)] node'"
    "chan_buf (block_chan (rt_p2p node')) = []" by (rule sample_followed [OF texts(3)])
  have out: "published (rt_p2p miner') = [block_text b]"
    using miner_outcome [OF run _ carried] b(2,3) by (simp add: new_p2p_node_def)
  have "\<exists>n \<le> length (published (rt_p2p miner')).
     rt_chain node' = run_commits (chain_apply memory_api block_unmarshal) (rt_chain sample_miner) (map (Pair ()) (take n (published (rt_p2p miner')))) \<and>
     rt_chain miner' = run_commits (chain_apply memory_api block_unmarshal) (rt_chain node') (map (Pair ()) (drop n (published (rt_p2p miner')))) \<and>
     (chan_buf (block_chan (rt_p2p node')) = [] \<and> [] = ([] :: bytes list) \<longrightarrow> rt_chain node' = rt_chain miner')"
    by (rule mined_blocks_reach_followers [OF run _ txs _ _ _ follow(1)])
       (use b(2,3) out in \<open>simp_all add: new_p2p_node_def make_chan_def heard_def\<close>)
  then have "rt_chain node' = rt_chain miner'" using follow(2) by blast
  with run follow(1) show ?thesis by blast
qed

theorem block_reads_back_witness:
  "\<exists>b b' data. block_marshal True b = Inr data \<and> block_unmarshal data = Inr b' \<and> bl_index b = 1 \<and>
     tm_mono (bl_timestamp b) = Some 7 \<and> bl_hash b = calculate_hash (go_time_string ''UTC'') b \<and>
     hash_record (go_time_string ''UTC'') b' \<noteq> hash_record (go_time_string ''UTC'') b"
proof -
  define c where "c = \<lparr>bl_index = 1, bl_timestamp = sample_time\<lparr>tm_mono := Some 7\<rparr>, bl_transactions = [],
     bl_prev_hash = [], bl_hash = [], bl_nonce = 3\<rparr>"
  define b where "b = c\<lparr>bl_hash := calculate_hash (go_time_string ''UTC'') c\<rparr>"
  have h: "bl_hash b = calculate_hash (go_time_string ''UTC'') b" by (simp add: b_def c_def calculate_hash_def)
  have "valid_text (bl_hash b)" using hex_root_sha_hex hex_valid by (simp add: h calculate_hash_def)
  moreover have "valid_text []" by (rule valid_text_ascii) (simp add: ascii_def)
  ultimately have ok: "block_writable b" "block_plain (without_mono b)"
    by (simp_all add: b_def c_def block_writable_def time_writable_def sample_time_def year_in_range_0 block_plain_def
        without_mono_def time_plain_def in_int64_def int64_min_def int64_max_def)
  have b: "bl_index b = 1" "tm_mono (bl_timestamp b) = Some 7" by (simp_all add: b_def c_def)
  have z: "CHR ''='' \<notin> set ''UTC''" by simp
  from block_reads_back [OF z z, of b True, unfolded if_P [OF ok(1)], rule_format, OF conjI, OF ok(2) h] obtain data b' where
    "block_marshal True b = Inr data" "block_unmarshal data = Inr b'"
    "tm_mono (bl_timestamp b) \<noteq> None \<longrightarrow> hash_record (go_time_string ''UTC'') b' \<noteq> hash_record (go_time_string ''UTC'') b"
    by (elim exE conjE) (rule that)
  then show ?thesis using b h by (intro exI [of _ b] exI [of _ b'] exI [of _ data]) simp
qed

theorem miner_keeps_one_block_witness:
  "\<exists>b miner'. loop_run sample_program sample_miner [Mined b] miner' \<and> dom (mem_data (chain_storage (rt_chain miner'))) \<subseteq> {block_key 1}"
proof -
  obtain b miner' where "loop_step sample_program sample_miner (Mined b) miner'" by (rule sample_mined)
  then have run: "loop_run sample_program sample_miner [Mined b] miner'" by (simp add: loop_run_Cons)
  have "dom (mem_data (chain_storage (rt_chain sample_miner))) \<subseteq> {block_key 1}" "\<forall>b'. GotBlock b' \<notin> set [Mined b]"
    by (simp_all add: sample_miner_def sample_runtime_def new_chain_state_def new_memory_storage_def)
  from miner_keeps_one_block [OF run this] run show ?thesis by blast
qed

text \<open>The transaction of another client is lost with the block.\<close>

theorem one_offset_loses_the_block_witness:
  "\<exists>b r'. loop_run sample_program sample_miner [HttpTx ''POST'' poison_text 202, GotTx poison_tx, Mined b] r' \<and>
     bl_transactions b = [sample_tx, poison_tx] \<and> blocks_mined r' = 1 \<and> pending_txs r' = [] \<and> published (rt_p2p r') = [] \<and>
     rt_chain r' = rt_chain sample_miner"
proof -
  let ?p = "rt_p2p sample_miner"
  let ?p1 = "?p\<lparr>txs_processed := 1, tx_chan := (tx_chan ?p)\<lparr>chan_buf := [poison_tx]\<rparr>\<rparr>"
  let ?r1 = "sample_miner\<lparr>rt_p2p := ?p1\<rparr>"
  have "handle_tx tx_decode ?p ''POST'' poison_text = (?p1, Reply 202 [])"
    by (simp add: handle_tx_def poison_decodes new_p2p_node_def send_def make_chan_def)
  then have s1: "loop_step sample_program sample_miner (HttpTx ''POST'' poison_text 202) ?r1" by (intro loop_step.http_tx) simp
  let ?r2 = "?r1\<lparr>rt_p2p := (rt_p2p ?r1)\<lparr>tx_chan := (tx_chan ?p)\<lparr>chan_buf := []\<rparr>\<rparr>, pending_txs := [sample_tx, poison_tx]\<rparr>"
  have "loop_step sample_program ?r1 (GotTx poison_tx)
      (?r1\<lparr>rt_p2p := (rt_p2p ?r1)\<lparr>tx_chan := (tx_chan ?p)\<lparr>chan_buf := []\<rparr>\<rparr>, pending_txs := pending_txs ?r1 @ [poison_tx]\<rparr>)"
    by (rule loop_step.got_tx) (simp_all add: recv_def)
  then have s2: "loop_step sample_program ?r1 (GotTx poison_tx) ?r2" by simp
  obtain b where s3: "loop_step sample_program ?r2 (Mined b) (seal_block sample_program b ?r2)"
    by (rule program_mining [of ?r2 False memory_api "\<lambda>_. []"]) simp_all
  have "poison_tx \<in> set (pending_txs ?r2)" "86400 \<le> \<bar>tm_offset (tx_timestamp poison_tx)\<bar>" by (simp_all add: poison_tx_def)
  from one_offset_loses_the_block [OF s3 this]
  have "bl_transactions b = [sample_tx, poison_tx] \<and> blocks_mined (seal_block sample_program b ?r2) = 1 \<and> pending_txs (seal_block sample_program b ?r2) = [] \<and>
     published (rt_p2p (seal_block sample_program b ?r2)) = [] \<and> rt_chain (seal_block sample_program b ?r2) = rt_chain sample_miner"
    by (simp add: sample_miner_def sample_runtime_def new_p2p_node_def)
  moreover have "loop_run sample_program sample_miner [HttpTx ''POST'' poison_text 202, GotTx poison_tx, Mined b] (seal_block sample_program b ?r2)"
    using s1 s2 s3 by (intro loop_run.run_cons [OF s1] loop_run.run_cons [OF s2] loop_run.run_cons [OF s3] loop_run.run_nil)
  ultimately show ?thesis by blast
qed

end
