(* ===== verification/FloatArith.thy ===== *)
theory FloatArith
  imports GoFloat
begin

text \<open>
  Arithmetic of \<^verbatim>\<open>float64\<close> on magnitudes that are not negative: the exact result is rounded to the
  nearest magnitude, and what lies beyond the last is infinity. Rounding is monotone, which gives
  bounds of results without computing them.
\<close>

section \<open>Operations\<close>

definition inf_mag :: nat where "inf_mag = 2047 * 2 ^ 52"

definition round_mag :: "nat \<Rightarrow> nat \<Rightarrow> nat" where "round_mag num den = min (nearest num den) inf_mag"

text \<open>
  Sums and products of finite numbers, and quotients other than \<open>0 / 0\<close> and \<open>Inf / Inf\<close>. A compiler may
  fuse a product and the sum it is used in, which then is rounded once.
\<close>

definition float_add :: "nat \<Rightarrow> nat \<Rightarrow> nat" where "float_add a b = round_mag (units a + units b) unit_den"

definition float_mul :: "nat \<Rightarrow> nat \<Rightarrow> nat" where "float_mul a b = round_mag (units a * units b) (unit_den * unit_den)"

definition float_mul_add :: "bool \<Rightarrow> nat \<Rightarrow> nat \<Rightarrow> nat \<Rightarrow> nat" where
  "float_mul_add fused a b c =
     (if fused then round_mag (units a * units b + units c * unit_den) (unit_den * unit_den) else float_add (float_mul a b) c)"

definition float_div :: "nat \<Rightarrow> nat \<Rightarrow> nat" where
  "float_div a b =
     (if \<not> mag_finite a \<or> b = 0 then inf_mag else if \<not> mag_finite b then 0 else round_mag (units a) (units b))"

definition float_of_nat :: "nat \<Rightarrow> nat" where "float_of_nat n = round_mag n 1"

definition pos_float :: "nat \<Rightarrow> 64 word" where "pos_float k = of_nat k"

section \<open>Rounding is monotone\<close>

lemma units_step: "units k \<le> units (Suc k)"
proof -
  consider "Suc k < 2 ^ 53" | "Suc k = 2 ^ 53" | "2 ^ 53 \<le> k" by linarith
  then show ?thesis
  proof cases
    case 1
    then show ?thesis by (simp add: units_def)
  next
    case 2
    have "units (Suc k) = 2 ^ 53" unfolding 2 by (simp add: units_def)
    then show ?thesis using 2 by (simp add: units_def)
  next
    case 3
    define q r where "q = k div 2 ^ 52" and "r = k mod 2 ^ 52"
    have qr: "k = q * 2 ^ 52 + r" "r < 2 ^ 52" by (simp_all add: q_def r_def)
    have q: "2 \<le> q" using div_le_mono [OF 3, of "2 ^ 52"] by (simp add: q_def)
    have u: "units k = (2 ^ 52 + r) * 2 ^ (q - 1)" using 3 by (simp add: units_def q_def r_def)
    show ?thesis
    proof (cases "Suc r < 2 ^ 52")
      case True
      then have "Suc k div 2 ^ 52 = q" "Suc k mod 2 ^ 52 = Suc r" using qr(1) by simp_all
      then have "units (Suc k) = (2 ^ 52 + Suc r) * 2 ^ (q - 1)" using 3 by (simp add: units_def)
      then show ?thesis unfolding u by simp
    next
      case False
      then have r: "Suc r = 2 ^ 52" using qr(2) by simp
      then have "Suc k = Suc q * 2 ^ 52" using qr(1) by simp
      then have "Suc k div 2 ^ 52 = Suc q" "Suc k mod 2 ^ 52 = 0" by simp_all
      then have "units (Suc k) = 2 ^ 52 * 2 ^ q" using 3 by (simp add: units_def)
      moreover have "q = Suc (q - 1)" using q by simp
      then have "(2 :: nat) ^ q = 2 * 2 ^ (q - 1)" by (metis power_Suc)
      moreover have "2 ^ 52 + r \<le> 2 ^ 53" using qr(2) by simp
      ultimately show ?thesis unfolding u using mult_right_mono [of "2 ^ 52 + r" "2 ^ 53" "2 ^ (q - 1)"] by simp
    qed
  qed
qed

lemma units_mono: "k \<le> l \<Longrightarrow> units k \<le> units l"
  using lift_Suc_mono_le [of units] units_step by blast

lemma round_div_facts:
  assumes "0 < b"
  shows "2 * round_div a b * b \<le> 2 * a + b" and "2 * a \<le> 2 * round_div a b * b + b"
    and "2 * a = 2 * round_div a b * b + b \<or> 2 * a + b = 2 * round_div a b * b \<Longrightarrow> even (round_div a b)"
proof -
  define q r where "q = a div b" and "r = a mod b"
  have a: "a = q * b + r" and r: "r < b" using assms by (simp_all add: q_def r_def)
  have d: "round_div a b = (if b < 2 * r \<or> (b = 2 * r \<and> odd q) then q + 1 else q)" by (simp add: round_div_def q_def r_def Let_def)
  show "2 * round_div a b * b \<le> 2 * a + b" "2 * a \<le> 2 * round_div a b * b + b" unfolding d using a r by (auto simp: algebra_simps)
  assume tie: "2 * a = 2 * round_div a b * b + b \<or> 2 * a + b = 2 * round_div a b * b"
  show "even (round_div a b)"
  proof (cases "b < 2 * r \<or> (b = 2 * r \<and> odd q)")
    case True
    then have n: "round_div a b = q + 1" using d by simp
    have "b = 2 * r" using tie a r assms unfolding n by (auto simp: algebra_simps)
    with True n show ?thesis by simp
  next
    case False
    then have n: "round_div a b = q" using d by simp
    have "b = 2 * r" using tie a r assms unfolding n by (auto simp: algebra_simps)
    with False n show ?thesis by simp
  qed
qed

lemma round_div_mono:
  assumes "0 < b" and "0 < b'" and "a * b' \<le> a' * b"
  shows "round_div a b \<le> round_div a' b'"
proof (rule ccontr)
  let ?n = "round_div a b" and ?m = "round_div a' b'"
  assume "\<not> ?n \<le> ?m"
  then have nm: "?m + 1 \<le> ?n" by simp
  note n = round_div_facts [OF assms(1), of a] and m = round_div_facts [OF assms(2), of a']
  have "2 * (?m + 1) * b \<le> 2 * ?n * b" using nm by (intro mult_right_mono) simp_all
  then have lo: "(2 * ?m + 1) * b \<le> 2 * a" using n(1) by (simp add: algebra_simps)
  have hi: "2 * a' \<le> (2 * ?m + 1) * b'" using m(2) by (simp add: algebra_simps)
  have "(2 * ?m + 1) * b * b' \<le> 2 * a * b'" using lo by simp
  moreover have "2 * a * b' \<le> 2 * a' * b" using assms(3) by simp
  moreover have "2 * a' * b \<le> (2 * ?m + 1) * b' * b" using hi by simp
  moreover have "(2 * ?m + 1) * b' * b = (2 * ?m + 1) * b * b'" by (simp only: ac_simps)
  ultimately have "2 * a * b' = (2 * ?m + 1) * b * b'" "2 * a' * b = (2 * ?m + 1) * b' * b" by linarith+
  then have e: "2 * a = (2 * ?m + 1) * b" "2 * a' = (2 * ?m + 1) * b'" using assms(1,2) by simp_all
  have "?m + 1 = ?n"
  proof (rule ccontr)
    assume "?m + 1 \<noteq> ?n"
    then have "2 * (?m + 2) * b \<le> 2 * ?n * b" using nm by (intro mult_right_mono) simp_all
    then show False using n(1) e(1) assms(1) by (simp add: algebra_simps)
  qed
  then have "2 * a + b = 2 * ?n * b" using e(1) by (simp add: algebra_simps flip: \<open>?m + 1 = ?n\<close>)
  then have "even ?n" using n(3) by blast
  moreover have "even ?m" using m(3) e(2) by (simp add: algebra_simps)
  ultimately show False using \<open>?m + 1 = ?n\<close> by (metis even_plus_one_iff)
qed

lemma bit_length_upper: "m < 2 ^ bit_length m"
proof (induction m rule: bit_length.induct)
  case (1 n)
  show ?case
  proof (cases "n = 0")
    case False
    then have "n div 2 < 2 ^ bit_length (n div 2)" using 1 by blast
    moreover have "bit_length n = Suc (bit_length (n div 2))" using False by (simp add: bit_length.simps [of n])
    ultimately show ?thesis by simp
  qed simp
qed

lemma bit_length_lower: "0 < bit_length m \<Longrightarrow> 2 ^ (bit_length m - 1) \<le> m"
  using bit_length_small [of m "bit_length m - 1"] by (meson not_less diff_less zero_less_one leD)

lemma bit_length_mono: "m \<le> n \<Longrightarrow> bit_length m \<le> bit_length n"
  using bit_length_small [of m "bit_length n"] bit_length_upper [of n] by linarith

lemma div_mono_cross:
  assumes "0 < d" and "0 < d'" and "a * d' \<le> a' * d"
  shows "a div d \<le> a' div (d' :: nat)"
proof -
  have "a div d * d' * d \<le> a * d'" using mult_right_mono [OF div_times_less_eq_dividend [of a d], of d'] by (simp add: ac_simps)
  then have "a div d * d' * d \<le> a' * d" using assms(3) by linarith
  then have "a div d * d' \<le> a'" using assms(1) by simp
  then show ?thesis using assms(2) by (simp add: less_eq_div_iff_mult_less_eq)
qed

lemma round_div_le: "0 < b \<Longrightarrow> a \<le> m * b \<Longrightarrow> round_div a b \<le> m"
  using round_div_mono [of b b a "m * b"] by (simp add: round_div_exact)

lemma round_div_ge: "0 < b \<Longrightarrow> m * b \<le> a \<Longrightarrow> m \<le> round_div a b"
  using round_div_mono [of b b "m * b" a] by (simp add: round_div_exact)

lemma scale_split: "p * (den * c) = p * c * (den :: nat)"
  by simp

lemma nearest_parts:
  assumes "0 < den"
  shows "\<exists>s q. s = bit_length (num * unit_den div den) - 53 \<and> nearest num den = s * 2 ^ 52 + q \<and>
     q = round_div (num * unit_den) (den * 2 ^ s) \<and> q \<le> 2 ^ 53 \<and> (0 < s \<longrightarrow> 2 ^ 52 \<le> q)"
proof -
  let ?a = "num * unit_den"
  let ?l = "bit_length (?a div den)"
  define s where "s = ?l - 53"
  have pos: "0 < den * 2 ^ s" using assms by simp
  have l: "?l \<le> 53 + s" by (simp add: s_def)
  have "?a div den < 2 ^ ?l" by (rule bit_length_upper)
  also have "\<dots> \<le> 2 ^ (53 + s)" using l by (intro power_increasing) simp_all
  finally have "?a < 2 ^ (53 + s) * den" using assms by (simp add: div_less_iff_less_mult)
  then have up: "round_div ?a (den * 2 ^ s) \<le> 2 ^ 53" by (intro round_div_le [OF pos]) (simp only: scale_split power_add [symmetric] less_imp_le)
  have low: "2 ^ 52 \<le> round_div ?a (den * 2 ^ s)" if "0 < s"
  proof (rule round_div_ge [OF pos])
    have "?l = Suc (52 + s)" using that by (simp add: s_def)
    then have "2 ^ (52 + s) \<le> ?a div den" using bit_length_lower [of "?a div den"] by simp
    then have "2 ^ (52 + s) * den \<le> ?a" using assms by (simp add: less_eq_div_iff_mult_less_eq)
    then show "2 ^ 52 * (den * 2 ^ s) \<le> ?a" by (simp only: scale_split power_add [symmetric])
  qed
  have "nearest num den = s * 2 ^ 52 + round_div ?a (den * 2 ^ s)" unfolding nearest_def Let_def s_def ..
  then show ?thesis using up low s_def
    by (intro exI [of _ s] exI [of _ "round_div ?a (den * 2 ^ s)"] conjI impI refl)
qed

lemma nearest_mono:
  assumes "0 < den" and "0 < den'" and "num * den' \<le> num' * den"
  shows "nearest num den \<le> nearest num' den'"
proof -
  from nearest_parts [OF assms(1), of num] obtain s q where
    n: "s = bit_length (num * unit_den div den) - 53" "nearest num den = s * 2 ^ 52 + q" "q = round_div (num * unit_den) (den * 2 ^ s)" "q \<le> 2 ^ 53" by (elim exE conjE)
  from nearest_parts [OF assms(2), of num'] obtain s' q' where
    n': "s' = bit_length (num' * unit_den div den') - 53" "nearest num' den' = s' * 2 ^ 52 + q'" "q' = round_div (num' * unit_den) (den' * 2 ^ s')"
    "0 < s' \<longrightarrow> 2 ^ 52 \<le> q'" by (elim exE conjE)
  have x: "num * unit_den * den' \<le> num' * unit_den * den" using mult_right_mono [OF assms(3), of unit_den] by (simp add: ac_simps)
  have "s \<le> s'" unfolding n(1) n'(1) by (rule diff_le_mono [OF bit_length_mono [OF div_mono_cross [OF assms(1,2) x]]])
  show ?thesis
  proof (cases "s = s'")
    case True
    have "num * unit_den * (den' * 2 ^ s) \<le> num' * unit_den * (den * 2 ^ s)"
      using mult_right_mono [OF x, of "2 ^ s"] by (simp add: ac_simps)
    then have "q \<le> q'" unfolding n(3) n'(3) True [symmetric] using assms(1,2) by (intro round_div_mono) simp_all
    then show ?thesis unfolding n(2) n'(2) True by simp
  next
    case False
    then have s: "s + 1 \<le> s'" using \<open>s \<le> s'\<close> by simp
    then have "2 ^ 52 \<le> q'" using n'(4) by simp
    moreover have "(s + 1) * 2 ^ 52 \<le> s' * 2 ^ 52" using s by (rule mult_right_mono) simp
    ultimately show ?thesis unfolding n(2) n'(2) using n(4) by simp
  qed
qed

lemma nearest_exact: "nearest (units k) unit_den = k"
  by (rule nearest_units [OF unit_den_pos refl])

lemma nearest_le: "0 < den \<Longrightarrow> num * unit_den \<le> units k * den \<Longrightarrow> nearest num den \<le> k"
  using nearest_mono [of den unit_den num "units k"] unit_den_pos by (simp add: nearest_exact)

lemma nearest_ge: "0 < den \<Longrightarrow> units k * den \<le> num * unit_den \<Longrightarrow> k \<le> nearest num den"
  using nearest_mono [of unit_den den "units k" num] unit_den_pos by (simp add: nearest_exact)

section \<open>Bounds by powers of two\<close>

text \<open>The magnitude of \<open>2 ^ (n - 1022)\<close>; \<open>one_mag\<close> is that of 1.\<close>

definition two_mag :: "nat \<Rightarrow> nat" where "two_mag n = (n + 1) * 2 ^ 52"

abbreviation one_mag :: nat where "one_mag \<equiv> two_mag 1022"

lemma units_two: "units (two_mag n) = 2 ^ (52 + n)"
proof (cases n)
  case 0
  then show ?thesis by (simp add: units_def two_mag_def)
next
  case (Suc m)
  have k: "two_mag n = (m + 2) * 2 ^ 52" by (simp add: two_mag_def Suc)
  have "\<not> two_mag n < 2 ^ 53" unfolding k by simp
  moreover have "two_mag n mod 2 ^ 52 = 0" "two_mag n div 2 ^ 52 - 1 = n" unfolding k by (simp_all add: Suc)
  ultimately have "units (two_mag n) = (2 ^ 52 + 0) * 2 ^ n" by (simp only: units_def if_False)
  then show ?thesis by (simp only: power_add add_0_right)
qed

lemma unit_den_power: "unit_den = 2 ^ (52 + 1022)"
  unfolding unit_den_def by (rule arg_cong [of _ _ "(^) 2"]) simp

lemma units_one: "units one_mag = unit_den"
  by (simp only: units_two unit_den_power)

lemma two_mag_mono: "m \<le> n \<Longrightarrow> two_mag m \<le> two_mag n"
  unfolding two_mag_def by (rule mult_right_mono) simp_all

lemma two_mag_finite: "n < 2046 \<Longrightarrow> mag_finite (two_mag n)"
  unfolding mag_finite_def two_mag_def by (rule mult_strict_right_mono) simp_all

lemma two_mag_inf: "n \<le> 2046 \<Longrightarrow> two_mag n \<le> inf_mag"
  unfolding inf_mag_def two_mag_def by (rule mult_right_mono) simp_all

lemma mag_finite_le: "k \<le> l \<Longrightarrow> mag_finite l \<Longrightarrow> mag_finite k"
  unfolding mag_finite_def by (rule le_less_trans)

lemma finite_inf: "mag_finite k \<Longrightarrow> k \<le> inf_mag"
  unfolding mag_finite_def inf_mag_def by (rule less_imp_le)

lemma round_le: "0 < den \<Longrightarrow> num * unit_den \<le> units k * den \<Longrightarrow> round_mag num den \<le> k"
  unfolding round_mag_def by (rule min.coboundedI1 [OF nearest_le])

lemma round_ge: "0 < den \<Longrightarrow> units k * den \<le> num * unit_den \<Longrightarrow> k \<le> inf_mag \<Longrightarrow> k \<le> round_mag num den"
  unfolding round_mag_def by (rule min.boundedI [OF nearest_ge])

lemma round_mono: "0 < den \<Longrightarrow> num \<le> num' \<Longrightarrow> round_mag num den \<le> round_mag num' den"
  unfolding round_mag_def by (rule min.mono [OF nearest_mono]) simp_all

lemma power_split: "e \<le> n \<Longrightarrow> (2 :: nat) ^ n = 2 ^ e * 2 ^ (n - e)"
  by (simp flip: power_add)

lemma fraction_le: "0 < den \<Longrightarrow> num \<le> 2 ^ e * den \<Longrightarrow> nearest num den \<le> two_mag (1022 + e)"
proof (rule nearest_le)
  assume "num \<le> 2 ^ e * den"
  then have "num * unit_den \<le> 2 ^ e * den * unit_den" by (rule mult_right_mono) simp
  then show "num * unit_den \<le> units (two_mag (1022 + e)) * den"
    unfolding units_two unit_den_power by (simp only: power_add ac_simps)
qed

lemma fraction_ge: "0 < den \<Longrightarrow> den \<le> num * 2 ^ e \<Longrightarrow> e \<le> 1022 \<Longrightarrow> two_mag (1022 - e) \<le> nearest num den"
proof (rule nearest_ge)
  assume e: "den \<le> num * 2 ^ e" "e \<le> 1022"
  have u: "unit_den = 2 ^ e * 2 ^ (52 + (1022 - e))" using e(2) unfolding unit_den_power by (simp only: power_add [symmetric]) simp
  have "2 ^ (52 + (1022 - e)) * den \<le> 2 ^ (52 + (1022 - e)) * (num * 2 ^ e)" using e(1) by (rule mult_left_mono) simp
  then show "units (two_mag (1022 - e)) * den \<le> num * unit_den" unfolding units_two u by (simp only: ac_simps)
qed

lemma of_nat_bounds:
  "n \<le> 2 ^ e \<Longrightarrow> float_of_nat n \<le> two_mag (1022 + e)" "1 \<le> n \<Longrightarrow> one_mag \<le> float_of_nat n" "float_of_nat 0 = 0"
proof -
  show "n \<le> 2 ^ e \<Longrightarrow> float_of_nat n \<le> two_mag (1022 + e)"
    unfolding float_of_nat_def round_mag_def by (rule min.coboundedI1 [OF fraction_le]) simp_all
  assume "1 \<le> n"
  then have "two_mag (1022 - 0) \<le> nearest n 1" by (intro fraction_ge) simp_all
  then show "one_mag \<le> float_of_nat n" unfolding float_of_nat_def round_mag_def by (intro min.boundedI two_mag_inf) simp_all
next
  show "float_of_nat 0 = 0" by (simp add: float_of_nat_def round_mag_def)
qed

lemma units_le_two: "a \<le> two_mag n \<Longrightarrow> units a \<le> 2 ^ (52 + n)"
  using units_mono by (fastforce simp: units_two)

lemma units_ge_two: "two_mag n \<le> a \<Longrightarrow> 2 ^ (52 + n) \<le> units a"
  using units_mono by (fastforce simp: units_two)

lemma two_twice: "(2 :: nat) ^ n + 2 ^ n = 2 ^ (n + 1)"
  by simp

lemma add_bounds:
  "a \<le> two_mag n \<Longrightarrow> b \<le> two_mag n \<Longrightarrow> float_add a b \<le> two_mag (n + 1)"
  "a \<le> inf_mag \<Longrightarrow> a \<le> float_add a b" "b \<le> inf_mag \<Longrightarrow> b \<le> float_add a b"
proof -
  assume "a \<le> two_mag n" "b \<le> two_mag n"
  then have "units a + units b \<le> 2 ^ (52 + n) + 2 ^ (52 + n)" by (intro add_mono units_le_two)
  also have "\<dots> = units (two_mag (n + 1))" by (simp only: units_two two_twice add.assoc)
  finally show "float_add a b \<le> two_mag (n + 1)" unfolding float_add_def by (intro round_le unit_den_pos mult_right_mono) simp_all
next
  show "a \<le> inf_mag \<Longrightarrow> a \<le> float_add a b" "b \<le> inf_mag \<Longrightarrow> b \<le> float_add a b"
    unfolding float_add_def by (rule round_ge [OF unit_den_pos], rule mult_right_mono, simp_all)+
qed

lemma dens_pos: "0 < unit_den * unit_den"
  using unit_den_pos by simp

lemma mul_le:
  assumes "a \<le> two_mag m" and "b \<le> two_mag (1022 + n)"
  shows "float_mul a b \<le> two_mag (m + n)"
proof -
  have "units a * units b \<le> 2 ^ (52 + m) * 2 ^ (52 + (1022 + n))" by (rule mult_mono [OF units_le_two [OF assms(1)] units_le_two [OF assms(2)]]) simp_all
  also have "\<dots> = units (two_mag (m + n)) * unit_den" unfolding units_two unit_den_power by (simp only: power_add ac_simps)
  finally have "units a * units b * unit_den \<le> units (two_mag (m + n)) * unit_den * unit_den" by (rule mult_right_mono) simp
  then show ?thesis unfolding float_mul_def by (intro round_le dens_pos) (simp only: mult.assoc)
qed

lemma mul_mono: "a \<le> a' \<Longrightarrow> b \<le> b' \<Longrightarrow> float_mul a b \<le> float_mul a' b'"
  unfolding float_mul_def by (intro round_mono dens_pos mult_mono units_mono) simp_all

lemma mul_add_bounds:
  "a \<le> two_mag m \<Longrightarrow> b \<le> two_mag (1022 + n) \<Longrightarrow> c \<le> two_mag (m + n) \<Longrightarrow> float_mul_add fused a b c \<le> two_mag (m + n + 1)"
  "c \<le> inf_mag \<Longrightarrow> c \<le> float_mul_add fused a b c"
proof -
  assume a: "a \<le> two_mag m" "b \<le> two_mag (1022 + n)" "c \<le> two_mag (m + n)"
  have "units a * units b \<le> 2 ^ (52 + m) * 2 ^ (52 + (1022 + n))" by (rule mult_mono [OF units_le_two [OF a(1)] units_le_two [OF a(2)]]) simp_all
  also have "\<dots> = units (two_mag (m + n)) * unit_den" unfolding units_two unit_den_power by (simp only: power_add ac_simps)
  finally have p: "units a * units b \<le> units (two_mag (m + n)) * unit_den" .
  have "units c * unit_den \<le> units (two_mag (m + n)) * unit_den" by (rule mult_right_mono [OF units_mono [OF a(3)]]) simp
  with p have "units a * units b + units c * unit_den \<le> units (two_mag (m + n)) * unit_den + units (two_mag (m + n)) * unit_den" by (rule add_mono)
  also have "\<dots> = units (two_mag (m + n + 1)) * unit_den"
    unfolding units_two by (simp only: add_mult_distrib [symmetric] two_twice add.assoc)
  finally have "(units a * units b + units c * unit_den) * unit_den \<le> units (two_mag (m + n + 1)) * unit_den * unit_den" by (rule mult_right_mono) simp
  then have "round_mag (units a * units b + units c * unit_den) (unit_den * unit_den) \<le> two_mag (m + n + 1)"
    by (intro round_le dens_pos) (simp only: mult.assoc)
  moreover have "float_add (float_mul a b) c \<le> two_mag (m + n + 1)" by (rule add_bounds(1) [OF mul_le [OF a(1,2)] a(3)])
  ultimately show "float_mul_add fused a b c \<le> two_mag (m + n + 1)" by (cases fused) (simp_all only: float_mul_add_def if_True if_False)
next
  assume c: "c \<le> inf_mag"
  have "units c * (unit_den * unit_den) \<le> (units a * units b + units c * unit_den) * unit_den" by (simp only: add_mult_distrib mult.assoc le_add2)
  then have "c \<le> round_mag (units a * units b + units c * unit_den) (unit_den * unit_den)" by (rule round_ge [OF dens_pos _ c])
  moreover have "c \<le> float_add (float_mul a b) c" by (rule add_bounds(3) [OF c])
  ultimately show "c \<le> float_mul_add fused a b c" by (cases fused) (simp_all only: float_mul_add_def if_True if_False)
qed

lemma two_mag_pos: "0 < two_mag n"
  by (simp add: two_mag_def)

lemma div_le:
  assumes "a \<le> two_mag m" and "m < 2046" and "two_mag l \<le> b"
  shows "float_div a b \<le> two_mag (m + 1022 - l)"
proof (cases "mag_finite b")
  case True
  have f: "mag_finite a" by (rule mag_finite_le [OF assms(1) two_mag_finite [OF assms(2)]])
  have ub: "2 ^ (52 + l) \<le> units b" by (rule units_ge_two [OF assms(3)])
  have "0 < (2 :: nat) ^ (52 + l)" by simp
  then have pos: "0 < units b" using ub by (rule less_le_trans)
  have "(2 :: nat) ^ (52 + m) * 2 ^ (52 + 1022) \<le> 2 ^ (52 + (m + 1022 - l)) * 2 ^ (52 + l)"
    unfolding power_add [symmetric] by (intro power_increasing) simp_all
  also have "\<dots> \<le> 2 ^ (52 + (m + 1022 - l)) * units b" using ub by (rule mult_left_mono) simp
  finally have "units a * unit_den \<le> units (two_mag (m + 1022 - l)) * units b"
    unfolding units_two unit_den_power using mult_right_mono [OF units_le_two [OF assms(1)], of "2 ^ (52 + 1022)"] by linarith
  then have "round_mag (units a) (units b) \<le> two_mag (m + 1022 - l)" by (rule round_le [OF pos])
  moreover have "b \<noteq> 0" using assms(3) two_mag_pos [of l] by linarith
  ultimately show ?thesis using f True by (simp only: float_div_def) simp
next
  case False
  have "mag_finite a" by (rule mag_finite_le [OF assms(1) two_mag_finite [OF assms(2)]])
  moreover have "b \<noteq> 0" using assms(3) two_mag_pos [of l] by linarith
  ultimately show ?thesis using False by (simp only: float_div_def) simp
qed

lemma div_ge:
  assumes "two_mag m \<le> a" and "b \<le> two_mag l" and "0 < units b" and "l < 2046" and "l \<le> m + 1022" and "m + 1022 - l \<le> 2046"
  shows "two_mag (m + 1022 - l) \<le> float_div a b"
proof (cases "mag_finite a \<and> b \<noteq> 0")
  case True
  have f: "mag_finite b" by (rule mag_finite_le [OF assms(2) two_mag_finite [OF assms(4)]])
  have "2 ^ (52 + (m + 1022 - l)) * units b \<le> 2 ^ (52 + (m + 1022 - l)) * 2 ^ (52 + l)" by (rule mult_left_mono [OF units_le_two [OF assms(2)]]) simp
  also have "\<dots> \<le> 2 ^ (52 + m) * 2 ^ (52 + 1022)" unfolding power_add [symmetric] using assms(5) by (intro power_increasing) simp_all
  finally have "units (two_mag (m + 1022 - l)) * units b \<le> units a * unit_den"
    unfolding units_two unit_den_power using mult_right_mono [OF units_ge_two [OF assms(1)], of "2 ^ (52 + 1022)"] by linarith
  then have "two_mag (m + 1022 - l) \<le> round_mag (units a) (units b)" by (rule round_ge [OF assms(3) _ two_mag_inf [OF assms(6)]])
  then show ?thesis using f True by (simp only: float_div_def) simp
next
  case False
  then have "float_div a b = inf_mag" unfolding float_div_def by (intro if_P) blast
  then show ?thesis using two_mag_inf [OF assms(6)] by simp
qed

end
