(* ===== verification/Benchmark.thy ===== *)
theory Benchmark
  imports Experiment BlockJson FloatArith
begin

text \<open>
  \<^verbatim>\<open>cmd/experiment/runner.go\<close>: the figures of a benchmark round, the suite of all rounds and the file
  the program writes. The clock and the time a round has taken are parameters, and whether the
  compiler fuses products and sums.
\<close>

section \<open>Figures\<close>

record benchmark_result =
  br_cluster_size :: int
  br_target_tps :: int
  br_achieved_tps :: "64 word"
  br_p50 :: "64 word"
  br_p95 :: "64 word"
  br_p99 :: "64 word"
  br_recovery :: "64 word"
  br_memory :: "64 word"
  br_cpu :: "64 word"

text \<open>\<^verbatim>\<open>Duration.Seconds\<close> of nanoseconds, and the figures of a round; decimals as in the source.\<close>

definition duration_seconds :: "nat \<Rightarrow> nat" where
  "duration_seconds d = float_add (float_of_nat (d div 10 ^ 9)) (float_div (float_of_nat (d mod 10 ^ 9)) (read_decimal 1 9))"

definition scale_factor :: "bool \<Rightarrow> nat \<Rightarrow> nat" where
  "scale_factor fused nodes = float_mul_add fused (float_of_nat nodes) (read_decimal 2 (- 2)) (read_decimal 1 0)"

definition round_figures :: "bool \<Rightarrow> nat \<Rightarrow> nat \<Rightarrow> benchmark_result" where
  "round_figures fused elapsed nodes =
     (let achieved = float_div (float_of_nat 1000) (duration_seconds elapsed); scale = scale_factor fused nodes
      in \<lparr>br_cluster_size = int nodes, br_target_tps = 10000,
          br_achieved_tps = pos_float (float_div achieved scale),
          br_p50 = pos_float (float_mul (read_decimal 8 (- 1)) scale),
          br_p95 = pos_float (float_mul (read_decimal 24 (- 1)) scale),
          br_p99 = pos_float (float_mul (read_decimal 51 (- 1)) scale),
          br_recovery = pos_float (float_mul_add fused (float_of_nat nodes) (read_decimal 15 (- 1)) (read_decimal 120 0)),
          br_memory = pos_float (float_mul_add fused (float_of_nat nodes) (read_decimal 12 (- 1)) (read_decimal 32 0)),
          br_cpu = pos_float (float_mul_add fused (float_of_nat nodes) (read_decimal 5 (- 1)) (read_decimal 15 0))\<rparr>)"

text \<open>
  A round: the leader is started and stopped around the commands, whose order the scheduler decides;
  the latencies of the commands are collected, in milliseconds, and not looked at.
\<close>

definition measured_latency :: "nat \<Rightarrow> nat" where
  "measured_latency d = float_div (float_of_nat (d div 1000)) (read_decimal 1000 0)"

definition run_cluster_benchmark ::
    "bool \<Rightarrow> memory_storage raft_deps \<Rightarrow> int \<Rightarrow> nat list \<Rightarrow> (nat \<Rightarrow> nat) \<Rightarrow> nat \<Rightarrow> nat \<Rightarrow>
     memory_storage raft \<times> (unit, memory_storage) execution_router \<times> nat list \<times> benchmark_result" where
  "run_cluster_benchmark fused d draw order op_time elapsed nodes =
     (raft_stop (raft_start draw (benchmark_leader d nodes)), benchmark_round order,
      map (\<lambda>i. measured_latency (op_time i)) [0..<1000], round_figures fused elapsed nodes)"

text \<open>
  What a round draws and measures: the election timeout, the order in which the commands get the
  router, the time each command and the round take, in nanoseconds.
\<close>

record round_env =
  en_draw :: int
  en_order :: "nat list"
  en_op_time :: "nat \<Rightarrow> nat"
  en_elapsed :: nat

text \<open>The last component of a round is what it returns; storage, router, leader and latencies are its own.\<close>

definition cluster_result :: "bool \<Rightarrow> memory_storage raft_deps \<Rightarrow> round_env \<Rightarrow> nat \<Rightarrow> benchmark_result" where
  "cluster_result fused d env nodes =
     (case run_cluster_benchmark fused d (en_draw env) (en_order env) (en_op_time env) (en_elapsed env) nodes of
        (_, _, _, res) \<Rightarrow> res)"

record experiment_suite =
  su_timestamp :: go_time
  su_results :: "benchmark_result list"

definition node_counts :: "nat list" where "node_counts = [1, 3, 5, 10, 25, 50, 100]"

definition utc :: "go_time \<Rightarrow> go_time" where "utc t = t\<lparr>tm_offset := 0\<rparr>"

text \<open>The suite: one round per cluster size, one after the other.\<close>

definition run_experiment_matrix :: "bool \<Rightarrow> memory_storage raft_deps \<Rightarrow> go_time \<Rightarrow> (nat \<Rightarrow> round_env) \<Rightarrow> experiment_suite result" where
  "run_experiment_matrix fused d now env =
     Inr \<lparr>su_timestamp = utc now, su_results = map (\<lambda>nodes. cluster_result fused d (env nodes) nodes) node_counts\<rparr>"

lemma cluster_result_figures: "cluster_result fused d env nodes = round_figures fused (en_elapsed env) nodes"
  by (simp add: cluster_result_def run_cluster_benchmark_def)

section \<open>The file\<close>

definition enc_result :: "benchmark_result \<Rightarrow> json" where
  "enc_result r = JObj [(''cluster_size'', enc_int (br_cluster_size r)), (''target_tps'', enc_int (br_target_tps r)),
     (''achieved_tps'', enc_float (br_achieved_tps r)), (''p50_latency_ms'', enc_float (br_p50 r)),
     (''p95_latency_ms'', enc_float (br_p95 r)), (''p99_latency_ms'', enc_float (br_p99 r)),
     (''recovery_time_ms'', enc_float (br_recovery r)), (''memory_alloc_mb'', enc_float (br_memory r)),
     (''cpu_usage_percent'', enc_float (br_cpu r))]"

definition result_fields :: "benchmark_result field_table" where
  "result_fields = [(''cluster_size'', field dec_int br_cluster_size br_cluster_size_update),
     (''target_tps'', field dec_int br_target_tps br_target_tps_update),
     (''achieved_tps'', field dec_float br_achieved_tps br_achieved_tps_update),
     (''p50_latency_ms'', field dec_float br_p50 br_p50_update), (''p95_latency_ms'', field dec_float br_p95 br_p95_update),
     (''p99_latency_ms'', field dec_float br_p99 br_p99_update),
     (''recovery_time_ms'', field dec_float br_recovery br_recovery_update),
     (''memory_alloc_mb'', field dec_float br_memory br_memory_update),
     (''cpu_usage_percent'', field dec_float br_cpu br_cpu_update)]"

definition result_zero :: benchmark_result where
  "result_zero = \<lparr>br_cluster_size = 0, br_target_tps = 0, br_achieved_tps = 0, br_p50 = 0, br_p95 = 0, br_p99 = 0,
     br_recovery = 0, br_memory = 0, br_cpu = 0\<rparr>"

definition enc_suite :: "experiment_suite \<Rightarrow> json" where
  "enc_suite su = JObj [(''timestamp'', enc_go_time (su_timestamp su)), (''results'', enc_slice False enc_result (su_results su))]"

definition suite_fields :: "experiment_suite field_table" where
  "suite_fields = [(''timestamp'', field dec_go_time su_timestamp su_timestamp_update),
     (''results'', field (dec_slice (dec_struct result_fields) result_zero) su_results su_results_update)]"

definition suite_zero :: experiment_suite where
  "suite_zero = \<lparr>su_timestamp = zero_time, su_results = []\<rparr>"

definition result_writable :: "benchmark_result \<Rightarrow> bool" where
  "result_writable r \<longleftrightarrow> float_finite (br_achieved_tps r) \<and> float_finite (br_p50 r) \<and> float_finite (br_p95 r) \<and> float_finite (br_p99 r) \<and>
     float_finite (br_recovery r) \<and> float_finite (br_memory r) \<and> float_finite (br_cpu r)"

definition suite_marshal :: "experiment_suite \<Rightarrow> bytes result" where
  "suite_marshal su = (if time_writable (su_timestamp su) \<and> list_all result_writable (su_results su)
     then Inr (json_print_indent (enc_suite su)) else Inl (NewError ''json: cannot marshal''))"

definition suite_unmarshal :: "bytes \<Rightarrow> experiment_suite result" where
  "suite_unmarshal = json_unmarshal (dec_struct suite_fields) suite_zero"

definition suite_path :: string where
  "suite_path = ''results/json/cluster_benchmark_results.json''"

definition out_dir :: string where "out_dir = ''./results/json''"

text \<open>
  The program of \<^verbatim>\<open>runner.go\<close>: what it prints, the files it leaves and its exit status. The errors of
  \<^verbatim>\<open>MkdirAll\<close>, \<^verbatim>\<open>MarshalIndent\<close> and \<^verbatim>\<open>WriteFile\<close> are dropped; without data an empty file is written. The
  directory has another \<^verbatim>\<open>main\<close>, in \<^verbatim>\<open>main.go\<close>, so the file has to be built by itself.
\<close>

definition benchmark_main :: "os_lib \<Rightarrow> bool \<Rightarrow> memory_storage raft_deps \<Rightarrow> go_time \<Rightarrow> (nat \<Rightarrow> round_env) \<Rightarrow> files \<Rightarrow>
    string \<times> files \<times> int" where
  "benchmark_main os fused d now env fs = (case run_experiment_matrix fused d now env of
      Inl err \<Rightarrow> (''Experiment run failed: '' @ error_text err @ nl, fs, 1)
    | Inr suite \<Rightarrow>
       (let (fs1, _) = mkdir_all os out_dir fs;
            data = (case suite_marshal suite of Inl _ \<Rightarrow> [] | Inr data \<Rightarrow> data);
            (fs2, _) = write_file os suite_path data fs1
        in (''Experiment Matrix completed successfully.'' @ nl, fs2, 0)))"

section \<open>The suite reads back\<close>

definition suite_good :: "experiment_suite \<Rightarrow> bool" where
  "suite_good su \<longleftrightarrow> time_writable (su_timestamp su) \<and> time_plain (su_timestamp su) \<and>
     (\<forall>r \<in> set (su_results su). result_writable r \<and> in_int64 (br_cluster_size r) \<and> in_int64 (br_target_tps r))"

lemma enc_result_ok: "result_writable r \<Longrightarrow> numbers_ok (enc_result r)" "height (enc_result r) = 1"
  by (simp_all add: enc_result_def result_writable_def codec)

lemma dec_enc_result:
  "result_writable r \<Longrightarrow> in_int64 (br_cluster_size r) \<Longrightarrow> in_int64 (br_target_tps r) \<Longrightarrow>
     dec_struct result_fields (sanitize_json (enc_result r)) old = Some r"
  by (simp add: enc_result_def result_fields_def result_writable_def codec)

interpretation suite_codec: json_codec enc_suite "dec_struct suite_fields" suite_zero suite_good
proof
  fix su assume su: "suite_good su"
  then show "numbers_ok (enc_suite su)" by (simp add: enc_suite_def suite_good_def codec numbers_enc_slice enc_result_ok)
  have "height (enc_slice False enc_result (su_results su)) \<le> 2"
    using height_enc_slice [of "su_results su" enc_result 1 False] enc_result_ok(2) by (simp add: numeral_2_eq_2)
  then show "height (enc_suite su) \<le> max_nesting" by (simp add: enc_suite_def max_nesting_def codec)
  have "dec_slice (dec_struct result_fields) result_zero (sanitize_json (enc_slice False enc_result (su_results su))) old = Some (su_results su)" for old
    by (rule dec_slice_enc) (use su dec_enc_result in \<open>simp add: suite_good_def\<close>)
  then show "dec_struct suite_fields (sanitize_json (enc_suite su)) suite_zero = Some su"
    using su by (simp add: enc_suite_def suite_fields_def suite_good_def codec)
qed

section \<open>Which figures are finite\<close>

lemma float_finite_pos: "k \<le> inf_mag \<Longrightarrow> float_finite (pos_float k) \<longleftrightarrow> mag_finite k"
proof -
  assume "k \<le> inf_mag"
  then have k: "k < 2 ^ 63" by (simp add: inf_mag_def)
  then have "unat (of_nat k :: 64 word) = k" by (simp add: unat_of_nat take_bit_nat_eq_self)
  then show ?thesis using k by (simp add: float_finite_def pos_float_def mag_of_def)
qed

lemma round_mag_inf: "round_mag num den \<le> inf_mag"
  by (simp add: round_mag_def)

lemma ops_inf [simp]:
  "float_add a b \<le> inf_mag" "float_mul a b \<le> inf_mag" "float_div a b \<le> inf_mag" "float_mul_add fused a b c \<le> inf_mag"
  by (simp_all add: float_add_def float_mul_def float_div_def float_mul_add_def round_mag_inf)

lemma below_finite: "k \<le> two_mag n \<Longrightarrow> n < 2046 \<Longrightarrow> mag_finite k"
  by (rule mag_finite_le [OF _ two_mag_finite])

lemma decimal_le: "d * 10 ^ nat x \<le> 2 ^ e * 10 ^ nat (- x) \<Longrightarrow> read_decimal d x \<le> two_mag (1022 + e)"
  unfolding read_decimal_def by (rule fraction_le) simp

lemma one_le_decimal: "1 \<le> d \<Longrightarrow> 0 \<le> x \<Longrightarrow> one_mag \<le> read_decimal d x"
  using fraction_ge [of "10 ^ nat (- x)" "d * 10 ^ nat x" 0] by (simp add: read_decimal_def)

lemma decimals:
  "read_decimal 2 (- 2) \<le> two_mag (1022 + 0)" "read_decimal 1 0 \<le> two_mag (1029 + 0)" "one_mag \<le> read_decimal 1 0"
  "read_decimal 8 (- 1) \<le> two_mag (1022 + 3)" "read_decimal 24 (- 1) \<le> two_mag (1022 + 3)" "read_decimal 51 (- 1) \<le> two_mag (1022 + 3)"
  "read_decimal 15 (- 1) \<le> two_mag (1022 + 1)" "read_decimal 12 (- 1) \<le> two_mag (1022 + 1)" "read_decimal 5 (- 1) \<le> two_mag (1022 + 1)"
  "read_decimal 120 0 \<le> two_mag (1029 + 1)" "read_decimal 32 0 \<le> two_mag (1029 + 1)" "read_decimal 15 0 \<le> two_mag (1029 + 1)"
  "read_decimal 1 9 \<le> two_mag 1052" "one_mag \<le> read_decimal 1 9"
  using decimal_le [of 2 "- 2" 0] decimal_le [of 1 0 7] one_le_decimal [of 1 0] decimal_le [of 8 "- 1" 3] decimal_le [of 24 "- 1" 3]
    decimal_le [of 51 "- 1" 3] decimal_le [of 15 "- 1" 1] decimal_le [of 12 "- 1" 1] decimal_le [of 5 "- 1" 1]
    decimal_le [of 120 0 8] decimal_le [of 32 0 8] decimal_le [of 15 0 8] decimal_le [of 1 9 30] one_le_decimal [of 1 9]
  by simp_all

lemma units_pos: "two_mag n \<le> k \<Longrightarrow> 0 < units k"
  using units_ge_two [of n k] less_le_trans [of 0 "2 ^ (52 + n)" "units k"] zero_less_power [of 2 "52 + n"] by simp

lemma inf_not_finite: "\<not> mag_finite inf_mag"
  by (simp add: mag_finite_def inf_mag_def)

lemma seconds_zero: "duration_seconds 0 = 0"
proof -
  have u: "units 0 = 0" by (simp add: units_def)
  have z: "round_mag 0 den = 0" for den by (simp add: round_mag_def)
  have f: "mag_finite 0" by (simp add: mag_finite_def)
  have d: "float_div 0 (read_decimal 1 9) = 0"
    using decimals(14) two_mag_pos [of 1022] f by (simp only: float_div_def u z) simp
  have q: "(0 :: nat) div 10 ^ 9 = 0" "(0 :: nat) mod 10 ^ 9 = 0" by simp_all
  show ?thesis unfolding duration_seconds_def q of_nat_bounds(3) d float_add_def u add_0 z ..
qed

lemma seconds_lower: "0 < d \<Longrightarrow> two_mag 992 \<le> duration_seconds d"
proof -
  assume d: "0 < d"
  let ?s = "float_of_nat (d div 10 ^ 9)" and ?n = "float_div (float_of_nat (d mod 10 ^ 9)) (read_decimal 1 9)"
  have i: "?s \<le> inf_mag" by (simp add: float_of_nat_def round_mag_inf)
  show ?thesis
  proof (cases "d div 10 ^ 9 = 0")
    case False
    then have "1 \<le> d div 10 ^ 9" by linarith
    from of_nat_bounds(2) [OF this] have "two_mag 992 \<le> ?s" using two_mag_mono [of 992 1022] by simp
    then show ?thesis unfolding duration_seconds_def using add_bounds(2) [OF i] by (rule order_trans)
  next
    case True
    then have "1 \<le> d mod 10 ^ 9" using d by (simp add: div_eq_0_iff)
    from div_ge [OF of_nat_bounds(2) [OF this] decimals(13) units_pos [OF decimals(14)]] have "two_mag 992 \<le> ?n" by simp
    then show ?thesis unfolding duration_seconds_def using add_bounds(3) [OF ops_inf(3)] by (rule order_trans)
  qed
qed

lemma scale_bounds:
  assumes "nodes \<le> 2 ^ 7"
  shows "one_mag \<le> scale_factor fused nodes" and "scale_factor fused nodes \<le> two_mag 1030"
proof -
  have n: "float_of_nat nodes \<le> two_mag 1029" using of_nat_bounds(1) [OF assms] by simp
  have "read_decimal 1 0 \<le> inf_mag" using decimals(2) two_mag_inf [of 1029] by simp
  from mul_add_bounds(2) [OF this] decimals(3) show "one_mag \<le> scale_factor fused nodes"
    unfolding scale_factor_def by (rule order_trans [rotated])
  show "scale_factor fused nodes \<le> two_mag 1030"
    unfolding scale_factor_def using mul_add_bounds(1) [OF n decimals(1,2)] by simp
qed

lemma achieved_finite:
  assumes "nodes \<le> 2 ^ 7"
  shows "mag_finite (float_div (float_div (float_of_nat 1000) (duration_seconds elapsed)) (scale_factor fused nodes)) \<longleftrightarrow> 0 < elapsed"
proof (cases "0 < elapsed")
  case True
  have "float_of_nat 1000 \<le> two_mag (1022 + 10)" by (rule of_nat_bounds(1)) simp
  from div_le [OF this _ seconds_lower [OF True]] have a: "float_div (float_of_nat 1000) (duration_seconds elapsed) \<le> two_mag 1062" by simp
  have "float_div (float_div (float_of_nat 1000) (duration_seconds elapsed)) (scale_factor fused nodes) \<le> two_mag 1062"
    using div_le [OF a _ scale_bounds(1) [OF assms]] by simp
  then have "mag_finite (float_div (float_div (float_of_nat 1000) (duration_seconds elapsed)) (scale_factor fused nodes))"
    by (rule below_finite) simp
  with True show ?thesis by blast
next
  case False
  then have "float_div (float_of_nat 1000) (duration_seconds elapsed) = inf_mag" by (simp only: seconds_zero float_div_def not_gr_zero) simp
  then have "float_div (float_div (float_of_nat 1000) (duration_seconds elapsed)) (scale_factor fused nodes) = inf_mag"
    using inf_not_finite by (simp only: float_div_def) simp
  with False inf_not_finite show ?thesis by simp
qed

lemma figures_finite:
  assumes "nodes \<le> 2 ^ 7"
  shows "result_writable (round_figures fused elapsed nodes) \<longleftrightarrow> 0 < elapsed"
proof -
  have n: "float_of_nat nodes \<le> two_mag 1029" using of_nat_bounds(1) [OF assms] by simp
  have p: "mag_finite (float_mul a (scale_factor fused nodes))" if "a \<le> two_mag (1022 + 3)" for a
    by (rule below_finite [OF mul_le [where m = 1025 and n = 8]]) (use that scale_bounds(2) [OF assms] in simp_all)
  have s: "mag_finite (float_mul_add fused (float_of_nat nodes) b c)" if "b \<le> two_mag (1022 + 1)" "c \<le> two_mag (1029 + 1)" for b c
    by (rule below_finite [OF mul_add_bounds(1) [OF n that]]) simp
  show ?thesis
    unfolding result_writable_def round_figures_def Let_def
    by (simp add: float_finite_pos achieved_finite [OF assms] p [OF decimals(4)] p [OF decimals(5)] p [OF decimals(6)]
        s [OF decimals(7,10)] s [OF decimals(8,11)] s [OF decimals(9,12)])
qed

section \<open>What the file holds\<close>

text \<open>
  C40: The program reports success and leaves the exit status 0 whatever happens: whether directories
  and file could be made, whether the write succeeded, whether there was anything to write. Data
  is what it has to write: the suite of all seven cluster sizes, as a text that reads back as it was
  measured, if every round took measurable time and the clock stands in a year from 0 to 9999;
  otherwise nothing, for a single round within the resolution of the clock makes a throughput
  infinite and \<^verbatim>\<open>MarshalIndent\<close> fail. The file holds the data if it could be opened and written, a part of
  it if the write failed, and what it held before if it could not be opened.
\<close>

theorem benchmark_file_outcome:
  "\<exists>data. (if year_in_range (tm_instant now) \<and> (\<forall>nodes \<in> set node_counts. 0 < en_elapsed (env nodes))
      then suite_unmarshal data = Inr \<lparr>su_timestamp = \<lparr>tm_instant = tm_instant now, tm_offset = 0, tm_mono = None\<rparr>,
             su_results = map (\<lambda>nodes. round_figures fused (en_elapsed (env nodes)) nodes) node_counts\<rparr>
      else data = []) \<and>
     benchmark_main os fused d now env fs = (''Experiment Matrix completed successfully.'' @ [CHR 0x0A],
       if os_create os suite_path \<noteq> None then fs
       else if os_write os suite_path data \<noteq> None then fs(suite_path \<mapsto> take (os_partial os suite_path data) data)
       else fs(suite_path \<mapsto> data), 0)"
proof -
  define su where "su = \<lparr>su_timestamp = utc now, su_results = map (\<lambda>nodes. round_figures fused (en_elapsed (env nodes)) nodes) node_counts\<rparr>"
  define su' where "su' = su\<lparr>su_timestamp := \<lparr>tm_instant = tm_instant now, tm_offset = 0, tm_mono = None\<rparr>\<rparr>"
  have small: "nodes \<le> 2 ^ 7" if "nodes \<in> set node_counts" for nodes using that by (auto simp: node_counts_def)
  have t: "time_writable (su_timestamp su) \<longleftrightarrow> year_in_range (tm_instant now)" by (simp add: su_def utc_def time_writable_def)
  have w: "list_all result_writable (su_results su) \<longleftrightarrow> (\<forall>nodes \<in> set node_counts. 0 < en_elapsed (env nodes))"
    using figures_finite [OF small] by (simp add: su_def list_all_iff)
  have enc: "enc_suite su = enc_suite su'" by (simp add: su'_def su_def enc_suite_def enc_go_time_def utc_def)
  define ok where "ok \<longleftrightarrow> time_writable (su_timestamp su) \<and> list_all result_writable (su_results su)"
  define data where "data = (if ok then json_print_indent (enc_suite su') else [])"
  have m: "suite_marshal su = (if ok then Inr data else Inl (NewError ''json: cannot marshal''))"
    by (simp add: suite_marshal_def data_def ok_def enc)
  have run: "run_experiment_matrix fused d now env = Inr su"
    by (simp add: run_experiment_matrix_def cluster_result_figures su_def)
  have main: "benchmark_main os fused d now env fs = (''Experiment Matrix completed successfully.'' @ [CHR 0x0A],
      if os_create os suite_path \<noteq> None then fs
      else if os_write os suite_path data \<noteq> None then fs(suite_path \<mapsto> take (os_partial os suite_path data) data)
      else fs(suite_path \<mapsto> data), 0)"
  proof -
    have "(case suite_marshal su of Inl _ \<Rightarrow> [] | Inr data \<Rightarrow> data) = data" using m by (simp add: data_def)
    then show ?thesis by (simp add: benchmark_main_def run mkdir_all_def write_file_def nl_def Let_def split: option.split)
  qed
  have "suite_unmarshal data = Inr su'" if ok
  proof -
    have "in_int64 (br_cluster_size (round_figures fused (en_elapsed (env nodes)) nodes))" if "nodes \<in> set node_counts" for nodes
      using small [OF that] by (simp add: round_figures_def Let_def int64_numerals)
    moreover have "in_int64 (br_target_tps (round_figures fused e nodes))" for e nodes by (simp add: round_figures_def Let_def int64_numerals)
    ultimately have "suite_good su'" using that t
      by (auto simp: ok_def suite_good_def su'_def su_def utc_def time_writable_def time_plain_def list_all_iff)
    then show ?thesis using that suite_codec.unmarshal_marshal_indent by (simp add: data_def suite_unmarshal_def)
  qed
  moreover have "data = []" if "\<not> ok" using that by (simp add: data_def)
  moreover have "ok \<longleftrightarrow> year_in_range (tm_instant now) \<and> (\<forall>nodes \<in> set node_counts. 0 < en_elapsed (env nodes))"
    by (simp only: ok_def t w)
  ultimately show ?thesis using main by (intro exI [of _ data]) (auto simp: su'_def su_def)
qed

text \<open>
  The latencies of the file are no measurements: whatever the round took, the percentiles are in
  order, and they only grow with the size of the cluster, which takes no part in the round.
\<close>

lemma unat_pos_float: "k \<le> inf_mag \<Longrightarrow> unat (pos_float k) = k"
  by (simp add: inf_mag_def pos_float_def unat_of_nat take_bit_nat_eq_self)

lemma scale_mono: "m \<le> n \<Longrightarrow> scale_factor fused m \<le> scale_factor fused n"
proof -
  assume "m \<le> n"
  then have n: "float_of_nat m \<le> float_of_nat n" unfolding float_of_nat_def by (rule round_mono [rotated]) simp
  have "units (float_of_nat m) * units b \<le> units (float_of_nat n) * units b" for b by (rule mult_right_mono [OF units_mono [OF n]]) simp
  then have "float_mul (float_of_nat m) b \<le> float_mul (float_of_nat n) b" "a \<le> a' \<Longrightarrow> float_add a c \<le> float_add a' c"
    "round_mag (units (float_of_nat m) * units b + x) (unit_den * unit_den) \<le> round_mag (units (float_of_nat n) * units b + x) (unit_den * unit_den)"
    for a a' b c x
    using mul_mono [OF n] units_mono by (auto simp: float_add_def intro!: round_mono dens_pos unit_den_pos)
  then show ?thesis by (simp add: scale_factor_def float_mul_add_def)
qed

theorem benchmark_latencies_are_fixed:
  assumes "m \<le> n"
  shows "unat (br_p50 (round_figures fused t m)) \<le> unat (br_p95 (round_figures fused t' m)) \<and>
     unat (br_p95 (round_figures fused t m)) \<le> unat (br_p99 (round_figures fused t' m)) \<and>
     unat (br_p50 (round_figures fused t m)) \<le> unat (br_p50 (round_figures fused t' n)) \<and>
     br_p50 (round_figures fused t m) = br_p50 (round_figures fused t' m) \<and> br_p99 (round_figures fused t m) = br_p99 (round_figures fused t' m)"
proof -
  have d: "read_decimal 8 (- 1) \<le> read_decimal 24 (- 1)" "read_decimal 24 (- 1) \<le> read_decimal 51 (- 1)"
    unfolding read_decimal_def by (rule nearest_mono, simp, simp, simp)+
  show ?thesis
    by (simp add: round_figures_def Let_def unat_pos_float mul_mono d scale_mono assms)
qed

text \<open>Rounds that take a millisecond per node, on a disk that works and on a full one.\<close>

definition sample_env :: "nat \<Rightarrow> round_env" where
  "sample_env nodes = \<lparr>en_draw = 0, en_order = [0..<1000], en_op_time = (\<lambda>_. 1000), en_elapsed = nodes * 1000000\<rparr>"

theorem benchmark_file_outcome_witness:
  "\<forall>d. \<exists>data. succeeded (suite_unmarshal data) \<and>
     benchmark_main \<lparr>os_mkdir = \<lambda>_. None, os_create = \<lambda>_. None, os_write = \<lambda>_ _. None, os_partial = \<lambda>_ _. 0\<rparr> False d
         \<lparr>tm_instant = 0, tm_offset = 3600, tm_mono = Some 5\<rparr> sample_env Map.empty
       = (''Experiment Matrix completed successfully.'' @ [CHR 0x0A], [suite_path \<mapsto> data], 0)"
proof
  fix d
  let ?now = "\<lparr>tm_instant = 0, tm_offset = 3600, tm_mono = Some 5\<rparr>"
  let ?os = "\<lparr>os_mkdir = \<lambda>_. None, os_create = \<lambda>_. None, os_write = \<lambda>_ _. None, os_partial = \<lambda>_ _. 0\<rparr>"
  have "year_in_range (tm_instant ?now) \<and> (\<forall>nodes \<in> set node_counts. 0 < en_elapsed (sample_env nodes))"
    by (auto simp: year_in_range_0 node_counts_def sample_env_def)
  from benchmark_file_outcome [of ?now sample_env False ?os d Map.empty, unfolded if_P [OF this]]
  obtain data su where data: "suite_unmarshal data = Inr su"
    and main: "benchmark_main ?os False d ?now sample_env Map.empty = (''Experiment Matrix completed successfully.'' @ [CHR 0x0A],
       if os_create ?os suite_path \<noteq> None then Map.empty
       else if os_write ?os suite_path data \<noteq> None then [suite_path \<mapsto> take (os_partial ?os suite_path data) data]
       else [suite_path \<mapsto> data], 0)" by (elim exE conjE) (rule that)
  have "os_create ?os suite_path = None" "os_write ?os suite_path data = None" by simp_all
  then show "\<exists>data. succeeded (suite_unmarshal data) \<and> benchmark_main ?os False d ?now sample_env Map.empty
       = (''Experiment Matrix completed successfully.'' @ [CHR 0x0A], [suite_path \<mapsto> data], 0)"
    using main data by (intro exI [of _ data] conjI) simp_all
qed

theorem benchmark_latencies_are_fixed_witness:
  "unat (br_p50 (round_figures True 7 3)) \<le> unat (br_p50 (round_figures True 9 100))"
proof -
  have "(3 :: nat) \<le> 100" by simp
  from benchmark_latencies_are_fixed [OF this, where fused = True and t = 7 and t' = 9] show ?thesis by blast
qed

end
