(* ===== verification/ExperimentReport.thy ===== *)
theory ExperimentReport
  imports Experiment FloatArith
begin

text \<open>
  \<^verbatim>\<open>cmd/experiment/main.go\<close>: the program that reads a specification and prints a report. YAML, the
  files and the time the program sleeps are parameters; numbers and durations are formatted as
  \<^verbatim>\<open>fmt\<close> does.
\<close>

section \<open>The specification\<close>

record chaos_spec =
  ch_latency_ms :: int
  ch_packet_loss :: "64 word"
  ch_partition_nodes :: int

record experiment_part =
  xp_name :: string
  xp_topology :: string
  xp_total_nodes :: int
  xp_target_tps :: int
  xp_consensus :: string
  xp_storage_backend :: string
  xp_chaos :: chaos_spec

record experiment_spec =
  sp_version :: string
  sp_experiment :: experiment_part

section \<open>Formatting\<close>

text \<open>A \<^verbatim>\<open>float64\<close> times a positive number, and \<^verbatim>\<open>%.1f\<close>: to tenths, ties to even.\<close>

definition sign_bit :: "64 word \<Rightarrow> nat" where "sign_bit w = (if is_negative w then 2 ^ 63 else 0)"

definition times_pos :: "64 word \<Rightarrow> nat \<Rightarrow> 64 word" where
  "times_pos w k = (if float_finite w then of_nat (float_mul (mag_of w) k + sign_bit w) else w)"

definition tenths_text :: "64 word \<Rightarrow> string" where
  "tenths_text w = (let sign = (if is_negative w then ''-'' else []); k = mag_of w
     in if inf_mag < k then ''NaN''
        else if k = inf_mag then (if is_negative w then ''-Inf'' else ''+Inf'')
        else (let n = round_div (units k * 10) unit_den in sign @ fmt_nat (n div 10) @ ''.'' @ fmt_nat (n mod 10)))"

text \<open>\<^verbatim>\<open>Duration.String\<close> of a duration that is not negative.\<close>

definition decimal_part :: "nat \<Rightarrow> nat \<Rightarrow> string" where
  "decimal_part prec v = (let ds = trim_zeros (pad prec (v mod 10 ^ prec)) in if ds = [] then [] else CHR ''.'' # ds)"

definition with_unit :: "nat \<Rightarrow> nat \<Rightarrow> string \<Rightarrow> string" where
  "with_unit prec d unit = fmt_nat (d div 10 ^ prec) @ decimal_part prec d @ unit"

definition duration_text :: "nat \<Rightarrow> string" where
  "duration_text d =
     (if d = 0 then ''0s''
      else if d < 1000 then with_unit 0 d ''ns''
      else if d < 1000000 then with_unit 3 d [CHR 0xC2, CHR 0xB5, CHR ''s'']
      else if d < 1000000000 then with_unit 6 d ''ms''
      else (let s = d div 10 ^ 9; m = s div 60; h = m div 60
        in (if m = 0 then [] else (if h = 0 then [] else fmt_nat h @ ''h'') @ fmt_nat (m mod 60) @ ''m'')
           @ fmt_nat (s mod 60) @ decimal_part 9 d @ ''s''))"

section \<open>The report\<close>

definition bullet :: string where "bullet = [CHR 0xE2, CHR 0x80, CHR 0xA2, CHR '' '']"

definition double_rule :: string where "double_rule = replicate 58 (CHR ''='') @ nl"

definition single_rule :: string where "single_rule = replicate 58 (CHR ''-'') @ nl"

definition announcement :: "experiment_part \<Rightarrow> string" where
  "announcement xp = double_rule
     @ [CHR 0xF0, CHR 0x9F, CHR 0x9A, CHR 0x80] @ '' Starting Experiment: '' @ xp_name xp @ nl @ double_rule
     @ bullet @ ''Topology:        '' @ xp_topology xp @ nl
     @ bullet @ ''Total Nodes:     '' @ fmt_d (xp_total_nodes xp) @ nl
     @ bullet @ ''Target Load:     '' @ fmt_d (xp_target_tps xp) @ '' TPS'' @ nl
     @ bullet @ ''Consensus:       '' @ xp_consensus xp @ nl
     @ bullet @ ''Storage Backend: '' @ xp_storage_backend xp @ nl
     @ bullet @ ''Chaos Injection: '' @ fmt_d (ch_latency_ms (xp_chaos xp)) @ ''ms latency | ''
     @ tenths_text (times_pos (ch_packet_loss (xp_chaos xp)) (read_decimal 100 0)) @ ''% packet loss | ''
     @ fmt_d (ch_partition_nodes (xp_chaos xp)) @ '' partitions'' @ nl @ single_rule"

definition results_text :: "experiment_part \<Rightarrow> nat \<Rightarrow> string" where
  "results_text xp duration = [CHR 0xF0, CHR 0x9F, CHR 0x93, CHR 0x8A] @ '' Experiment Execution Results:'' @ nl
     @ bullet @ ''Execution Time:  '' @ duration_text duration @ nl
     @ bullet @ ''Achieved TPS:    '' @ fmt_d (achieved_tps (xp_target_tps xp)) @ '' TPS'' @ nl
     @ bullet @ ''Avg Latency:     '' @ fmt_d (average_latency (ch_latency_ms (xp_chaos xp))) @ '' ms'' @ nl
     @ bullet @ ''Memory Footprint: 142 MB'' @ nl
     @ bullet @ ''Status:          SUCCESS (State Root Deterministic Across Swarm)'' @ nl @ double_rule"

text \<open>What the program prints and its exit status.\<close>

definition experiment_main ::
    "(bytes \<Rightarrow> experiment_spec result) \<Rightarrow> (string \<Rightarrow> bytes result) \<Rightarrow> nat \<Rightarrow> string list \<Rightarrow> string \<times> int" where
  "experiment_main yaml_unmarshal read_file duration args =
     (if length args < 2 then (''Usage: sovereign-experiment <path-to-experiment-spec.yaml>'' @ nl, 1)
      else case read_file (args ! 1) of
          Inl err \<Rightarrow> (''Error reading spec file: '' @ error_text err @ nl, 1)
        | Inr data \<Rightarrow> (case yaml_unmarshal data of
              Inl err \<Rightarrow> (''Error parsing YAML spec: '' @ error_text err @ nl, 1)
            | Inr spec \<Rightarrow> (announcement (sp_experiment spec) @ results_text (sp_experiment spec) duration, 0)))"

section \<open>What the report says\<close>

lemma decimal_part_exact: "v mod 10 ^ prec = 0 \<Longrightarrow> decimal_part prec v = []"
proof -
  have "pad w 0 = replicate w (CHR ''0'')" for w
    by (induction w) (simp_all add: digit_char_def char_of_def bit_0 replicate_append_same)
  moreover assume "v mod 10 ^ prec = 0"
  moreover have "trim_zeros (replicate n (CHR ''0'')) = []" for n by (simp add: trim_zeros_def)
  ultimately show ?thesis by (simp add: decimal_part_def)
qed

text \<open>
  The program runs nothing. Once the file could be read it reports success, the target as the
  throughput achieved, unless ten times the target does not fit an int64, and the same state of the
  swarm, for any specification and any clock; it fails only when the file is missing or malformed.
\<close>

theorem experiment_reports_the_target:
  assumes "in_int64 t"
  shows "(snd (experiment_main yaml read_file duration args) = 0 \<longleftrightarrow>
       2 \<le> length args \<and> (\<exists>data spec. read_file (args ! 1) = Inr data \<and> yaml data = Inr spec)) \<and>
     (read_file (args ! 1) = Inr data \<and> yaml data = Inr spec \<and> 2 \<le> length args \<and> xp_target_tps (sp_experiment spec) = t \<longrightarrow>
        (\<exists>before after. fst (experiment_main yaml read_file duration args) =
             before @ ''Achieved TPS:    '' @ fmt_d (achieved_tps t) @ '' TPS'' @ after @
             ''SUCCESS (State Root Deterministic Across Swarm)'' @ [CHR 0x0A] @ double_rule \<and>
           (achieved_tps t = t \<longleftrightarrow> in_int64 (10 * t))))"
proof (intro conjI impI)
  show "snd (experiment_main yaml read_file duration args) = 0 \<longleftrightarrow>
      2 \<le> length args \<and> (\<exists>data spec. read_file (args ! 1) = Inr data \<and> yaml data = Inr spec)"
    by (auto simp: experiment_main_def split: sum.splits)
  assume ok: "read_file (args ! 1) = Inr data \<and> yaml data = Inr spec \<and> 2 \<le> length args \<and> xp_target_tps (sp_experiment spec) = t"
  then have out: "fst (experiment_main yaml read_file duration args) = announcement (sp_experiment spec) @ results_text (sp_experiment spec) duration"
    by (simp add: experiment_main_def)
  let ?xp = "sp_experiment spec"
  let ?before = "announcement ?xp @ [CHR 0xF0, CHR 0x9F, CHR 0x93, CHR 0x8A] @ '' Experiment Execution Results:'' @ nl
     @ bullet @ ''Execution Time:  '' @ duration_text duration @ nl @ bullet"
  let ?after = "nl @ bullet @ ''Avg Latency:     '' @ fmt_d (average_latency (ch_latency_ms (xp_chaos ?xp))) @ '' ms'' @ nl
     @ bullet @ ''Memory Footprint: 142 MB'' @ nl @ bullet @ ''Status:          ''"
  have "fst (experiment_main yaml read_file duration args) = ?before @ ''Achieved TPS:    '' @ fmt_d (achieved_tps t) @ '' TPS'' @ ?after @
      ''SUCCESS (State Root Deterministic Across Swarm)'' @ [CHR 0x0A] @ double_rule"
    using ok unfolding out results_text_def by (simp add: nl_def)
  moreover have "achieved_tps t = t \<longleftrightarrow> in_int64 (10 * t)" by (rule achieved_is_target [OF assms])
  ultimately show "\<exists>before after. fst (experiment_main yaml read_file duration args) =
             before @ ''Achieved TPS:    '' @ fmt_d (achieved_tps t) @ '' TPS'' @ after @
             ''SUCCESS (State Root Deterministic Across Swarm)'' @ [CHR 0x0A] @ double_rule \<and>
           (achieved_tps t = t \<longleftrightarrow> in_int64 (10 * t))" by (intro exI conjI)
qed

definition sample_spec :: experiment_spec where
  "sample_spec = \<lparr>sp_version = ''1'', sp_experiment = \<lparr>xp_name = ''run'', xp_topology = ''mesh'', xp_total_nodes = 10,
     xp_target_tps = 5000, xp_consensus = ''raft'', xp_storage_backend = ''memory'',
     xp_chaos = \<lparr>ch_latency_ms = 50, ch_packet_loss = 0, ch_partition_nodes = 0\<rparr>\<rparr>\<rparr>"

theorem experiment_reports_the_target_witness:
  "\<exists>before after. fst (experiment_main (\<lambda>_. Inr sample_spec) (\<lambda>_. Inr []) 100000000 [''p'', ''s'']) =
     before @ ''Achieved TPS:    '' @ fmt_d 5000 @ '' TPS'' @ after"
proof -
  have t: "in_int64 5000" "in_int64 (10 * 5000)" by (simp_all add: int64_numerals)
  let ?out = "experiment_main (\<lambda>_. Inr sample_spec) (\<lambda>_. Inr []) 100000000 [''p'', ''s'']"
  have "\<exists>before after. fst ?out =
             before @ ''Achieved TPS:    '' @ fmt_d (achieved_tps 5000) @ '' TPS'' @ after @
             ''SUCCESS (State Root Deterministic Across Swarm)'' @ [CHR 0x0A] @ double_rule \<and> (achieved_tps 5000 = 5000 \<longleftrightarrow> in_int64 (10 * 5000))"
    by (rule conjunct2 [OF experiment_reports_the_target [OF t(1)], rule_format, where spec = sample_spec and data = "[]"])
      (simp add: sample_spec_def)
  then obtain before after where "fst ?out = before @ ''Achieved TPS:    '' @ fmt_d (achieved_tps 5000) @ '' TPS'' @ after"
      "achieved_tps 5000 = 5000 \<longleftrightarrow> in_int64 (10 * 5000)" by (elim exE conjE)
  with t(2) show ?thesis by metis
qed

text \<open>Formats on samples: the 100 ms of the program's sleep, and a packet loss of 5 per cent.\<close>

lemma format_samples:
  "duration_text 0 = ''0s''" "duration_text 100000000 = ''100ms''" "duration_text 3600000000000 = ''1h0m0s''"
proof -
  have p: "decimal_part 6 100000000 = []" "decimal_part 9 3600000000000 = []" by (rule decimal_part_exact, simp)+
  show "duration_text 0 = ''0s''" "duration_text 100000000 = ''100ms''" "duration_text 3600000000000 = ''1h0m0s''"
    by (simp_all add: duration_text_def with_unit_def p fmt_nat.simps digit_char_def char_of_def bit_0 Let_def)
qed

end
