(* ===== verification/Security.thy ===== *)
theory Security
  imports Sha256
begin

text \<open>
  \<^verbatim>\<open>core/security/authorization.go\<close>, \<^verbatim>\<open>core/security/identity.go\<close> and
  \<^verbatim>\<open>modules/security/identity.go\<close>: capabilities with an audit log, node identities, and the gate
  that checks peer certificates; and the counters of \<^verbatim>\<open>core/runtime/observability.go\<close>. Ed25519
  and X.509 are parameters.
\<close>

section \<open>Authorization\<close>

definition cap_state_write :: string where "cap_state_write = ''STATE_WRITE''"

definition cap_state_read :: string where "cap_state_read = ''STATE_READ''"

definition cap_admin_access :: string where "cap_admin_access = ''ADMIN_ACCESS''"

record audit_log_entry =
  al_timestamp :: int
  al_node_id :: string
  al_capability :: string
  al_action :: string
  al_allowed :: bool

record authorization_engine =
  capabilities :: "string \<rightharpoonup> (string \<rightharpoonup> bool)"
  audit_logs :: "audit_log_entry list"

definition new_authorization_engine :: authorization_engine where
  "new_authorization_engine = \<lparr>capabilities = Map.empty, audit_logs = []\<rparr>"

definition grant_capability :: "string \<Rightarrow> string \<Rightarrow> authorization_engine \<Rightarrow> authorization_engine" where
  "grant_capability nid cap ae =
     (let ae1 = (if capabilities ae nid = None then ae\<lparr>capabilities := (capabilities ae)(nid \<mapsto> Map.empty)\<rparr> else ae);
          caps = index_or Map.empty (capabilities ae1) nid
      in ae1\<lparr>capabilities := (capabilities ae1)(nid \<mapsto> caps(cap \<mapsto> True))\<rparr>)"

definition authorize :: "int \<Rightarrow> string \<Rightarrow> string \<Rightarrow> string \<Rightarrow> authorization_engine \<Rightarrow> authorization_engine \<times> bool" where
  "authorize now nid cap action ae =
     (let allowed = (case capabilities ae nid of None \<Rightarrow> False | Some caps \<Rightarrow> index_or False caps cap)
      in (ae\<lparr>audit_logs := audit_logs ae @ [\<lparr>al_timestamp = now, al_node_id = nid, al_capability = cap,
            al_action = action, al_allowed = allowed\<rparr>]\<rparr>, allowed))"

definition get_audit_logs :: "authorization_engine \<Rightarrow> audit_log_entry list" where
  "get_audit_logs ae = audit_logs ae"

datatype auth_event = Grant string string | Authorize int string string string

fun auth_step :: "authorization_engine \<Rightarrow> auth_event \<Rightarrow> authorization_engine" where
  "auth_step ae (Grant nid cap) = grant_capability nid cap ae"
| "auth_step ae (Authorize now nid cap action) = fst (authorize now nid cap action ae)"

definition holds_cap :: "authorization_engine \<Rightarrow> string \<Rightarrow> string \<Rightarrow> bool" where
  "holds_cap ae nid cap \<longleftrightarrow> (case capabilities ae nid of None \<Rightarrow> False | Some caps \<Rightarrow> index_or False caps cap)"

lemma holds_cap_grant: "holds_cap (grant_capability nid cap ae) n c \<longleftrightarrow> n = nid \<and> c = cap \<or> holds_cap ae n c"
  by (auto simp: holds_cap_def grant_capability_def index_or_def Let_def split: option.splits)

lemma holds_cap_authorize [simp]: "holds_cap (fst (authorize now nid cap action ae)) = holds_cap ae"
  by (simp add: holds_cap_def authorize_def Let_def fun_eq_iff)

lemma audit_logs_grant [simp]: "audit_logs (grant_capability nid cap ae) = audit_logs ae"
  by (simp add: grant_capability_def Let_def)

text \<open>The log a run must produce: one entry per decision, allowed exactly after a grant.\<close>

fun expected_log :: "(string \<times> string) set \<Rightarrow> auth_event list \<Rightarrow> audit_log_entry list" where
  "expected_log granted [] = []"
| "expected_log granted (Grant nid cap # evs) = expected_log (insert (nid, cap) granted) evs"
| "expected_log granted (Authorize now nid cap action # evs) =
     \<lparr>al_timestamp = now, al_node_id = nid, al_capability = cap, al_action = action,
      al_allowed = ((nid, cap) \<in> granted)\<rparr> # expected_log granted evs"

lemma audit_log_run:
  assumes "\<forall>n c. holds_cap ae n c \<longleftrightarrow> (n, c) \<in> granted"
  shows "audit_logs (foldl auth_step ae evs) = audit_logs ae @ expected_log granted evs \<and>
     (\<forall>n c. holds_cap (foldl auth_step ae evs) n c \<longleftrightarrow> (n, c) \<in> granted \<or> Grant n c \<in> set evs)"
  using assms
proof (induction evs arbitrary: ae granted)
  case Nil
  then show ?case by simp
next
  case (Cons ev evs)
  show ?case
  proof (cases ev)
    case (Grant nid cap)
    have "\<forall>n c. holds_cap (grant_capability nid cap ae) n c \<longleftrightarrow> (n, c) \<in> insert (nid, cap) granted"
      using Cons.prems by (auto simp: holds_cap_grant)
    from Cons.IH [OF this] Grant show ?thesis by auto
  next
    case (Authorize now nid cap action)
    have "\<forall>n c. holds_cap (fst (authorize now nid cap action ae)) n c \<longleftrightarrow> (n, c) \<in> granted"
      using Cons.prems by simp
    from Cons.IH [OF this] Authorize Cons.prems show ?thesis
      by (auto simp: authorize_def holds_cap_def Let_def)
  qed
qed

text \<open>
  After any sequence of grants and decisions the audit log has exactly one entry per decision,
  in order, and each decision, as well as the next one, is positive exactly when the capability
  had been granted to that node before: nothing else grants, nothing revokes, no decision goes
  unlogged.
\<close>

theorem authorization_is_audited:
  "get_audit_logs (foldl auth_step new_authorization_engine evs) = expected_log {} evs \<and>
   (snd (authorize now nid cap action (foldl auth_step new_authorization_engine evs)) \<longleftrightarrow> Grant nid cap \<in> set evs)"
proof -
  have "\<forall>n c. holds_cap new_authorization_engine n c \<longleftrightarrow> (n, c) \<in> {}"
    by (simp add: holds_cap_def new_authorization_engine_def)
  from audit_log_run [OF this, of evs]
  show ?thesis by (simp add: get_audit_logs_def new_authorization_engine_def authorize_def holds_cap_def Let_def)
qed

section \<open>Identities\<close>

record node_identity =
  ni_node_id :: string
  ni_public_key :: bytes
  ni_private_key :: bytes

definition generate_node_identity :: "(bytes \<times> bytes) result \<Rightarrow> node_identity result" where
  "generate_node_identity key_pair = (case key_pair of
      Inl err \<Rightarrow> Inl (WrapError ''failed to generate ed25519 keypair: '' err)
    | Inr (pub, priv) \<Rightarrow>
        (let hash = sha256 pub; nid = ''node_'' @ fmt_x (take 8 hash)
         in Inr \<lparr>ni_node_id = nid, ni_public_key = pub, ni_private_key = priv\<rparr>))"

definition sign_message :: "(bytes \<Rightarrow> bytes \<Rightarrow> bytes) \<Rightarrow> node_identity \<Rightarrow> bytes \<Rightarrow> bytes" where
  "sign_message sign ni msg = sign (ni_private_key ni) msg"

definition verify_message_signature :: "(bytes \<Rightarrow> bytes \<Rightarrow> bytes \<Rightarrow> bool) \<Rightarrow> bytes \<Rightarrow> bytes \<Rightarrow> bytes \<Rightarrow> bool" where
  "verify_message_signature verify pub msg sig = verify pub msg sig"

lemma generated_identity:
  assumes "generate_node_identity kp = Inr ni"
  shows "length (ni_node_id ni) = 21" and "has_prefix (ni_node_id ni) ''node_''"
  using assms by (auto simp: generate_node_identity_def has_prefix_def split: sum.splits prod.splits)

text \<open>The gate: \<open>'c\<close> is a parsed certificate, \<open>roots\<close> the pool of root certificates.\<close>

record 'c identity_gate =
  regulatory_root_cas :: "'c list"

definition new_identity_gate :: "'c \<Rightarrow> 'c identity_gate" where
  "new_identity_gate root_ca = \<lparr>regulatory_root_cas = [root_ca]\<rparr>"

definition verify_peer_certificate :: "(bytes \<Rightarrow> 'c result) \<Rightarrow> ('c list \<Rightarrow> 'c \<Rightarrow> go_error option) \<Rightarrow> 'c identity_gate
    \<Rightarrow> bytes list \<Rightarrow> go_error option" where
  "verify_peer_certificate parse verify g raw_certs =
     (if length raw_certs = 0 then Some (NewError ''SECURITY_FAULT: Anonymous connections strictly forbidden'')
      else case parse (raw_certs ! 0) of
          Inl err \<Rightarrow> Some (NewError (''SECURITY_FAULT: Malformed X.509 certificate: '' @ error_text err))
        | Inr cert \<Rightarrow> (case verify (regulatory_root_cas g) cert of
              Some err \<Rightarrow> Some (NewError (''JURISDICTION_VIOLATION: Peer holds unauthorized or counterfeit credentials: ''
                @ error_text err))
            | None \<Rightarrow> None))"

lemma gate_admits_iff:
  "verify_peer_certificate parse verify g raw = None \<longleftrightarrow>
     (\<exists>c cs cert. raw = c # cs \<and> parse c = Inr cert \<and> verify (regulatory_root_cas g) cert = None)"
  by (cases raw) (auto simp: verify_peer_certificate_def split: sum.splits option.splits)

section \<open>Counters\<close>

text \<open>The atomics are 64-bit words and wrap; a duration counts whole milliseconds, truncated towards zero.\<close>

record runtime_observability =
  tx_processed :: "64 word"
  latency_sum_ms :: "64 word"
  pprof_server :: "string option"

definition new_runtime_observability :: runtime_observability where
  "new_runtime_observability = \<lparr>tx_processed = 0, latency_sum_ms = 0, pprof_server = None\<rparr>"

text \<open>
  The profiling server by its address; what shutting a server down answers is the argument
  \<open>shutdown\<close>. A second start forgets the first server, which no later \<^verbatim>\<open>Stop\<close> reaches.
\<close>

definition start_pprof_server :: "string \<Rightarrow> runtime_observability \<Rightarrow> runtime_observability" where
  "start_pprof_server addr ro = ro\<lparr>pprof_server := Some addr\<rparr>"

definition stop_observability :: "(string \<Rightarrow> go_error option) \<Rightarrow> runtime_observability \<Rightarrow> go_error option" where
  "stop_observability shutdown ro = (case pprof_server ro of None \<Rightarrow> None | Some addr \<Rightarrow> shutdown addr)"

definition duration_ms :: "int \<Rightarrow> int" where
  "duration_ms ns = (if ns < 0 then - (- ns div 1000000) else ns div 1000000)"

definition record_execution :: "int \<Rightarrow> runtime_observability \<Rightarrow> runtime_observability" where
  "record_execution ns ro =
     (let ro1 = ro\<lparr>tx_processed := tx_processed ro + 1\<rparr>
      in ro1\<lparr>latency_sum_ms := latency_sum_ms ro1 + word_of_int (duration_ms ns)\<rparr>)"

definition get_metrics :: "runtime_observability \<Rightarrow> 64 word \<times> 64 word" where
  "get_metrics ro = (let count = tx_processed ro; total = latency_sum_ms ro
     in (count, if count > 0 then total div count else 0))"

lemma second_server_hides_first:
  "stop_observability shutdown (start_pprof_server b (start_pprof_server a ro)) = shutdown b"
  "get_metrics (start_pprof_server a ro) = get_metrics ro"
  by (simp_all add: stop_observability_def start_pprof_server_def get_metrics_def)

lemma recorded_counts:
  "tx_processed (foldl (\<lambda>ro ns. record_execution ns ro) ro durations) = tx_processed ro + of_nat (length durations) \<and>
   latency_sum_ms (foldl (\<lambda>ro ns. record_execution ns ro) ro durations) =
     latency_sum_ms ro + word_of_int (sum_list (map duration_ms durations))"
  by (induction durations arbitrary: ro) (simp_all add: record_execution_def Let_def algebra_simps)

text \<open>
  C32: While neither the number of recorded executions nor the sum of their milliseconds leaves 64
  bits, the metrics are that number and the whole average of the milliseconds; with no recorded
  execution the average is 0.
\<close>

theorem metrics_are_count_and_average:
  assumes "length durations < 2 ^ 64" and "\<forall>ns \<in> set durations. 0 \<le> ns"
    and "sum_list (map duration_ms durations) < 2 ^ 64"
  shows "get_metrics (foldl (\<lambda>ro ns. record_execution ns ro) new_runtime_observability durations) =
     (of_nat (length durations),
      if durations = [] then 0
      else word_of_int (sum_list (map duration_ms durations) div int (length durations)))"
proof -
  let ?n = "length durations" and ?s = "sum_list (map duration_ms durations)"
  have s: "0 \<le> ?s" using assms(2) by (intro sum_list_nonneg) (auto simp: duration_ms_def)
  have n: "uint (of_nat ?n :: 64 word) = int ?n"
    using assms(1) by (simp add: unsigned_of_nat take_bit_nat_eq_self)
  have t: "uint (word_of_int ?s :: 64 word) = ?s"
    using assms(3) s by (simp add: unsigned_of_int take_bit_int_eq_self)
  have "(0 :: 64 word) < of_nat ?n \<longleftrightarrow> durations \<noteq> []"
    using n by (simp add: word_less_def)
  moreover have "(word_of_int ?s :: 64 word) div of_nat ?n = word_of_int (?s div int ?n)"
    unfolding word_div_def n t ..
  ultimately show ?thesis
    using recorded_counts [of new_runtime_observability durations]
    by (simp add: get_metrics_def new_runtime_observability_def Let_def)
qed

theorem metrics_are_count_and_average_witness:
  "get_metrics (foldl (\<lambda>ro ns. record_execution ns ro) new_runtime_observability [3000000, 8999999]) = (2, 5)"
proof -
  have "length [3000000 :: int, 8999999] < 2 ^ 64" "\<forall>ns \<in> set [3000000 :: int, 8999999]. 0 \<le> ns"
    "sum_list (map duration_ms [3000000, 8999999]) < 2 ^ 64"
    by (simp_all add: duration_ms_def)
  from metrics_are_count_and_average [OF this] show ?thesis by (simp add: duration_ms_def)
qed

end
