(* ===== verification/SovereignMain.thy ===== *)
theory SovereignMain
  imports SovereignNode Security Registries
begin

text \<open>
  \<^verbatim>\<open>cmd/sovereign/main.go\<close> as a whole: the root certificate it makes for itself, the gate, the node,
  the ledger and what it prints; and \<^verbatim>\<open>core/types/metrics.go\<close>, the counters a process registers.
  Key generation, X.509 and the Prometheus registry are parameters.
\<close>

section \<open>The root certificate\<close>

text \<open>The template as the source fills it; a field that is not set has its zero value.\<close>

record cert_template =
  ct_serial :: int
  ct_organization :: "string list"
  ct_not_before :: int
  ct_not_after :: int
  ct_key_usage :: "string list"
  ct_is_ca :: bool
  ct_constraints_valid :: bool

definition root_template :: "int \<Rightarrow> int \<Rightarrow> cert_template" where
  "root_template now now' = \<lparr>ct_serial = 1, ct_organization = [''Sovereign DevNet Authority''], ct_not_before = now,
     ct_not_after = now' + 24 * 3600 * 10 ^ 9, ct_key_usage = [''DigitalSignature'', ''CertSign''],
     ct_is_ca = True, ct_constraints_valid = False\<rparr>"

text \<open>
  All errors are dropped. Without a key the address of its public part is a nil dereference, without a
  certificate the gate is given nil.
\<close>

record ('k, 'c) x509_lib =
  xl_generate_key :: "int \<Rightarrow> 'k result"
  xl_create :: "cert_template \<Rightarrow> cert_template \<Rightarrow> 'k \<Rightarrow> bytes result"
  xl_parse :: "bytes \<Rightarrow> 'c result"

definition generate_dev_root_ca :: "('k, 'c) x509_lib \<Rightarrow> int \<Rightarrow> int \<Rightarrow> 'c option go_call" where
  "generate_dev_root_ca xl now now' = (case xl_generate_key xl 2048 of
      Inl _ \<Rightarrow> Panic
    | Inr key \<Rightarrow>
        (let template = root_template now now';
             der_bytes = (case xl_create xl template template key of Inl _ \<Rightarrow> [] | Inr der \<Rightarrow> der)
         in Return (case xl_parse xl der_bytes of Inl _ \<Rightarrow> None | Inr cert \<Rightarrow> Some cert)))"

section \<open>The program\<close>

definition newline :: string where "newline = [CHR 0x0A]"

definition banner :: string where
  "banner = replicate 50 (CHR ''='') @ newline @ ''  '' @ [CHR 0xF0, CHR 0x9F, CHR 0x8F, CHR 0x9B, CHR 0xEF, CHR 0xB8, CHR 0x8F]
     @ ''  SOVEREIGN RUNTIME 1.0 - GULF ENTERPRISE   '' @ newline @ replicate 50 (CHR ''='') @ newline"

definition boot_text :: "string \<Rightarrow> string" where
  "boot_text jurisdiction = banner @ ''[Security] mTLS Identity Gate Initialized. Root CA locked.'' @ newline
     @ ''[Privacy] Jurisdiction Vault mounted for: '' @ jurisdiction @ newline
     @ ''[Telemetry] Asynchronous ZK Prover Pipeline active (2 workers).'' @ newline
     @ ''[Execution] Sovereign Router booted. RWA Ledger plugin loaded.'' @ newline
     @ newline @ [CHR 0xF0, CHR 0x9F, CHR 0x9A, CHR 0x80] @ '' Node is actively listening for consensus events...'' @ newline"

definition shutdown_text :: string where
  "shutdown_text = newline @ ''[System] Committing state and gracefully shutting down Sovereign Node...'' @ newline"

record ('n, 'c) sovereign_process =
  sp_gate :: "'c identity_gate"
  sp_node :: "'n sovereign_node"
  sp_ledger :: ledger
  sp_output :: string

text \<open>\<^verbatim>\<open>AddCert\<close> panics on nil.\<close>

definition sovereign_boot :: "('k, 'c) x509_lib \<Rightarrow> int \<Rightarrow> int \<Rightarrow> string \<Rightarrow> 'n \<Rightarrow> ('n, 'c) sovereign_process go_call" where
  "sovereign_boot xl now now' env net = (case generate_dev_root_ca xl now now' of
      Return (Some root_ca) \<Rightarrow> Return \<lparr>sp_gate = new_identity_gate root_ca, sp_node = boot_node env net, sp_ledger = new_ledger,
        sp_output = boot_text (boot_jurisdiction env)\<rparr>
    | _ \<Rightarrow> Panic)"

text \<open>An interrupt or a termination ends the program with a message.\<close>

definition sovereign_shutdown :: "('n, 'c) sovereign_process \<Rightarrow> ('n, 'c) sovereign_process" where
  "sovereign_shutdown p = p\<lparr>sp_output := sp_output p @ shutdown_text\<rparr>"

section \<open>Whom the gate admits\<close>

text \<open>
  What \<^verbatim>\<open>crypto/x509\<close> documents: a created certificate is marked as an authority only if the template
  says that its basic constraints are valid; verification accepts a certificate that is itself in the
  pool, and others only by a chain that ends in an authority of the pool.
\<close>

definition x509_laws :: "('k, 'c) x509_lib \<Rightarrow> ('c list \<Rightarrow> 'c \<Rightarrow> go_error option) \<Rightarrow> ('c \<Rightarrow> bool) \<Rightarrow> bool" where
  "x509_laws xl verify authority \<longleftrightarrow>
     (\<forall>template parent key der cert. xl_create xl template parent key = Inr der \<longrightarrow> xl_parse xl der = Inr cert \<longrightarrow>
        authority cert = (ct_is_ca template \<and> ct_constraints_valid template)) \<and>
     (\<forall>roots cert. verify roots cert = None \<longrightarrow> cert \<in> set roots \<or> (\<exists>root \<in> set roots. authority root))"

text \<open>
  The gate of the program admits nobody. The root certificate is marked as an authority without its
  basic constraints being declared valid, so it is none; the only certificate that passes the gate
  is the root itself, whose private key no longer exists when the gate is built.
\<close>

theorem dev_gate_admits_only_the_root:
  assumes "x509_laws xl verify authority" and "\<forall>cert. xl_parse xl [] \<noteq> Inr cert"
    and "sovereign_boot xl now now' env net = Return p"
  shows "\<exists>root_ca. regulatory_root_cas (sp_gate p) = [root_ca] \<and>
     (verify_peer_certificate (xl_parse xl) verify (sp_gate p) raw = None \<longrightarrow>
        (\<exists>der rest. raw = der # rest \<and> xl_parse xl der = Inr root_ca))"
proof -
  obtain root_ca where ca: "generate_dev_root_ca xl now now' = Return (Some root_ca)" "regulatory_root_cas (sp_gate p) = [root_ca]"
    using assms(3) by (auto simp: sovereign_boot_def new_identity_gate_def split: go_call.splits option.splits)
  obtain key der where "xl_create xl (root_template now now') (root_template now now') key = Inr der" "xl_parse xl der = Inr root_ca"
    using ca(1) assms(2) by (auto simp: generate_dev_root_ca_def Let_def split: sum.splits)
  then have "authority root_ca = (ct_is_ca (root_template now now') \<and> ct_constraints_valid (root_template now now'))"
    using assms(1) unfolding x509_laws_def by blast
  then have no: "\<not> authority root_ca" by (simp add: root_template_def)
  have "cert = root_ca" if "verify [root_ca] cert = None" for cert
  proof -
    have "cert \<in> set [root_ca] \<or> (\<exists>root \<in> set [root_ca]. authority root)" using assms(1) that unfolding x509_laws_def by blast
    with no show ?thesis by simp
  qed
  then show ?thesis using ca(2) gate_admits_iff [of "xl_parse xl" verify "sp_gate p" raw] by auto
qed

section \<open>The counters of the process\<close>

record counter_opts =
  co_name :: string
  co_help :: string

definition blocks_mined_total :: counter_opts where
  "blocks_mined_total = \<lparr>co_name = ''sovereign_blocks_mined_total'', co_help = ''Total blocks successfully mined.''\<rparr>"

definition blocks_failed_total :: counter_opts where
  "blocks_failed_total = \<lparr>co_name = ''sovereign_blocks_failed_total'', co_help = ''Total blocks failed mining.''\<rparr>"

definition tx_processed_total :: counter_opts where
  "tx_processed_total = \<lparr>co_name = ''sovereign_txs_processed_total'', co_help = ''Total transactions processed.''\<rparr>"

text \<open>\<^verbatim>\<open>init\<close> registers them in order; \<^verbatim>\<open>MustRegister\<close> panics when the registry refuses.\<close>

fun must_register :: "('g \<Rightarrow> counter_opts \<Rightarrow> 'g result) \<Rightarrow> counter_opts list \<Rightarrow> 'g \<Rightarrow> 'g go_call" where
  "must_register register [] g = Return g"
| "must_register register (c # cs) g = (case register g c of Inl _ \<Rightarrow> Panic | Inr g' \<Rightarrow> must_register register cs g')"

definition init_metrics :: "('g \<Rightarrow> counter_opts \<Rightarrow> 'g result) \<Rightarrow> 'g \<Rightarrow> 'g go_call" where
  "init_metrics register g = must_register register [blocks_mined_total, blocks_failed_total, tx_processed_total] g"

text \<open>A registry refuses a name it has and takes any other.\<close>

definition registry_laws :: "('g \<Rightarrow> counter_opts \<Rightarrow> 'g result) \<Rightarrow> ('g \<Rightarrow> string set) \<Rightarrow> bool" where
  "registry_laws register names \<longleftrightarrow> (\<forall>g c. if co_name c \<in> names g then \<exists>err. register g c = Inl err
     else \<exists>g'. register g c = Inr g' \<and> names g' = insert (co_name c) (names g))"

lemma must_register_distinct:
  assumes "registry_laws register names"
  shows "distinct (map co_name cs) \<Longrightarrow> set (map co_name cs) \<inter> names g = {} \<Longrightarrow>
     \<exists>g'. must_register register cs g = Return g' \<and> names g' = names g \<union> set (map co_name cs)"
proof (induction cs arbitrary: g)
  case (Cons c cs)
  then have "co_name c \<notin> names g" by simp
  then obtain g1 where g1: "register g c = Inr g1" "names g1 = insert (co_name c) (names g)"
    using assms [unfolded registry_laws_def, THEN spec [of _ g], THEN spec [of _ c]] by (simp only: if_False) (elim exE conjE)
  have "set (map co_name cs) \<inter> names g1 = {}" using Cons.prems g1(2) by auto
  from Cons.IH [OF _ this] Cons.prems(1) g1(2) have
    "\<exists>g'. must_register register cs g1 = Return g' \<and> names g' = names g \<union> set (map co_name (c # cs))" by simp
  then show ?case by (simp add: g1(1))
qed simp

text \<open>
  Starting the process registers the three counters on a new registry without a panic; doing it
  again on the same registry panics.
\<close>

theorem init_metrics_once:
  assumes "registry_laws register names" and "names g = {}"
  shows "\<exists>g'. init_metrics register g = Return g' \<and>
     names g' = {''sovereign_blocks_mined_total'', ''sovereign_blocks_failed_total'', ''sovereign_txs_processed_total''} \<and>
     init_metrics register g' = Panic"
proof -
  let ?cs = "[blocks_mined_total, blocks_failed_total, tx_processed_total]"
  note defs = blocks_mined_total_def blocks_failed_total_def tx_processed_total_def
  have "distinct (map co_name ?cs)" by (simp add: defs)
  moreover have "set (map co_name ?cs) \<inter> names g = {}" unfolding assms(2) by (rule Int_empty_right)
  ultimately have "\<exists>g'. must_register register ?cs g = Return g' \<and> names g' = names g \<union> set (map co_name ?cs)"
    by (rule must_register_distinct [OF assms(1)])
  then obtain g' where g': "init_metrics register g = Return g'" "names g' = set (map co_name ?cs)"
    unfolding init_metrics_def assms(2) Un_empty_left by (elim exE conjE)
  have "co_name blocks_mined_total \<in> names g'" unfolding g'(2) list.map by (rule list.set_intros)
  then obtain err where "register g' blocks_mined_total = Inl err"
    using assms(1) [unfolded registry_laws_def, THEN spec [of _ g'], THEN spec [of _ blocks_mined_total]]
    by (simp only: if_True) (elim exE)
  then have "init_metrics register g' = Panic" by (simp add: init_metrics_def)
  moreover have "names g' = {''sovereign_blocks_mined_total'', ''sovereign_blocks_failed_total'', ''sovereign_txs_processed_total''}"
    unfolding g'(2) by (simp add: defs)
  ultimately show ?thesis using g'(1) by (intro exI conjI)
qed

section \<open>Samples\<close>

text \<open>A certificate is whether it is an authority; its bytes say so.\<close>

definition sample_x509 :: "(unit, bool) x509_lib" where
  "sample_x509 = \<lparr>xl_generate_key = (\<lambda>_. Inr ()),
     xl_create = (\<lambda>template _ _. Inr (if ct_is_ca template \<and> ct_constraints_valid template then ''ca'' else ''leaf'')),
     xl_parse = (\<lambda>der. if der = [] then Inl (NewError ''malformed'') else Inr (der = ''ca''))\<rparr>"

definition sample_verify :: "bool list \<Rightarrow> bool \<Rightarrow> go_error option" where
  "sample_verify roots cert = (if cert \<in> set roots \<or> True \<in> set roots then None else Some (NewError ''unknown authority''))"

theorem dev_gate_admits_only_the_root_witness:
  "\<exists>p. sovereign_boot sample_x509 0 0 [] () = Return p \<and> regulatory_root_cas (sp_gate p) = [False] \<and>
     verify_peer_certificate (xl_parse sample_x509) sample_verify (sp_gate p) [''ca''] \<noteq> None"
proof -
  have laws: "x509_laws sample_x509 sample_verify (\<lambda>c. c)"
    by (auto simp: x509_laws_def sample_x509_def sample_verify_def split: if_splits)
  have nil: "\<forall>cert. xl_parse sample_x509 [] \<noteq> Inr cert" by (simp add: sample_x509_def)
  obtain p where p: "sovereign_boot sample_x509 0 0 [] () = Return p" "regulatory_root_cas (sp_gate p) = [False]"
    by (simp add: sovereign_boot_def generate_dev_root_ca_def sample_x509_def root_template_def new_identity_gate_def)
  from dev_gate_admits_only_the_root [OF laws nil p(1), of "[''ca'']"] p show ?thesis by (auto simp: sample_x509_def)
qed

theorem init_metrics_once_witness:
  "init_metrics (\<lambda>g c. if co_name c \<in> set g then Inl (NewError ''duplicate'') else Inr (co_name c # g)) [] \<noteq> Panic"
proof -
  let ?register = "\<lambda>g c. if co_name c \<in> set g then Inl (NewError ''duplicate'') else Inr (co_name c # g)"
  have "registry_laws ?register set" by (simp add: registry_laws_def)
  from init_metrics_once [OF this, of "[]"] show ?thesis by fastforce
qed

end
