(* ===== verification/Scheduler.thy ===== *)
theory Scheduler
  imports Prelude
begin

text \<open>
  \<^verbatim>\<open>core/runtime/scheduler.go\<close>: a table of intervals by name and one goroutine per call of
  \<^verbatim>\<open>ScheduleRecurring\<close>, each with a ticker whose channel holds one tick. The goroutines are the
  workers of a step relation; a task is run by its worker and the next tick is taken only
  afterwards, so that running it is one step.
\<close>

section \<open>State and operations\<close>

datatype worker_pc = Starting | Waiting | Ended

record worker =
  wk_name :: string
  wk_interval :: int
  wk_pc :: worker_pc
  wk_tick :: bool

record scheduler =
  tasks :: "string \<rightharpoonup> int"
  stop_ch_closed :: bool

text \<open>The scheduler with its goroutines, in the order in which they were started.\<close>

record sched_system =
  sched :: scheduler
  workers :: "worker list"
  cancelled :: "nat set"
  crashed :: bool

definition new_scheduler :: scheduler where
  "new_scheduler = \<lparr>tasks = Map.empty, stop_ch_closed = False\<rparr>"

definition schedule_recurring :: "string \<Rightarrow> int \<Rightarrow> sched_system \<Rightarrow> sched_system" where
  "schedule_recurring name interval s = s\<lparr>sched := (sched s)\<lparr>tasks := (tasks (sched s))(name \<mapsto> interval)\<rparr>,
     workers := workers s @ [\<lparr>wk_name = name, wk_interval = interval, wk_pc = Starting, wk_tick = False\<rparr>]\<rparr>"

definition stop_scheduler :: "scheduler \<Rightarrow> scheduler" where
  "stop_scheduler sc = (if stop_ch_closed sc then sc else sc\<lparr>stop_ch_closed := True\<rparr>)"

definition set_worker :: "nat \<Rightarrow> worker \<Rightarrow> sched_system \<Rightarrow> sched_system" where
  "set_worker i w s = s\<lparr>workers := (workers s)[i := w]\<rparr>"

section \<open>The goroutines\<close>

text \<open>
  \<open>Run i\<close> is a call of the task of worker \<open>i\<close>. A ticker of a non-positive interval panics, which
  ends the program; a tick is dropped while one is waiting; \<^verbatim>\<open>select\<close> takes any ready branch, so
  that a waiting tick may still be served after the stop.
\<close>

datatype sched_event = Schedule string int | Stop | Cancel nat | Begin nat | TickerFires nat | Run nat | Exit nat

inductive sched_step :: "sched_system \<Rightarrow> sched_event \<Rightarrow> sched_system \<Rightarrow> bool" where
  schedule: "\<not> crashed s \<Longrightarrow> sched_step s (Schedule name interval) (schedule_recurring name interval s)"
| stop: "\<not> crashed s \<Longrightarrow> sched_step s Stop (s\<lparr>sched := stop_scheduler (sched s)\<rparr>)"
| cancel: "\<not> crashed s \<Longrightarrow> sched_step s (Cancel i) (s\<lparr>cancelled := insert i (cancelled s)\<rparr>)"
| begin_worker: "\<not> crashed s \<Longrightarrow> i < length (workers s) \<Longrightarrow> w = workers s ! i \<Longrightarrow> wk_pc w = Starting \<Longrightarrow> 0 < wk_interval w \<Longrightarrow>
    sched_step s (Begin i) (set_worker i (w\<lparr>wk_pc := Waiting\<rparr>) s)"
| begin_panics: "\<not> crashed s \<Longrightarrow> i < length (workers s) \<Longrightarrow> w = workers s ! i \<Longrightarrow> wk_pc w = Starting \<Longrightarrow> wk_interval w \<le> 0 \<Longrightarrow>
    sched_step s (Begin i) (s\<lparr>crashed := True\<rparr>)"
| ticker_fires: "\<not> crashed s \<Longrightarrow> i < length (workers s) \<Longrightarrow> w = workers s ! i \<Longrightarrow> wk_pc w = Waiting \<Longrightarrow>
    sched_step s (TickerFires i) (set_worker i (w\<lparr>wk_tick := True\<rparr>) s)"
| run: "\<not> crashed s \<Longrightarrow> i < length (workers s) \<Longrightarrow> w = workers s ! i \<Longrightarrow> wk_pc w = Waiting \<Longrightarrow> wk_tick w \<Longrightarrow>
    sched_step s (Run i) (set_worker i (w\<lparr>wk_tick := False\<rparr>) s)"
| exit: "\<not> crashed s \<Longrightarrow> i < length (workers s) \<Longrightarrow> w = workers s ! i \<Longrightarrow> wk_pc w = Waiting \<Longrightarrow>
    stop_ch_closed (sched s) \<or> i \<in> cancelled s \<Longrightarrow>
    sched_step s (Exit i) (set_worker i (w\<lparr>wk_pc := Ended, wk_tick := False\<rparr>) s)"

inductive sched_run :: "sched_system \<Rightarrow> sched_event list \<Rightarrow> sched_system \<Rightarrow> bool" where
  run_nil: "sched_run s [] s"
| run_snoc: "sched_run s evs s' \<Longrightarrow> sched_step s' ev s'' \<Longrightarrow> sched_run s (evs @ [ev]) s''"

inductive_simps sched_step_Run: "sched_step s (Run i) s'"
inductive_simps sched_step_Exit: "sched_step s (Exit i) s'"

definition new_system :: sched_system where
  "new_system = \<lparr>sched = new_scheduler, workers = [], cancelled = {}, crashed = False\<rparr>"

section \<open>What a run shows\<close>

definition scheduled :: "sched_event list \<Rightarrow> (string \<times> int) list" where
  "scheduled evs = concat (map (\<lambda>ev. case ev of Schedule n i \<Rightarrow> [(n, i)] | _ \<Rightarrow> []) evs)"

lemma scheduled_snoc: "scheduled (evs @ [ev]) = scheduled evs @ (case ev of Schedule n i \<Rightarrow> [(n, i)] | _ \<Rightarrow> [])"
  by (simp add: scheduled_def)

lemma set_worker_sel [simp]:
  "sched (set_worker i w s) = sched s" "workers (set_worker i w s) = (workers s)[i := w]"
  "cancelled (set_worker i w s) = cancelled s" "crashed (set_worker i w s) = crashed s"
  by (simp_all add: set_worker_def)

lemma schedule_sel [simp]:
  "workers (schedule_recurring n v s) = workers s @ [\<lparr>wk_name = n, wk_interval = v, wk_pc = Starting, wk_tick = False\<rparr>]"
  "tasks (sched (schedule_recurring n v s)) = (tasks (sched s))(n \<mapsto> v)"
  "stop_ch_closed (sched (schedule_recurring n v s)) = stop_ch_closed (sched s)"
  "cancelled (schedule_recurring n v s) = cancelled s" "crashed (schedule_recurring n v s) = crashed s"
  by (simp_all add: schedule_recurring_def)

lemma stop_scheduler_sel [simp]:
  "tasks (stop_scheduler sc) = tasks sc" "stop_ch_closed (stop_scheduler sc)"
  by (simp_all add: stop_scheduler_def)

lemma map_upd_same: "i < length xs \<Longrightarrow> f y = f (xs ! i) \<Longrightarrow> map f (xs[i := y]) = map f xs"
  by (simp add: map_update list_update_same_conv)

lemma workers_are_calls:
  "sched_run s evs s' \<Longrightarrow> s = new_system \<Longrightarrow>
     map (\<lambda>w. (wk_name w, wk_interval w)) (workers s') = scheduled evs \<and> tasks (sched s') = map_of (rev (scheduled evs))"
proof (induction rule: sched_run.induct)
  case (run_nil s)
  then show ?case by (simp add: new_system_def new_scheduler_def scheduled_def)
next
  case (run_snoc s evs s' ev s'')
  from run_snoc.hyps(2) run_snoc.IH run_snoc.prems show ?case
    by (induction rule: sched_step.induct) (auto simp: scheduled_snoc map_upd_same)
qed

text \<open>Ticks come first: between two runs of a worker its ticker has fired.\<close>

definition count_events :: "sched_event \<Rightarrow> sched_event list \<Rightarrow> nat" where
  "count_events ev evs = length (filter (\<lambda>e. e = ev) evs)"

lemma count_events_snoc: "count_events ev (evs @ [e]) = count_events ev evs + (if e = ev then 1 else 0)"
  by (simp add: count_events_def)

definition tick_waits :: "sched_system \<Rightarrow> nat \<Rightarrow> nat" where
  "tick_waits s i = (if i < length (workers s) \<and> wk_tick (workers s ! i) then 1 else 0)"

lemma runs_need_ticks:
  "sched_run s evs s' \<Longrightarrow> s = new_system \<Longrightarrow> count_events (Run i) evs + tick_waits s' i \<le> count_events (TickerFires i) evs"
proof (induction rule: sched_run.induct)
  case (run_nil s)
  then show ?case by (simp add: new_system_def count_events_def tick_waits_def)
next
  case (run_snoc s evs s' ev s'')
  then have "count_events (Run i) evs + tick_waits s' i \<le> count_events (TickerFires i) evs" by simp
  with run_snoc.hyps(2) show ?case
    by (induction rule: sched_step.induct)
       (auto simp: count_events_snoc tick_waits_def nth_list_update nth_append split: if_splits)
qed

text \<open>The flag that a tick waits belongs to a waiting worker only.\<close>

lemma ended_stays:
  assumes "sched_step s ev s'" and "i < length (workers s)" and "wk_pc (workers s ! i) = Ended"
  shows "i < length (workers s') \<and> wk_pc (workers s' ! i) = Ended \<and> ev \<noteq> Run i"
  using assms by (induction rule: sched_step.induct) (auto simp: nth_list_update nth_append)

text \<open>A run from any state, for the time after a worker has ended.\<close>

lemma no_run_after_end:
  "sched_run s evs s' \<Longrightarrow> i < length (workers s) \<and> wk_pc (workers s ! i) = Ended \<Longrightarrow>
     Run i \<notin> set evs \<and> i < length (workers s') \<and> wk_pc (workers s' ! i) = Ended"
proof (induction rule: sched_run.induct)
  case (run_snoc s evs s' ev s'')
  then show ?case using ended_stays [OF run_snoc.hyps(2), of i] by auto
qed simp

text \<open>
  C30: Every call of ScheduleRecurring starts a goroutine of its own, also for a name that is taken,
  while the table keeps the interval of the last call only; a task runs at most once for each
  time its ticker fired, ticks that come while one waits being dropped; and a worker that has
  ended never runs again.
\<close>

theorem scheduler_run:
  assumes "sched_run new_system evs s"
  shows "map (\<lambda>w. (wk_name w, wk_interval w)) (workers s) = scheduled evs \<and>
     tasks (sched s) = map_of (rev (scheduled evs)) \<and>
     (\<forall>i. count_events (Run i) evs \<le> count_events (TickerFires i) evs) \<and>
     (\<forall>i < length (workers s). wk_pc (workers s ! i) = Ended \<longrightarrow>
        (\<forall>evs' s'. sched_run s evs' s' \<longrightarrow> Run i \<notin> set evs'))"
  using workers_are_calls [OF assms refl] runs_need_ticks [OF assms refl] no_run_after_end
  by (auto intro: add_leD1)

text \<open>
  Stop closes the channel once, however often it is called. From then on a waiting worker may
  end at any time; but as select chooses among the ready branches, a worker whose tick waits may
  still run its task after the stop.
\<close>

theorem scheduler_stop:
  assumes "sched_run new_system evs s" and "Stop \<in> set evs" and "\<not> crashed s" and "i < length (workers s)"
    and "wk_pc (workers s ! i) = Waiting"
  shows "stop_ch_closed (sched s) \<and> stop_scheduler (sched s) = sched s \<and>
     (\<exists>s'. sched_step s (Exit i) s' \<and> wk_pc (workers s' ! i) = Ended) \<and>
     ((\<exists>s'. sched_step s (Run i) s') \<longleftrightarrow> wk_tick (workers s ! i))"
proof -
  have "sched_run t evs s \<Longrightarrow> Stop \<in> set evs \<Longrightarrow> stop_ch_closed (sched s)" for t
  proof (induction rule: sched_run.induct)
    case (run_snoc s evs s' ev s'')
    from run_snoc.hyps(2) run_snoc.prems run_snoc.IH show ?case by (induction rule: sched_step.induct) auto
  qed simp
  then have closed: "stop_ch_closed (sched s)" using assms(1,2) by blast
  then show ?thesis using assms(3-5)
    by (auto simp: sched_step_Run sched_step_Exit stop_scheduler_def)
qed

text \<open>A name scheduled twice, and a task served after the stop.\<close>

lemma sample_sched_run:
  "\<exists>s. sched_run new_system [Schedule ''gc'' 5, Schedule ''gc'' 7, Begin 0, TickerFires 0, Run 0, TickerFires 0, Stop] s \<and>
     length (workers s) = 2 \<and> wk_pc (workers s ! 0) = Waiting \<and> wk_tick (workers s ! 0) \<and> \<not> crashed s"
proof -
  let ?s1 = "schedule_recurring ''gc'' 5 new_system"
  let ?s2 = "schedule_recurring ''gc'' 7 ?s1"
  let ?w = "workers ?s2 ! 0"
  let ?s3 = "set_worker 0 (?w\<lparr>wk_pc := Waiting\<rparr>) ?s2"
  let ?s4 = "set_worker 0 ((workers ?s3 ! 0)\<lparr>wk_tick := True\<rparr>) ?s3"
  let ?s5 = "set_worker 0 ((workers ?s4 ! 0)\<lparr>wk_tick := False\<rparr>) ?s4"
  let ?s6 = "set_worker 0 ((workers ?s5 ! 0)\<lparr>wk_tick := True\<rparr>) ?s5"
  let ?s7 = "?s6\<lparr>sched := stop_scheduler (sched ?s6)\<rparr>"
  have base: "\<not> crashed new_system" "workers new_system = []" by (simp_all add: new_system_def)
  have "sched_run new_system [Schedule ''gc'' 5] ?s1"
    using run_snoc [OF run_nil sched_step.schedule [of new_system]] base by simp
  from run_snoc [OF this sched_step.schedule, of "''gc''" 7]
  have "sched_run new_system [Schedule ''gc'' 5, Schedule ''gc'' 7] ?s2" by (simp add: base)
  from run_snoc [OF this sched_step.begin_worker, of 0 ?w]
  have "sched_run new_system [Schedule ''gc'' 5, Schedule ''gc'' 7, Begin 0] ?s3" by (simp add: base)
  from run_snoc [OF this sched_step.ticker_fires, of 0 "workers ?s3 ! 0"]
  have "sched_run new_system [Schedule ''gc'' 5, Schedule ''gc'' 7, Begin 0, TickerFires 0] ?s4" by (simp add: base)
  from run_snoc [OF this sched_step.run, of 0 "workers ?s4 ! 0"]
  have "sched_run new_system [Schedule ''gc'' 5, Schedule ''gc'' 7, Begin 0, TickerFires 0, Run 0] ?s5" by (simp add: base)
  from run_snoc [OF this sched_step.ticker_fires, of 0 "workers ?s5 ! 0"]
  have "sched_run new_system [Schedule ''gc'' 5, Schedule ''gc'' 7, Begin 0, TickerFires 0, Run 0, TickerFires 0] ?s6"
    by (simp add: base)
  from run_snoc [OF this sched_step.stop]
  have "sched_run new_system [Schedule ''gc'' 5, Schedule ''gc'' 7, Begin 0, TickerFires 0, Run 0, TickerFires 0, Stop] ?s7"
    by (simp add: base)
  then show ?thesis by (intro exI [of _ ?s7]) (simp add: base)
qed

theorem scheduler_run_witness:
  "\<exists>s. sched_run new_system [Schedule ''gc'' 5, Schedule ''gc'' 7, Begin 0, TickerFires 0, Run 0, TickerFires 0, Stop] s \<and>
     map wk_interval (workers s) = [5, 7] \<and> tasks (sched s) ''gc'' = Some 7"
proof -
  let ?evs = "[Schedule ''gc'' 5, Schedule ''gc'' 7, Begin 0, TickerFires 0, Run 0, TickerFires 0, Stop]"
  obtain s where run: "sched_run new_system ?evs s" using sample_sched_run by blast
  from scheduler_run [OF this]
  have calls: "map (\<lambda>w. (wk_name w, wk_interval w)) (workers s) = [(''gc'', 5), (''gc'', 7)]"
    and tasks: "tasks (sched s) ''gc'' = Some 7" by (simp_all add: scheduled_def)
  from arg_cong [OF calls, of "map snd"] have "map wk_interval (workers s) = [5, 7]" by (simp add: comp_def)
  then show ?thesis using run tasks by (intro exI [of _ s] conjI)
qed

theorem scheduler_stop_witness:
  "\<exists>s. stop_ch_closed (sched s) \<and> (\<exists>s'. sched_step s (Run 0) s') \<and> (\<exists>s'. sched_step s (Exit 0) s')"
proof -
  let ?evs = "[Schedule ''gc'' 5, Schedule ''gc'' 7, Begin 0, TickerFires 0, Run 0, TickerFires 0, Stop]"
  obtain s where run: "sched_run new_system ?evs s" and s: "length (workers s) = 2" "wk_pc (workers s ! 0) = Waiting"
    "wk_tick (workers s ! 0)" "\<not> crashed s"
    using sample_sched_run by blast
  have "Stop \<in> set ?evs" "0 < length (workers s)" using s(1) by simp_all
  from scheduler_stop [OF run this(1) s(4) this(2) s(2)] s(3) show ?thesis by blast
qed

end
