(* ===== verification/EventBus.thy ===== *)
theory EventBus
  imports Prelude
begin

text \<open>
  \<^verbatim>\<open>core/runtime/eventbus.go\<close>: subscribers by event type, each a buffered channel. A subscription is
  named by its type and its position in that type's list. A payload is an arbitrary value.
\<close>

section \<open>State and operations\<close>

record 'p event =
  ev_type :: string
  ev_emitter :: string
  ev_payload :: 'p

record 'p event_bus =
  subscribers :: "string \<rightharpoonup> 'p event chan list"

definition event_types :: "string list" where
  "event_types = [''SERVICE_STARTED'', ''SERVICE_STOPPED'', ''STATE_COMMITTED'', ''CONSENSUS_PROPOSED'', ''FAULT_INJECTED'']"

definition new_event_bus :: "'p event_bus" where
  "new_event_bus = \<lparr>subscribers = Map.empty\<rparr>"

definition subscribe :: "string \<Rightarrow> 'p event_bus \<Rightarrow> 'p event_bus \<times> nat" where
  "subscribe t eb = (let chs = index_or [] (subscribers eb) t
     in (eb\<lparr>subscribers := (subscribers eb)(t \<mapsto> chs @ [make_chan 100])\<rparr>, length chs))"

definition publish :: "'p event \<Rightarrow> 'p event_bus \<Rightarrow> 'p event_bus" where
  "publish e eb = (case subscribers eb (ev_type e) of
      None \<Rightarrow> eb
    | Some chs \<Rightarrow> eb\<lparr>subscribers := (subscribers eb)(ev_type e \<mapsto> map (\<lambda>ch. try_send ch e) chs)\<rparr>)"

text \<open>A subscriber takes the next event of its channel.\<close>

definition take_event :: "string \<Rightarrow> nat \<Rightarrow> 'p event_bus \<Rightarrow> ('p event \<times> 'p event_bus) option" where
  "take_event t i eb = (let chs = index_or [] (subscribers eb) t
     in if i < length chs then
          (case recv (chs ! i) of
             None \<Rightarrow> None
           | Some (e, ch) \<Rightarrow> Some (e, eb\<lparr>subscribers := (subscribers eb)(t \<mapsto> chs[i := ch])\<rparr>))
        else None)"

section \<open>What a subscription sees\<close>

definition subscription :: "string \<Rightarrow> nat \<Rightarrow> 'p event_bus \<Rightarrow> 'p event chan option" where
  "subscription t i eb = (let chs = index_or [] (subscribers eb) t in if i < length chs then Some (chs ! i) else None)"

lemma index_or_upd: "index_or d (m(k \<mapsto> v)) k' = (if k' = k then v else index_or d m k')"
  by (simp add: index_or_def)

lemma subscription_subscribe:
  "subscription t i (fst (subscribe t' eb)) =
     (if t = t' \<and> i = snd (subscribe t' eb) then Some (make_chan 100) else subscription t i eb)"
  by (auto simp: subscription_def subscribe_def Let_def index_or_upd nth_append)

lemma subscription_publish:
  "subscription t i (publish e eb) = (if ev_type e = t then map_option (\<lambda>ch. try_send ch e) (subscription t i eb)
     else subscription t i eb)"
  by (auto simp: subscription_def publish_def Let_def index_or_def split: option.splits)

lemma subscription_take:
  assumes "take_event t' j eb = Some (e, eb')"
  shows "subscription t i eb' = (if t = t' \<and> i = j then map_option (\<lambda>ch. ch\<lparr>chan_buf := tl (chan_buf ch)\<rparr>) (subscription t i eb)
      else subscription t i eb)"
    and "\<exists>ch. subscription t' j eb = Some ch \<and> chan_buf ch = e # tl (chan_buf ch)"
  using assms
  by (auto simp: take_event_def subscription_def recv_def Let_def index_or_upd nth_list_update
      split: if_splits option.splits list.splits)

datatype 'p bus_event = Subscribe string | Publish "'p event" | Take string nat

text \<open>A run of the bus, with what each subscription took.\<close>

fun bus_step :: "'p event_bus \<Rightarrow> 'p bus_event \<Rightarrow> 'p event_bus" where
  "bus_step eb (Subscribe t) = fst (subscribe t eb)"
| "bus_step eb (Publish e) = publish e eb"
| "bus_step eb (Take t i) = (case take_event t i eb of None \<Rightarrow> eb | Some (e, eb') \<Rightarrow> eb')"

fun taken_by :: "string \<Rightarrow> nat \<Rightarrow> 'p event_bus \<Rightarrow> 'p bus_event list \<Rightarrow> 'p event list" where
  "taken_by t i eb [] = []"
| "taken_by t i eb (ev # evs) =
     (case ev of Take t' j \<Rightarrow> (if t' = t \<and> j = i then (case take_event t i eb of None \<Rightarrow> [] | Some (e, _) \<Rightarrow> [e]) else [])
        | _ \<Rightarrow> [])
     @ taken_by t i (bus_step eb ev) evs"

text \<open>The published events of a type that find room in the subscription's channel.\<close>

fun fitting :: "string \<Rightarrow> nat \<Rightarrow> 'p event_bus \<Rightarrow> 'p bus_event list \<Rightarrow> 'p event list" where
  "fitting t i eb [] = []"
| "fitting t i eb (ev # evs) =
     (case ev of Publish e \<Rightarrow> (if ev_type e = t then
          (case subscription t i eb of None \<Rightarrow> [] | Some ch \<Rightarrow> (if length (chan_buf ch) < chan_cap ch then [e] else []))
        else []) | _ \<Rightarrow> [])
     @ fitting t i (bus_step eb ev) evs"

definition sub_buf :: "string \<Rightarrow> nat \<Rightarrow> 'p event_bus \<Rightarrow> 'p event list" where
  "sub_buf t i eb = (case subscription t i eb of None \<Rightarrow> [] | Some ch \<Rightarrow> chan_buf ch)"

lemma bus_step_fifo:
  assumes "subscription t i eb \<noteq> None"
  shows "taken_by t i eb [ev] @ sub_buf t i (bus_step eb ev) = sub_buf t i eb @ fitting t i eb [ev] \<and>
     subscription t i (bus_step eb ev) \<noteq> None"
proof (cases ev)
  case (Subscribe t')
  moreover have "\<not> (t = t' \<and> i = snd (subscribe t' eb))"
    using assms by (auto simp: subscription_def subscribe_def Let_def split: if_splits)
  then have "subscription t i (fst (subscribe t' eb)) = subscription t i eb"
    unfolding subscription_subscribe by (simp only: if_False)
  ultimately show ?thesis using assms by (simp add: sub_buf_def)
next
  case (Publish e)
  then show ?thesis
    using assms by (auto simp: sub_buf_def subscription_publish try_send_def split: option.splits)
next
  case (Take t' j)
  show ?thesis
  proof (cases "take_event t' j eb")
    case None
    then show ?thesis using Take assms by (auto simp: sub_buf_def)
  next
    case (Some p)
    then obtain e eb' where e: "take_event t' j eb = Some (e, eb')" by (cases p) simp
    show ?thesis
      using Take assms e subscription_take(1) [OF e, of t i] subscription_take(2) [OF e]
      by (auto simp: sub_buf_def split: option.splits)
  qed
qed

lemma fitting_Cons: "fitting t i eb (ev # evs) = fitting t i eb [ev] @ fitting t i (bus_step eb ev) evs"
  and taken_by_Cons: "taken_by t i eb (ev # evs) = taken_by t i eb [ev] @ taken_by t i (bus_step eb ev) evs"
  by simp_all

text \<open>
  C27: From the moment a subscription exists, and in any interleaving of subscriptions, publications
  and receives on the bus, what the subscriber has taken followed by what waits in its channel is
  what waited there at the start followed by the events of its type that were published while
  the channel had room, in order, each once: slow or new subscribers cost the others nothing.
\<close>

theorem event_bus_delivers_in_order:
  assumes "subscription t i eb \<noteq> None"
  shows "taken_by t i eb evs @ sub_buf t i (foldl bus_step eb evs) = sub_buf t i eb @ fitting t i eb evs"
  using assms
proof (induction evs arbitrary: eb)
  case Nil
  then show ?case by simp
next
  case (Cons ev evs)
  note step = bus_step_fifo [OF Cons.prems, of ev]
  have "taken_by t i (bus_step eb ev) evs @ sub_buf t i (foldl bus_step (bus_step eb ev) evs)
      = sub_buf t i (bus_step eb ev) @ fitting t i (bus_step eb ev) evs"
    using Cons.IH step by blast
  then show ?case
    unfolding fitting_Cons [of t i eb ev evs] taken_by_Cons [of t i eb ev evs] foldl_Cons
    using step by (metis append_assoc)
qed

theorem event_bus_delivers_in_order_witness:
  "taken_by ''T'' 0 (fst (subscribe ''T'' (new_event_bus :: nat event_bus)))
     [Publish \<lparr>ev_type = ''T'', ev_emitter = ''n'', ev_payload = 1\<rparr>, Take ''T'' 0]
   @ sub_buf ''T'' 0 (foldl bus_step (fst (subscribe ''T'' new_event_bus))
       [Publish \<lparr>ev_type = ''T'', ev_emitter = ''n'', ev_payload = 1\<rparr>, Take ''T'' 0])
   = [\<lparr>ev_type = ''T'', ev_emitter = ''n'', ev_payload = 1\<rparr>]"
proof -
  have "subscription ''T'' 0 (fst (subscribe ''T'' (new_event_bus :: nat event_bus))) = Some (make_chan 100)"
    by (simp add: subscription_def subscribe_def new_event_bus_def index_or_def)
  then show ?thesis by (subst event_bus_delivers_in_order) (simp_all add: sub_buf_def)
qed

end
