(* ===== verification/Kademlia.thy ===== *)
theory Kademlia
  imports Sha256
begin

text \<open>
  \<^verbatim>\<open>modules/networking/kademlia.go\<close>: the routing table of 256 buckets of at most 20 peers, the XOR
  distance of hashed identifiers, and the peer scores. A \<^verbatim>\<open>big.Int\<close> is a natural number.
\<close>

section \<open>State and operations\<close>

record peer_info =
  pi_id :: string
  pi_address :: string
  pi_score :: int
  pi_last_seen :: int
  pi_latency_ms :: int

record kademlia_dht =
  local_node_id :: string
  buckets :: "peer_info list list"
  peer_scores :: "string \<rightharpoonup> int"

definition new_kademlia_dht :: "string \<Rightarrow> kademlia_dht" where
  "new_kademlia_dht nid = \<lparr>local_node_id = nid, buckets = replicate 256 [], peer_scores = Map.empty\<rparr>"

text \<open>\<^verbatim>\<open>SetBytes\<close> reads big-endian; \<^verbatim>\<open>BitLen\<close> of zero is zero.\<close>

definition nat_of_bytes :: "bytes \<Rightarrow> nat" where
  "nat_of_bytes bs = foldl (\<lambda>n c. 256 * n + of_char c) 0 bs"

fun bit_len :: "nat \<Rightarrow> nat" where
  "bit_len n = (if n = 0 then 0 else Suc (bit_len (n div 2)))"

declare bit_len.simps [simp del]

definition xor_char :: "char \<Rightarrow> char \<Rightarrow> char" where
  "xor_char a b = char_of ((of_char a :: nat) XOR of_char b)"

definition calculate_xor_distance :: "kademlia_dht \<Rightarrow> string \<Rightarrow> nat" where
  "calculate_xor_distance k target_id =
     nat_of_bytes (map2 xor_char (sha256 (local_node_id k)) (sha256 target_id))"

definition bucket_idx :: "kademlia_dht \<Rightarrow> string \<Rightarrow> nat" where
  "bucket_idx k pid = (let b = int (bit_len (calculate_xor_distance k pid)) - 1;
     b1 = (if b < 0 then 0 else b) in nat (if b1 \<ge> 256 then 255 else b1))"

text \<open>The search loop of \<^verbatim>\<open>AddPeer\<close>: the first entry of that identifier is replaced.\<close>

fun replace_peer :: "peer_info \<Rightarrow> peer_info list \<Rightarrow> peer_info list option" where
  "replace_peer peer [] = None"
| "replace_peer peer (p # ps) = (if pi_id p = pi_id peer then Some (peer # ps)
     else map_option (\<lambda>qs. p # qs) (replace_peer peer ps))"

definition add_peer :: "peer_info \<Rightarrow> kademlia_dht \<Rightarrow> kademlia_dht" where
  "add_peer peer k =
     (let j = bucket_idx k (pi_id peer); bucket = buckets k ! j
      in case replace_peer peer bucket of
           Some ps \<Rightarrow> k\<lparr>buckets := (buckets k)[j := ps]\<rparr>
         | None \<Rightarrow>
             (let k1 = (if length bucket < 20 then k\<lparr>buckets := (buckets k)[j := bucket @ [peer]]\<rparr> else k)
              in k1\<lparr>peer_scores := (peer_scores k1)(pi_id peer \<mapsto> pi_score peer)\<rparr>))"

definition adjust_peer_score :: "string \<Rightarrow> int \<Rightarrow> kademlia_dht \<Rightarrow> kademlia_dht" where
  "adjust_peer_score pid delta k =
     k\<lparr>peer_scores := (peer_scores k)(pid \<mapsto> wrap64 (index_or 0 (peer_scores k) pid + delta))\<rparr>"

definition get_peer_score :: "kademlia_dht \<Rightarrow> string \<Rightarrow> int" where
  "get_peer_score k pid = index_or 0 (peer_scores k) pid"

section \<open>The distance\<close>

lemma nat_of_bytes_Nil [simp]: "nat_of_bytes [] = 0"
  by (simp add: nat_of_bytes_def)

lemma nat_of_bytes_snoc: "nat_of_bytes (bs @ [c]) = 256 * nat_of_bytes bs + of_char c"
  by (simp add: nat_of_bytes_def)

lemma nat_of_bytes_less: "nat_of_bytes bs < 256 ^ length bs"
proof (induction bs rule: rev_induct)
  case Nil
  then show ?case by (simp add: nat_of_bytes_def)
next
  case (snoc c bs)
  have "256 * a + c < 256 * b" if "a < b" "c < 256" for a b c :: nat using that by linarith
  from this [OF snoc nat_of_char_less_256 [of c]]
  show ?case by (simp add: nat_of_bytes_snoc)
qed

lemma nat_of_bytes_eq_0: "nat_of_bytes bs = 0 \<longleftrightarrow> (\<forall>c \<in> set bs. of_char c = (0 :: nat))"
  by (induction bs rule: rev_induct) (auto simp: nat_of_bytes_snoc)

lemma bit_len_le: "n < 2 ^ k \<Longrightarrow> bit_len n \<le> k"
proof (induction n arbitrary: k rule: bit_len.induct)
  case (1 n)
  show ?case
  proof (cases "n = 0")
    case False
    with "1.prems" obtain j where k: "k = Suc j" by (cases k) auto
    with "1.prems" have "n div 2 < 2 ^ j" by auto
    with "1.IH" False k show ?thesis by (subst bit_len.simps) simp
  qed (subst bit_len.simps, simp)
qed

lemma of_char_xor_char: "(of_char (xor_char a b) :: nat) = of_char a XOR of_char b"
proof -
  have "take_bit 8 ((of_char a :: nat) XOR of_char b) = of_char a XOR of_char b"
    by (simp add: take_bit_xor take_bit_nat_eq_self nat_of_char_less_256)
  then show ?thesis by (simp add: xor_char_def take_bit_eq_mod)
qed

lemma xor_distance_less: "calculate_xor_distance k pid < 2 ^ 256"
proof -
  have "calculate_xor_distance k pid < 256 ^ 32"
    using nat_of_bytes_less [of "map2 xor_char (sha256 (local_node_id k)) (sha256 pid)"]
    unfolding calculate_xor_distance_def length_map length_zip length_sha256 by simp
  also have "(256 :: nat) ^ 32 = 2 ^ 256" by simp
  finally show ?thesis .
qed

lemma bucket_idx_less: "bucket_idx k pid < 256"
  by (simp add: bucket_idx_def Let_def nat_less_iff)

text \<open>The clamp at 255 is never needed.\<close>

lemma bucket_idx_eq: "bucket_idx k pid = bit_len (calculate_xor_distance k pid) - 1"
  using bit_len_le [OF xor_distance_less [of k pid]] by (auto simp: bucket_idx_def Let_def nat_diff_distrib)

lemma xor_distance_self: "calculate_xor_distance k pid = 0 \<longleftrightarrow> sha256 pid = sha256 (local_node_id k)"
proof -
  have xor0: "(of_char (xor_char a b) :: nat) = 0 \<longleftrightarrow> a = b" for a b
  proof
    assume "(of_char (xor_char a b) :: nat) = 0"
    then have "(of_char a :: nat) = of_char b"
      unfolding of_char_xor_char by (metis xor.assoc xor_self_eq xor.left_neutral xor.right_neutral)
    then show "a = b" by simp
  qed (simp add: of_char_xor_char)
  have "calculate_xor_distance k pid = 0 \<longleftrightarrow>
      (\<forall>(a, b) \<in> set (zip (sha256 (local_node_id k)) (sha256 pid)). a = b)"
    by (auto simp: calculate_xor_distance_def nat_of_bytes_eq_0 xor0)
  also have "\<dots> \<longleftrightarrow> sha256 (local_node_id k) = sha256 pid"
    by (auto simp: list_eq_iff_zip_eq)
  finally show ?thesis by auto
qed

section \<open>The table\<close>

lemma replace_peer_None: "replace_peer peer ps = None \<longleftrightarrow> pi_id peer \<notin> pi_id ` set ps"
  by (induction ps) (auto split: if_splits)

lemma replace_peer_Some:
  "replace_peer peer ps = Some qs \<Longrightarrow> map pi_id qs = map pi_id ps \<and> set qs \<subseteq> insert peer (set ps)"
proof (induction ps arbitrary: qs)
  case (Cons p ps)
  then show ?case by (cases "pi_id p = pi_id peer") fastforce+
qed simp

definition bucket_ok :: "kademlia_dht \<Rightarrow> nat \<Rightarrow> peer_info list \<Rightarrow> bool" where
  "bucket_ok k j ps \<longleftrightarrow> length ps \<le> 20 \<and> distinct (map pi_id ps) \<and> (\<forall>p \<in> set ps. bucket_idx k (pi_id p) = j)"

definition table_ok :: "kademlia_dht \<Rightarrow> bool" where
  "table_ok k \<longleftrightarrow> length (buckets k) = 256 \<and> (\<forall>j < 256. bucket_ok k j (buckets k ! j))"

lemma bucket_idx_cong: "local_node_id k = local_node_id k' \<Longrightarrow> bucket_idx k = bucket_idx k'"
  by (simp add: bucket_idx_def calculate_xor_distance_def fun_eq_iff)

lemma table_ok_update:
  assumes "table_ok k" and "j < 256" and "bucket_ok k j ps" and "buckets k' = (buckets k)[j := ps]"
    and "local_node_id k' = local_node_id k"
  shows "table_ok k'"
proof -
  have "bucket_ok k' i qs = bucket_ok k i qs" for i qs
    using bucket_idx_cong [OF assms(5)] by (simp add: bucket_ok_def)
  then show ?thesis using assms by (auto simp: table_ok_def nth_list_update)
qed

lemma table_ok_add_peer: "table_ok k \<Longrightarrow> table_ok (add_peer peer k)"
proof -
  assume k: "table_ok k"
  let ?j = "bucket_idx k (pi_id peer)" and ?b = "buckets k ! bucket_idx k (pi_id peer)"
  have j: "?j < 256" by (rule bucket_idx_less)
  with k have b: "bucket_ok k ?j ?b" by (simp add: table_ok_def)
  show "table_ok (add_peer peer k)"
  proof (cases "replace_peer peer ?b")
    case None
    then have fresh: "pi_id peer \<notin> pi_id ` set ?b" by (simp add: replace_peer_None)
    show ?thesis
    proof (cases "length ?b < 20")
      case True
      have "bucket_ok k ?j (?b @ [peer])" using b fresh True by (auto simp: bucket_ok_def)
      then show ?thesis
        by (rule table_ok_update [OF k j]) (use None True in \<open>simp_all add: add_peer_def Let_def\<close>)
    next
      case False
      show ?thesis
        by (rule table_ok_update [OF k j b]) (use None False in \<open>simp_all add: add_peer_def Let_def\<close>)
    qed
  next
    case (Some ps)
    then have "map pi_id ps = map pi_id ?b" "set ps \<subseteq> insert peer (set ?b)" using replace_peer_Some by blast+
    then have "bucket_ok k ?j ps" using b by (auto simp: bucket_ok_def dest: map_eq_imp_length_eq)
    then show ?thesis
      by (rule table_ok_update [OF k j]) (use Some in \<open>simp_all add: add_peer_def Let_def\<close>)
  qed
qed

lemma table_ok_adjust: "table_ok (adjust_peer_score pid delta k) = table_ok k"
  using bucket_idx_cong [of "adjust_peer_score pid delta k" k]
  by (simp add: table_ok_def bucket_ok_def adjust_peer_score_def)

datatype dht_event = AddPeer peer_info | AdjustScore string int

fun dht_step :: "kademlia_dht \<Rightarrow> dht_event \<Rightarrow> kademlia_dht" where
  "dht_step k (AddPeer p) = add_peer p k"
| "dht_step k (AdjustScore pid delta) = adjust_peer_score pid delta k"

text \<open>
  C26: After any sequence of additions and score changes the routing table has 256 buckets, each
  with at most 20 peers and no identifier twice, and every peer is in the bucket of its distance:
  the index is the bit length of the XOR distance less one, or 0 for a peer at distance 0, whose
  index -1 the code clamps, as the subtraction of natural numbers does. The clamp at 255 is never
  needed.
\<close>

theorem kademlia_table_invariant:
  "length (buckets (foldl dht_step (new_kademlia_dht nid) evs)) = 256 \<and>
   (\<forall>j < 256. length (buckets (foldl dht_step (new_kademlia_dht nid) evs) ! j) \<le> 20 \<and>
      distinct (map pi_id (buckets (foldl dht_step (new_kademlia_dht nid) evs) ! j)) \<and>
      (\<forall>p \<in> set (buckets (foldl dht_step (new_kademlia_dht nid) evs) ! j).
         bit_len (calculate_xor_distance (foldl dht_step (new_kademlia_dht nid) evs) (pi_id p)) - 1 = j))"
proof -
  have "table_ok (new_kademlia_dht nid)" by (simp add: table_ok_def bucket_ok_def new_kademlia_dht_def)
  then have "table_ok (foldl dht_step (new_kademlia_dht nid) evs)"
  proof (induction evs rule: rev_induct)
    case (snoc ev evs)
    then show ?case by (cases ev) (simp_all add: table_ok_add_peer table_ok_adjust)
  qed simp
  then show ?thesis by (simp add: table_ok_def bucket_ok_def bucket_idx_eq)
qed

lemma readd_peer:
  "buckets (foldl dht_step (new_kademlia_dht nid) [AddPeer p, AdjustScore (pi_id p) delta, AddPeer p])
     ! bucket_idx (new_kademlia_dht nid) (pi_id p) = [p]"
proof -
  let ?j = "bucket_idx (new_kademlia_dht nid) (pi_id p)"
  have idx: "bucket_idx k (pi_id p) = ?j" if "local_node_id k = nid" for k
    using bucket_idx_cong [of k "new_kademlia_dht nid"] that by (simp add: new_kademlia_dht_def)
  have add: "buckets (add_peer p k) = (buckets k)[?j := [p]]" "local_node_id (add_peer p k) = nid"
    if "local_node_id k = nid" "buckets k ! ?j = [] \<or> buckets k ! ?j = [p]" for k
    using that by (auto simp: add_peer_def Let_def idx [OF that(1)])
  have "buckets (new_kademlia_dht nid) = replicate 256 []" "local_node_id (new_kademlia_dht nid) = nid"
    by (simp_all add: new_kademlia_dht_def)
  then show ?thesis
    using bucket_idx_less [of "new_kademlia_dht nid" "pi_id p"]
    by (simp add: add adjust_peer_score_def)
qed

theorem kademlia_table_invariant_witness:
  "\<exists>j < 256. let p = \<lparr>pi_id = ''a'', pi_address = [], pi_score = 100, pi_last_seen = 0, pi_latency_ms = 0\<rparr>;
       t = foldl dht_step (new_kademlia_dht ''n'') [AddPeer p, AdjustScore ''a'' 5, AddPeer p]
     in buckets t ! j = [p] \<and> bit_len (calculate_xor_distance t ''a'') - 1 = j"
proof -
  let ?p = "\<lparr>pi_id = ''a'', pi_address = [], pi_score = 100, pi_last_seen = 0, pi_latency_ms = 0\<rparr>"
  let ?evs = "[AddPeer ?p, AdjustScore ''a'' 5, AddPeer ?p]"
  let ?t = "foldl dht_step (new_kademlia_dht ''n'') ?evs" and ?j = "bucket_idx (new_kademlia_dht ''n'') ''a''"
  have j: "?j < 256" by (rule bucket_idx_less)
  have id: "pi_id ?p = ''a''" by simp
  have b: "buckets ?t ! ?j = [?p]" using readd_peer [of "''n''" ?p 5] unfolding id .
  have "?p \<in> set (buckets ?t ! ?j)" unfolding b by (rule list.set_intros)
  then have "bit_len (calculate_xor_distance ?t (pi_id ?p)) - 1 = ?j"
    using kademlia_table_invariant [of "''n''" ?evs] j by meson
  then have "bit_len (calculate_xor_distance ?t ''a'') - 1 = ?j" unfolding id .
  then show ?thesis unfolding Let_def using j b by (intro exI [of _ ?j] conjI)
qed

text \<open>
  Re-adding a known peer replaces its entry but leaves its score as it was, while a new peer
  whose bucket is full is not entered and has its score recorded all the same.
\<close>

theorem add_peer_score:
  assumes "table_ok k"
  shows "get_peer_score (add_peer peer k) (pi_id peer) =
     (if pi_id peer \<in> pi_id ` set (buckets k ! bucket_idx k (pi_id peer)) then get_peer_score k (pi_id peer) else pi_score peer)
   \<and> (pi_id peer \<in> pi_id ` set (buckets (add_peer peer k) ! bucket_idx k (pi_id peer)) \<longleftrightarrow>
      pi_id peer \<in> pi_id ` set (buckets k ! bucket_idx k (pi_id peer)) \<or> length (buckets k ! bucket_idx k (pi_id peer)) < 20)"
proof -
  let ?j = "bucket_idx k (pi_id peer)" and ?b = "buckets k ! bucket_idx k (pi_id peer)"
  have j: "?j < length (buckets k)" using assms bucket_idx_less by (simp add: table_ok_def)
  show ?thesis
  proof (cases "replace_peer peer ?b")
    case None
    then have "pi_id peer \<notin> pi_id ` set ?b" by (simp add: replace_peer_None)
    then show ?thesis using None j by (simp add: add_peer_def get_peer_score_def index_or_def Let_def)
  next
    case (Some ps)
    then have "pi_id ` set ps = pi_id ` set ?b" using replace_peer_Some by (metis list.set_map)
    moreover have "pi_id peer \<in> pi_id ` set ?b" using Some replace_peer_None by (metis option.distinct(1))
    ultimately show ?thesis using Some j by (simp add: add_peer_def get_peer_score_def index_or_def Let_def)
  qed
qed

end
