(* ===== verification/Spec2Isabelle.thy ===== *)
theory Spec2Isabelle
  imports KvStore DistConfig MetadataService DistQueue DistLock Blocks MerkleState ExecutionEngine Replay
    RaftEngine RaftLog RaftElection RaftSystem RaftPersistence Replication
    RaftCrash Services Experiment Privacy SovereignNode Registries AppCodecs StateRoots ReplayJson Logger ChannelConsensus P2PNetwork
    NodeRuntime NodeLifecycle BlockNetwork Benchmark ExperimentReport SovereignMain Scheduler EventBus Kademlia Security
begin

text \<open>
  A verification development for a modular runtime of replicated services written in Go: storage,
  consensus engines, deterministic state machines on top of them, an execution router, networking
  and a node runtime that ties them together.

  \<^bold>\<open>How the parts interact.\<close> A consensus engine (\<^verbatim>\<open>modules/consensus\<close>) emits committed byte strings
  on a channel. A state machine (\<^verbatim>\<open>applications/*\<close>, \<^verbatim>\<open>core/execution/engine.go\<close>) decodes each one with
  JSON, changes its state, writes through to a storage (\<^verbatim>\<open>modules/storage\<close>) and answers with a
  state root, a SHA-256 digest that replicas compare. The replay engine
  (\<^verbatim>\<open>core/runtime/replay.go\<close>) re-applies recorded commits and checks the roots. The node runtime
  (\<^verbatim>\<open>core/runtime/runtime.go\<close>) starts services, collects transactions from the network, mines them
  into blocks and applies the blocks to the chain state. The privacy modules
  (\<^verbatim>\<open>modules/privacy\<close>, \<^verbatim>\<open>core/execution/router.go\<close>) keep payloads off the chain and check them
  against anchored hashes.

  \<^bold>\<open>Theories.\<close>
  \<^item> \<^verbatim>\<open>Prelude\<close>: bytes, errors, 64-bit integers, buffered channels, map iteration orders, nested maps.
    \<^verbatim>\<open>Sha256\<close>: the digest as a concrete function. \<^verbatim>\<open>Storage\<close>: the storage interface as the locale
    \<^verbatim>\<open>key_value_store\<close>, the in-memory storage and the Pebble adapter. \<^verbatim>\<open>StateMachine\<close>: runs of commits
    and the locales \<^verbatim>\<open>state_machine\<close> and \<^verbatim>\<open>deterministic_machine\<close>.
  \<^item> \<^verbatim>\<open>KvStore\<close>, \<^verbatim>\<open>DistConfig\<close>, \<^verbatim>\<open>MetadataService\<close>, \<^verbatim>\<open>DistQueue\<close>, \<^verbatim>\<open>DistLock\<close>: one application each, with an
    abstract specification (a map, a flat map, a queue per topic, a lease table) and, for the three
    that sort before they hash, an interpretation of \<^verbatim>\<open>deterministic_machine\<close>: replicas agree.
  \<^item> \<^verbatim>\<open>Blocks\<close> (transactions, blocks, mining, chain state), \<^verbatim>\<open>MerkleState\<close>, \<^verbatim>\<open>ExecutionEngine\<close>, \<^verbatim>\<open>Replay\<close>.
  \<^item> \<^verbatim>\<open>RaftEngine\<close>: every operation of \<^verbatim>\<open>raft_engine.go\<close> and \<^verbatim>\<open>raft_membership.go\<close>. \<^verbatim>\<open>RaftLog\<close>: the log by
    absolute index, delivery, proposals, compaction. \<^verbatim>\<open>RaftElection\<close>: votes of one node and the start
    of an election. \<^verbatim>\<open>RaftSystem\<close>: the node in operation, started once, as a labelled step relation with
    its loop, timer and goroutines, the invariants of its runs, and how a node becomes leader.
    \<^verbatim>\<open>RaftPersistence\<close>: restarts. \<^verbatim>\<open>Replication\<close>: a series of proposals and what a message that carries
    them does at a follower. \<^verbatim>\<open>RaftJson\<close>: the persisted state as JSON text, and what a crash loses of
    it. \<^verbatim>\<open>RaftCrash\<close>: a node over several lives, with its votes and its log.
  \<^item> \<^verbatim>\<open>Utf8\<close>, \<^verbatim>\<open>Base64\<close>, \<^verbatim>\<open>Json\<close>: what \<^verbatim>\<open>encoding/json\<close> does with strings, byte slices and whole texts: a
    tokenizer, a stack machine with the nesting limit of the library, the printer and its inverse.
    \<^verbatim>\<open>JsonCodec\<close>: decoding into a Go struct by a table of its fields, and the locale \<^verbatim>\<open>json_codec\<close>.
    \<^verbatim>\<open>AppCodecs\<close>: the payloads of the applications, interpreted in that locale. \<^verbatim>\<open>JsonStream\<close>: a decoder on
    a stream, which stops behind the first value. \<^verbatim>\<open>GoFloat\<close>: \<^verbatim>\<open>float64\<close> as bit patterns, written with the
    fewest digits that read back. \<^verbatim>\<open>FloatArith\<close>: sums, products and quotients, and that rounding is monotone.
    \<^verbatim>\<open>BlockJson\<close>: transactions and blocks as text, how a time prints, and what decoding can produce.
  \<^item> \<^verbatim>\<open>Privacy\<close>, \<^verbatim>\<open>Registries\<close> (services, plugins, assets under the locale \<^verbatim>\<open>first_wins\<close>),
    \<^verbatim>\<open>ChannelConsensus\<close> (three engines under the locale \<^verbatim>\<open>commit_channel\<close>), \<^verbatim>\<open>P2PNetwork\<close> (the network
    node and its handlers), \<^verbatim>\<open>NodeRuntime\<close> (event loop, life cycle), \<^verbatim>\<open>Scheduler\<close>, \<^verbatim>\<open>EventBus\<close>, \<^verbatim>\<open>Kademlia\<close>, \<^verbatim>\<open>Security\<close>.
  \<^item> \<^verbatim>\<open>NodeLifecycle\<close> (the runtime and its network node from the start to the stop), \<^verbatim>\<open>Services\<close> (the services
    side by side, as runtime and registry see them), \<^verbatim>\<open>SovereignNode\<close> (router and prover workers as a
    step relation, the node that \<^verbatim>\<open>cmd/sovereign\<close> boots), \<^verbatim>\<open>StateRoots\<close> (the roots of all state machines),
    \<^verbatim>\<open>GoTime\<close> (the calendar and RFC 3339), \<^verbatim>\<open>ReplayJson\<close> (the replay log as text), \<^verbatim>\<open>Logger\<close>, \<^verbatim>\<open>Experiment\<close>
    (\<^verbatim>\<open>cmd/experiment\<close>: a benchmark round, the integer figures, the exported files), \<^verbatim>\<open>Benchmark\<close> (the figures and
    the file of \<^verbatim>\<open>runner.go\<close>), \<^verbatim>\<open>ExperimentReport\<close> (\<^verbatim>\<open>main.go\<close>), \<^verbatim>\<open>SovereignMain\<close> (\<^verbatim>\<open>cmd/sovereign\<close> as a whole and the
    registration of the counters).
  \<^item> \<^verbatim>\<open>BlockNetwork\<close>: two nodes with the JSON of the program between them, a miner and a follower.

  \<^bold>\<open>Correspondence.\<close> A Go struct is a record without its mutex; a method that holds the mutex for its
  whole body is one function on the record, and where the code releases it (the Raft loop, its
  elections, the event loop) the interleaving is explicit in a step relation. Strings and byte
  slices are character lists; \<^verbatim>\<open>int\<close> and \<^verbatim>\<open>int64\<close> are integers with results taken through \<^verbatim>\<open>wrap64\<close>;
  unsigned counters are 64-bit words. Errors are values of \<^verbatim>\<open>go_error\<close> on the left of a sum or in an
  option; an index out of range is the value \<^verbatim>\<open>Panic\<close>; a send that has to wait is \<^verbatim>\<open>None\<close>. A range over
  a map takes its iteration order as an argument, the clock and random draws are arguments too.

  \<^bold>\<open>Parameters.\<close> The YAML codec, Pebble, libp2p, the peer network, Ed25519, X.509, the registry of
  Prometheus, the operating system's files, whether the compiler fuses products and sums, and the
  abbreviations of time zones are arguments of the definitions; mining and the chain take the whole
  rendering of a time as an argument, and \<^verbatim>\<open>go_time_string\<close> is the one of the program. What a
  property relies on is a named hypothesis of it
  (\<^verbatim>\<open>pebble_laws\<close>, \<^verbatim>\<open>round_trips\<close>, \<^verbatim>\<open>accepts_writes\<close>, \<^verbatim>\<open>lib_works\<close>, \<^verbatim>\<open>x509_laws\<close>, \<^verbatim>\<open>registry_laws\<close>,
  \<^verbatim>\<open>codec_keeps_index\<close>). The state machines, the Raft engine and the event loop take their codec as an
  argument too; \<^verbatim>\<open>AppCodecs\<close>, \<^verbatim>\<open>RaftJson\<close>, \<^verbatim>\<open>BlockJson\<close> and \<^verbatim>\<open>BlockNetwork\<close> supply the one of the program.

  \<^bold>\<open>Loops.\<close> Mining may run for ever: \<^verbatim>\<open>mine_loop\<close> is a partial function, and that it returns at the
  first solution, or when its context ends, is proved. The delivery loop of \<^verbatim>\<open>HandleAppendEntries\<close> and
  the Merkle levels have measures. No definition needs fuel.

  \<^bold>\<open>What the properties show.\<close> The applications refine their specifications and, where they sort, are
  deterministic; what clients write at a leader is what readers see on a follower; a node that hears
  the blocks of a miner has the miner's chain; every root is a digest; leases exclude; queues are
  FIFO; replay is exact, from text to text; logs, blocks and benchmark files read back; telemetry
  accounts for every trace, the dropped ones included, and the counters for what happened. A Raft
  node votes once per term over any number of crashes, leads only with a counted majority or by
  \<^verbatim>\<open>SetRole\<close>, and never panics under orderly leaders; a crash loses no entry, and a term or vote only to
  a message that the code forgets to write; a message rewrites the log as specified and delivers
  what it commits. The remaining
  properties record where the code falls short of that: elections that ask nobody and make two leaders of
  one term, votes given twice, committed entries removed by an old message, clocks read inside a state machine, payloads
  stored before they are verified, blocks that overwrite each other, blocks lost for one offset of a
  time, an empty file reported as success.

  \<^bold>\<open>Not modelled.\<close> The inside of the pprof, HTTP and libp2p servers, of X.509 and of the Prometheus
  registry (libraries; what the code asks of them are parameters), the texts of errors of the JSON
  library, and the tests.
\<close>

section \<open>From a proposal to the state of two replicas\<close>

text \<open>The map a series of payloads builds: the last write to a key counts.\<close>

definition written :: "kv_payload list \<Rightarrow> (string \<rightharpoonup> bytes)" where
  "written ps = foldl (\<lambda>m p. m(kvp_key p := (if kvp_op p = op_put then Some (kvp_value p) else None))) Map.empty ps"

definition request_text :: "kv_payload \<Rightarrow> bytes" where
  "request_text p = json_print (enc_kv p)"

definition supported :: "kv_payload \<Rightarrow> bool" where
  "supported p \<longleftrightarrow> kv_good p \<and> kvp_op p \<in> {op_put, op_delete}"

lemma request_text_nonempty: "request_text p \<noteq> []"
  by (simp add: request_text_def json_print_def enc_kv_def)

lemma kv_unmarshal_request: "supported p \<Longrightarrow> kv_unmarshal (request_text p) = Inr p"
  using kv_codec.unmarshal_marshal [of p] by (simp add: kv_unmarshal_def request_text_def supported_def)

lemma spec_run_written:
  "\<forall>p \<in> set ps. supported p \<Longrightarrow> kv_spec_run kv_unmarshal (map request_text ps) m =
     foldl (\<lambda>m p. m(kvp_key p := (if kvp_op p = op_put then Some (kvp_value p) else None))) m ps"
  by (induction ps arbitrary: m) (auto simp: kv_unmarshal_request kv_spec_def supported_def)

lemma store_of_channel:
  assumes "\<forall>p \<in> set ps. supported p" and "map snd cs = map request_text ps"
  shows "kv_get (run_commits (kv_apply memory_api kv_unmarshal) (new_kv_state new_memory_storage) cs) = written ps"
proof
  fix k show "kv_get (run_commits (kv_apply memory_api kv_unmarshal) (new_kv_state new_memory_storage) cs) k = written ps k"
    using spec_run_written [OF assms(1), of Map.empty] assms(2)
    by (simp add: kv_get_def in_memory_run new_kv_state_def written_def)
qed

text \<open>What reaches the two commit channels when they start empty: as many requests as they have room for.\<close>

lemma channels_hold_requests:
  assumes "log_wf ld" and "role ld = RoleLeader" and "sn_last_index (snap ld) + int (length (log ld)) + int (length ps) < int64_max"
    and "in_step_with f ld" and "sn_last_index (snap f) \<le> sn_last_index (snap ld)"
    and "chan_buf (commit_chan ld) = []" and "ps \<noteq> []" and "replicates m ld (propose_all d (map request_text ps) ld)"
  shows "chan_buf (commit_chan (propose_all d (map request_text ps) ld)) = map request_text (take (chan_cap (commit_chan ld)) ps)"
    and "chan_buf (commit_chan (fst (handle_append_entries d' r m f))) = map request_text (take (chan_cap (commit_chan ld)) ps)"
proof -
  have room: "sn_last_index (snap ld) + int (length (log ld)) + int (length (map request_text ps)) < int64_max" using assms(3) by simp
  from propose_all_outcome [OF assms(1,2), of "map request_text ps" d] room assms(6)
  show ld: "chan_buf (commit_chan (propose_all d (map request_text ps) ld)) = map request_text (take (chan_cap (commit_chan ld)) ps)"
    by (simp add: take_map)
  have "map request_text ps \<noteq> []" "\<forall>x \<in> set (map request_text ps). x \<noteq> []" using assms(7) request_text_nonempty by auto
  from follower_delivers_same [OF assms(1,2) room assms(4,5) this assms(8), of d' r]
  show "chan_buf (commit_chan (fst (handle_append_entries d' r m f))) = map request_text (take (chan_cap (commit_chan ld)) ps)"
    unfolding ld .
qed

text \<open>
  C2: From the client to the reader on another node: puts and deletes, sent as JSON text, are proposed at
  a leader, and a follower in step receives a message with the leader's new entries and commit
  index. When each node then applies what its commit channel holds to a fresh store of its own, a
  reader on either node sees exactly what the requests have written, byte for byte, the last write
  to a key counting; and the two stores are equal in contents, storage and root, although each ranges
  over its maps in its own order. Two conditions come from the code: the commit channels start
  empty, and of the requests only as many count as a channel has room for, the rest being dropped
  without an error. The message is the environment's: nothing under \<^verbatim>\<open>modules/\<close> sends one.
\<close>

theorem replicated_writes_are_readable:
  assumes "log_wf ld" and "role ld = RoleLeader" and "sn_last_index (snap ld) + int (length (log ld)) + int (length ps) < int64_max"
    and "in_step_with f ld" and "sn_last_index (snap f) \<le> sn_last_index (snap ld)"
    and "chan_buf (commit_chan ld) = []" and "ps \<noteq> []" and "\<forall>p \<in> set ps. supported p"
    and "ld' = propose_all d (map request_text ps) ld" and "replicates m ld ld'"
    and "map snd cs = chan_buf (commit_chan ld')"
    and "map snd cs' = chan_buf (commit_chan (fst (handle_append_entries d' r m f)))"
    and "legal_run (kv_env_ok memory_api kv_unmarshal) (kv_apply memory_api kv_unmarshal) (new_kv_state new_memory_storage) cs"
    and "legal_run (kv_env_ok memory_api kv_unmarshal) (kv_apply memory_api kv_unmarshal) (new_kv_state new_memory_storage) cs'"
  shows "kv_get (run_commits (kv_apply memory_api kv_unmarshal) (new_kv_state new_memory_storage) cs)
       = written (take (chan_cap (commit_chan ld)) ps) \<and>
     kv_get (run_commits (kv_apply memory_api kv_unmarshal) (new_kv_state new_memory_storage) cs')
       = written (take (chan_cap (commit_chan ld)) ps) \<and>
     run_commits (kv_apply memory_api kv_unmarshal) (new_kv_state new_memory_storage) cs
       = run_commits (kv_apply memory_api kv_unmarshal) (new_kv_state new_memory_storage) cs'"
proof -
  let ?ps = "take (chan_cap (commit_chan ld)) ps"
  note held = channels_hold_requests [OF assms(1-7) assms(10) [unfolded assms(9)]]
  have cs: "map snd cs = map request_text ?ps" "map snd cs' = map request_text ?ps"
    using assms(9,11,12) held(1) held(2) [where d' = d' and r = r] by simp_all
  then have "map snd cs = map snd cs'" by simp
  moreover have "\<forall>p \<in> set ?ps. supported p" using assms(8) by (auto dest: in_set_takeD)
  ultimately show ?thesis
    using kv.replicas_agree [OF _ assms(13,14)] store_of_channel [OF _ cs(1)] store_of_channel [OF _ cs(2)] by simp
qed

text \<open>A leader with an empty log, a follower like it, and two puts; each node ranges over its map in its own order.\<close>

definition sample_puts :: "kv_payload list" where
  "sample_puts = [\<lparr>kvp_op = ''PUT'', kvp_key = ''x'', kvp_value = ''1''\<rparr>, \<lparr>kvp_op = ''PUT'', kvp_key = ''y'', kvp_value = [CHR 0xFF]\<rparr>]"

lemma sample_puts_legal:
  assumes "u c1 = Inr (sample_puts ! 0)" and "u c2 = Inr (sample_puts ! 1)" and "ord = [''x'', ''y''] \<or> ord = [''y'', ''x'']"
  shows "legal_run (kv_env_ok memory_api u) (kv_apply memory_api u) (new_kv_state new_memory_storage) [([''x''], c1), (ord, c2)]"
  using assms by (auto simp: sample_puts_def kv_env_ok_def in_memory_kv_apply_cases kv_spec_def op_put_def iter_order_def new_kv_state_def)

lemma sample_nodes_ready:
  fixes d :: "'st raft_deps"
  defines "ld \<equiv> set_role RoleLeader (sample_node d)" and "f \<equiv> sample_node d"
  shows "log_wf ld" and "role ld = RoleLeader" and "sn_last_index (snap ld) + int (length (log ld)) + 2 < int64_max"
    and "in_step_with f ld" and "sn_last_index (snap f) \<le> sn_last_index (snap ld)" and "chan_buf (commit_chan ld) = []"
    and "chan_cap (commit_chan ld) = 1000"
proof -
  have fields: "log ld = [\<lparr>le_index = 0, le_term = 0, le_data = []\<rparr>]" "log f = [\<lparr>le_index = 0, le_term = 0, le_data = []\<rparr>]"
    "snap ld = \<lparr>sn_last_index = 0, sn_last_term = 0, sn_data = []\<rparr>" "snap f = \<lparr>sn_last_index = 0, sn_last_term = 0, sn_data = []\<rparr>"
    "commit_index f = 0" "last_applied f = 0" "commit_chan f = make_chan 1000" "commit_chan ld = make_chan 1000"
    "role ld = RoleLeader" "current_term f = 0" "current_term ld = 0"
    by (simp_all add: ld_def f_def set_role_def sample_defs)
  have wf: "log_wf ld" "log_wf f" using sample_node_wf [of d] by (simp_all add: ld_def f_def)
  then show "log_wf ld" by simp
  show "role ld = RoleLeader" "sn_last_index (snap ld) + int (length (log ld)) + 2 < int64_max"
    "sn_last_index (snap f) \<le> sn_last_index (snap ld)" "chan_buf (commit_chan ld) = []" "chan_cap (commit_chan ld) = 1000"
    by (simp_all add: fields int64_max_def make_chan_def)
  show "in_step_with f ld"
    by (simp add: in_step_with_def wf fields entry_at_def get_last_log_index_def get_last_log_term_def)
qed

theorem replicated_writes_are_readable_witness:
  "\<exists>kv kv'. kv_get kv ''y'' = Some [CHR 0xFF] \<and> kv_get kv' ''x'' = Some ''1'' \<and> kv = kv' \<and>
     kv = run_commits (kv_apply memory_api kv_unmarshal) (new_kv_state new_memory_storage)
       [([''x''], request_text (sample_puts ! 0)), ([''x'', ''y''], request_text (sample_puts ! 1))] \<and>
     kv' = run_commits (kv_apply memory_api kv_unmarshal) (new_kv_state new_memory_storage)
       [([''x''], request_text (sample_puts ! 0)), ([''y'', ''x''], request_text (sample_puts ! 1))]"
proof -
  fix d :: "memory_storage raft_deps"
  let ?ld = "set_role RoleLeader (sample_node d)" and ?f = "sample_node d"
  let ?cs = "[([''x''], request_text (sample_puts ! 0)), ([''x'', ''y''], request_text (sample_puts ! 1))]"
  let ?cs' = "[([''x''], request_text (sample_puts ! 0)), ([''y'', ''x''], request_text (sample_puts ! 1))]"
  note ready = sample_nodes_ready [of d]
  have ok: "\<forall>p \<in> set sample_puts. supported p" by (simp add: sample_puts_def supported_def kv_good_def op_put_def)
  have len: "length sample_puts = 2" "sample_puts \<noteq> []" by (simp_all add: sample_puts_def)
  have room: "sn_last_index (snap ?ld) + int (length (log ?ld)) + int (length sample_puts) < int64_max" using ready(3) len(1) by simp
  have fits: "take (chan_cap (commit_chan ?ld)) sample_puts = sample_puts" using ready(7) len(1) by simp
  let ?ld' = "propose_all d (map request_text sample_puts) ?ld"
  let ?m = "\<lparr>ae_term = current_term ?ld', ae_leader_id = node_id ?ld', ae_prev_log_index = get_last_log_index ?ld,
     ae_prev_log_term = get_last_log_term ?ld, ae_entries = drop (length (log ?ld)) (log ?ld'), ae_leader_commit = commit_index ?ld'\<rparr>"
  have m: "replicates ?m ?ld ?ld'" by (simp add: replicates_def)
  note held = channels_hold_requests(1) [OF ready(1,2) room ready(4,5,6) len(2) m, unfolded fits]
    channels_hold_requests(2) [OF ready(1,2) room ready(4,5,6) len(2) m, unfolded fits, where d' = d and r = 0]
  have texts: "map request_text sample_puts = [request_text (sample_puts ! 0), request_text (sample_puts ! 1)]" by (simp add: sample_puts_def)
  have cs: "map snd ?cs = chan_buf (commit_chan ?ld')" "map snd ?cs' = chan_buf (commit_chan (fst (handle_append_entries d 0 ?m ?f)))"
    unfolding held by (simp_all add: texts)
  have "supported (sample_puts ! 0)" "supported (sample_puts ! 1)" using ok len(1) by simp_all
  then have u: "kv_unmarshal (request_text (sample_puts ! 0)) = Inr (sample_puts ! 0)"
    "kv_unmarshal (request_text (sample_puts ! 1)) = Inr (sample_puts ! 1)" by (simp_all only: kv_unmarshal_request)
  note legal = sample_puts_legal [where u = kv_unmarshal, OF u]
  from replicated_writes_are_readable [OF ready(1,2) room ready(4,5,6) len(2) ok refl m cs legal [OF disjI1, OF refl] legal [OF disjI2, OF refl], unfolded fits]
  have res: "kv_get (run_commits (kv_apply memory_api kv_unmarshal) (new_kv_state new_memory_storage) ?cs) = written sample_puts"
    "kv_get (run_commits (kv_apply memory_api kv_unmarshal) (new_kv_state new_memory_storage) ?cs') = written sample_puts"
    "run_commits (kv_apply memory_api kv_unmarshal) (new_kv_state new_memory_storage) ?cs
      = run_commits (kv_apply memory_api kv_unmarshal) (new_kv_state new_memory_storage) ?cs'" by blast+
  have "written sample_puts ''y'' = Some [CHR 0xFF]" "written sample_puts ''x'' = Some ''1''"
    by (simp_all add: written_def sample_puts_def op_put_def)
  with res show ?thesis by metis
qed

end
